(* ===== verification/Prelude.thy ===== *)
theory Prelude
  imports Complex_Main "HOL-Library.Word"
begin

text \<open>
  Shared vocabulary of the development: the JSON values that cross the PostgreSQL boundary,
  JavaScript numbers, timestamps, the tables-as-lists representation of PostgreSQL tables, decimal
  rendering of numbers, and the result types of SQL functions and of JavaScript code.

  Conventions.
  \<^item> A JavaScript or SQL string is a \<open>string\<close>, a list of code units below 256.
  \<^item> JavaScript's \<open>undefined\<close> (and SQL's \<open>NULL\<close>) is \<open>None\<close>; the JSON value \<open>null\<close> is
    \<open>JNull\<close>.
  \<^item> Numbers are exact rationals; what the code does with the non-finite JavaScript numbers and
    with PostgreSQL's range checks is written out.
  \<^item> Instants are whole microseconds since the epoch, PostgreSQL's resolution.
\<close>

named_theorems tbl_simps \<open>how the table operations act on membership, keys and lookups\<close>

section \<open>JSON values and JavaScript numbers\<close>

datatype json =
    JNull
  | JBool bool
  | JNum rat
  | JStr string
  | JArr "json list"
  | JObj "(string \<times> json) list"

datatype jsnum = Fin rat | PosInf | NegInf | NotANumber

text \<open>The operators \<open>->\<close> and \<open>?\<close> of \<open>jsonb\<close>.\<close>

fun json_get :: "string \<Rightarrow> json \<Rightarrow> json option" where
  "json_get k (JObj kvs) = map_of kvs k"
| "json_get k _ = None"

definition json_has_key :: "string \<Rightarrow> json \<Rightarrow> bool" where
  "json_has_key k j \<longleftrightarrow> json_get k j \<noteq> None"

text \<open>\<open>JSON.stringify\<close> of a number: the non-finite ones become \<open>null\<close>.\<close>

fun json_of_num :: "jsnum \<Rightarrow> json" where
  "json_of_num (Fin r) = JNum r"
| "json_of_num _ = JNull"

text \<open>Building an object literal field by field, each field only when it is defined.\<close>

definition opt_field :: "string \<Rightarrow> json option \<Rightarrow> (string \<times> json) list" where
  "opt_field k v = (case v of None \<Rightarrow> [] | Some j \<Rightarrow> [(k, j)])"

lemma map_of_opt_field [simp]:
  "map_of (opt_field k v) k' = (if k = k' then v else None)"
  by (simp add: opt_field_def split: option.splits)

lemma opt_field_simps [simp]:
  "opt_field k None = []" "opt_field k (Some j) = [(k, j)]"
  by (simp_all add: opt_field_def)

text \<open>\<open>value ?? null\<close>.\<close>

definition or_null :: "json option \<Rightarrow> json" where
  "or_null j = (case j of None \<Rightarrow> JNull | Some v \<Rightarrow> v)"

text \<open>JavaScript's truthiness of a JSON value or \<open>undefined\<close>.\<close>

fun js_truthy :: "json option \<Rightarrow> bool" where
  "js_truthy None = False"
| "js_truthy (Some JNull) = False"
| "js_truthy (Some (JBool b)) = b"
| "js_truthy (Some (JNum r)) = (r \<noteq> 0)"
| "js_truthy (Some (JStr s)) = (s \<noteq> [])"
| "js_truthy (Some _) = True"

section \<open>Timestamps\<close>

text \<open>A \<open>timestamptz\<close>: a finite instant or \<open>'infinity'\<close>.\<close>

datatype tstamp = At int | Infinity

instantiation tstamp :: linorder
begin

fun less_eq_tstamp :: "tstamp \<Rightarrow> tstamp \<Rightarrow> bool" where
  "less_eq_tstamp (At a) (At b) = (a \<le> b)"
| "less_eq_tstamp _ Infinity = True"
| "less_eq_tstamp Infinity (At _) = False"

definition less_tstamp :: "tstamp \<Rightarrow> tstamp \<Rightarrow> bool" where
  "less_tstamp a b \<longleftrightarrow> a \<le> b \<and> \<not> b \<le> a"

instance
proof
  fix x y z :: tstamp
  show "(x < y) = (x \<le> y \<and> \<not> y \<le> x)" by (simp add: less_tstamp_def)
  show "x \<le> x" by (cases x) auto
  show "x \<le> y \<Longrightarrow> y \<le> z \<Longrightarrow> x \<le> z" by (cases x; cases y; cases z) auto
  show "x \<le> y \<Longrightarrow> y \<le> x \<Longrightarrow> x = y" by (cases x; cases y) auto
  show "x \<le> y \<or> y \<le> x" by (cases x; cases y) auto
qed

end

lemma tstamp_less_simps [simp]:
  "At a < At b \<longleftrightarrow> a < b" "At a < Infinity" "\<not> Infinity < t"
  by (auto simp: less_tstamp_def)

definition second :: int where
  "second = 1000000"

text \<open>\<open>make_interval(secs => x)\<close>: a number of seconds, to the nearest microsecond.\<close>

definition interval_secs :: "rat \<Rightarrow> int" where
  "interval_secs x = round (x * of_int second)"

lemma interval_secs_int [simp]: "interval_secs (of_int n) = n * second"
proof -
  have "(of_int n * of_int second :: rat) = of_int (n * second)" by simp
  then show ?thesis unfolding interval_secs_def by (metis round_of_int)
qed

section \<open>Tables as lists of rows\<close>

text \<open>
  A table is the list of its rows in insertion order. \<open>update \<dots> set \<dots> where P\<close>,
  \<open>delete from \<dots> where P\<close> and \<open>select \<dots> where key = k\<close>:
\<close>

definition tbl_update :: "('r \<Rightarrow> bool) \<Rightarrow> ('r \<Rightarrow> 'r) \<Rightarrow> 'r list \<Rightarrow> 'r list" where
  "tbl_update P f rs = map (\<lambda>r. if P r then f r else r) rs"

definition tbl_delete :: "('r \<Rightarrow> bool) \<Rightarrow> 'r list \<Rightarrow> 'r list" where
  "tbl_delete P rs = filter (\<lambda>r. \<not> P r) rs"

definition tbl_find :: "('r \<Rightarrow> bool) \<Rightarrow> 'r list \<Rightarrow> 'r option" where
  "tbl_find P rs = find P rs"

text \<open>\<open>insert \<dots> on conflict (key) do update\<close>.\<close>

definition tbl_upsert :: "('r \<Rightarrow> bool) \<Rightarrow> ('r \<Rightarrow> 'r) \<Rightarrow> 'r \<Rightarrow> 'r list \<Rightarrow> 'r list" where
  "tbl_upsert P f new rs = (if list_ex P rs then tbl_update P f rs else rs @ [new])"

lemma in_tbl_update [tbl_simps]:
  "x \<in> set (tbl_update P f rs) \<longleftrightarrow> (\<exists>r \<in> set rs. x = (if P r then f r else r))"
  by (auto simp: tbl_update_def)

lemma in_tbl_delete [tbl_simps]:
  "x \<in> set (tbl_delete P rs) \<longleftrightarrow> x \<in> set rs \<and> \<not> P x"
  by (simp add: tbl_delete_def)

lemma map_tbl_update:
  assumes "\<And>r. P r \<Longrightarrow> k (f r) = k r"
  shows "map k (tbl_update P f rs) = map k rs"
  using assms by (simp add: tbl_update_def)

lemma distinct_map_tbl_delete [tbl_simps]:
  "distinct (map k rs) \<Longrightarrow> distinct (map k (tbl_delete P rs))"
  by (simp add: tbl_delete_def distinct_map_filter)

lemma tbl_find_SomeD: "tbl_find P rs = Some r \<Longrightarrow> r \<in> set rs \<and> P r"
  unfolding tbl_find_def by (metis find_Some_iff nth_mem)

lemma tbl_find_None [tbl_simps]: "tbl_find P rs = None \<longleftrightarrow> (\<forall>r \<in> set rs. \<not> P r)"
  unfolding tbl_find_def by (auto simp: find_None_iff)

lemma tbl_find_key:
  assumes "distinct (map k rs)" "r \<in> set rs"
  shows "tbl_find (\<lambda>x. k x = k r) rs = Some r"
  using assms by (induction rs) (auto simp: tbl_find_def)

lemma tbl_find_append:
  "tbl_find P (xs @ ys) = (case tbl_find P xs of None \<Rightarrow> tbl_find P ys | Some r \<Rightarrow> Some r)"
  by (induction xs) (auto simp: tbl_find_def)

lemma tbl_find_update_key:
  assumes "\<And>r. k (f r) = k r"
  shows "tbl_find (\<lambda>x. k x = v) (tbl_update P f rs)
    = map_option (\<lambda>r. if P r then f r else r) (tbl_find (\<lambda>x. k x = v) rs)"
  using assms by (induction rs) (auto simp: tbl_find_def tbl_update_def)

lemma key_inj:
  assumes "distinct (map k rs)" "x \<in> set rs" "y \<in> set rs" "k x = k y"
  shows "x = y"
  using assms by (meson distinct_map inj_on_eq_iff)

section \<open>Decimal rendering\<close>

definition digit_char :: "nat \<Rightarrow> char" where
  "digit_char d = char_of (48 + d)"

fun nat_dec :: "nat \<Rightarrow> string" where
  "nat_dec n = (if n < 10 then [digit_char n] else nat_dec (n div 10) @ [digit_char (n mod 10)])"

declare nat_dec.simps [simp del]

definition int_dec :: "int \<Rightarrow> string" where
  "int_dec n = (if n < 0 then CHR ''-'' # nat_dec (nat (- n)) else nat_dec (nat n))"

definition char_digit :: "char \<Rightarrow> nat" where
  "char_digit c = of_char c - 48"

definition dec_val :: "string \<Rightarrow> nat" where
  "dec_val s = foldl (\<lambda>acc c. acc * 10 + char_digit c) 0 s"

definition is_digit :: "char \<Rightarrow> bool" where
  "is_digit c \<longleftrightarrow> 48 \<le> (of_char c :: nat) \<and> (of_char c :: nat) \<le> 57"

lemma of_char_digit_char: "d < 10 \<Longrightarrow> (of_char (digit_char d) :: nat) = 48 + d"
  by (simp add: digit_char_def)

lemma char_digit_digit_char [simp]: "d < 10 \<Longrightarrow> char_digit (digit_char d) = d"
  by (simp add: char_digit_def of_char_digit_char)

lemma dec_val_nat_dec [simp]: "dec_val (nat_dec n) = n"
proof (induction n rule: nat_dec.induct)
  case (1 n)
  show ?case
  proof (cases "n < 10")
    case True
    then show ?thesis by (simp add: nat_dec.simps [of n] dec_val_def)
  next
    case False
    with 1 have "dec_val (nat_dec (n div 10)) = n div 10" by simp
    with False show ?thesis by (simp add: nat_dec.simps [of n] dec_val_def)
  qed
qed

lemma nat_dec_inj [simp]: "nat_dec m = nat_dec n \<longleftrightarrow> m = n"
  by (metis dec_val_nat_dec)

lemma nat_dec_digits: "c \<in> set (nat_dec n) \<Longrightarrow> is_digit c"
proof (induction n rule: nat_dec.induct)
  case (1 n)
  show ?case
  proof (cases "n < 10")
    case True
    with "1.prems" show ?thesis
      by (auto simp: nat_dec.simps [of n] is_digit_def of_char_digit_char)
  next
    case False
    with 1 show ?thesis
      by (auto simp: nat_dec.simps [of n] is_digit_def of_char_digit_char)
  qed
qed

lemma nat_dec_nonempty [simp]: "nat_dec n \<noteq> []"
  by (subst nat_dec.simps) simp

section \<open>Results\<close>

text \<open>
  A SQL function either raises, leaving its transaction without effect, or returns: \<open>Inl\<close> of the
  error or \<open>Inr\<close>. An error carries its \<open>SQLSTATE\<close> and its message without the interpolated
  names.
\<close>

datatype pg_error = PgError (err_code: string) (err_message: string)

definition raise_exception :: "string \<Rightarrow> pg_error" where
  "raise_exception msg = PgError ''P0001'' msg"

definition task_cancelled :: pg_error where
  "task_cancelled = PgError ''AB001'' ''Task has been cancelled''"

definition run_already_failed :: pg_error where
  "run_already_failed = PgError ''AB002'' ''Run has already failed''"

definition invalid_retry :: "string \<Rightarrow> pg_error" where
  "invalid_retry msg = PgError ''AB003'' msg"

definition invalid_text :: pg_error where
  "invalid_text = PgError ''22P02'' ''invalid input syntax''"

definition out_of_range :: pg_error where
  "out_of_range = PgError ''22003'' ''value out of range''"

definition undefined_table :: pg_error where
  "undefined_table = PgError ''42P01'' ''relation does not exist''"

lemmas pg_error_defs =
  raise_exception_def task_cancelled_def run_already_failed_def invalid_retry_def
  invalid_text_def out_of_range_def undefined_table_def

definition bind_result :: "'e + 'a \<Rightarrow> ('a \<Rightarrow> 'e + 'b) \<Rightarrow> 'e + 'b" where
  "bind_result r f = (case r of Inl e \<Rightarrow> Inl e | Inr a \<Rightarrow> f a)"

lemma bind_result_simps [simp]:
  "bind_result (Inl e) f = Inl e" "bind_result (Inr a) f = f a"
  by (simp_all add: bind_result_def)

lemma bind_result_Inr: "bind_result r f = Inr b \<longleftrightarrow> (\<exists>a. r = Inr a \<and> f a = Inr b)"
  by (cases r) auto

section \<open>Reading numbers out of \<open>jsonb\<close>\<close>

text \<open>
  \<open>(p->>'key')::int\<close> and its kin: an absent key and a JSON \<open>null\<close> are SQL \<open>NULL\<close>; a JSON number
  and the text of a JSON string go through the input function of the type.
\<close>

definition is_blank :: "string \<Rightarrow> bool" where
  "is_blank s \<longleftrightarrow> list_all (\<lambda>c. c = CHR '' '') s"

definition trim_blanks :: "string \<Rightarrow> string" where
  "trim_blanks s = rev (dropWhile (\<lambda>c. c = CHR '' '') (rev (dropWhile (\<lambda>c. c = CHR '' '') s)))"

definition read_nat :: "string \<Rightarrow> nat option" where
  "read_nat s = (if s \<noteq> [] \<and> list_all is_digit s then Some (dec_val s) else None)"

definition read_signed :: "(string \<Rightarrow> 'a option) \<Rightarrow> ('a \<Rightarrow> 'a) \<Rightarrow> string \<Rightarrow> 'a option" where
  "read_signed rd neg s =
     (case s of
        [] \<Rightarrow> None
      | c # cs \<Rightarrow>
          if c = CHR ''-'' then map_option neg (rd cs)
          else if c = CHR ''+'' then rd cs else rd s)"

definition read_int :: "string \<Rightarrow> int option" where
  "read_int s = read_signed (\<lambda>s. map_option int (read_nat s)) uminus (trim_blanks s)"

definition cast_int :: "int \<Rightarrow> json option \<Rightarrow> pg_error + int option" where
  "cast_int bound j =
     (let in_range = (\<lambda>n. if - bound \<le> n \<and> n < bound then Inr (Some n) else Inl out_of_range)
      in case j of
           None \<Rightarrow> Inr None
         | Some JNull \<Rightarrow> Inr None
         | Some (JNum r) \<Rightarrow> if r = of_int \<lfloor>r\<rfloor> then in_range \<lfloor>r\<rfloor> else Inl invalid_text
         | Some (JStr s) \<Rightarrow>
             (case read_int s of None \<Rightarrow> Inl invalid_text | Some n \<Rightarrow> in_range n)
         | Some _ \<Rightarrow> Inl invalid_text)"

definition cast_int4 :: "json option \<Rightarrow> pg_error + int option" where
  "cast_int4 = cast_int 2147483648"

definition cast_bigint :: "json option \<Rightarrow> pg_error + int option" where
  "cast_bigint = cast_int 9223372036854775808"

text \<open>
  \<open>double precision\<close>: exact rationals within the range of the type. A magnitude of \<open>2 ^ 1024\<close> or
  more overflows, a non-zero one below \<open>2 ^ -1075\<close> underflows, and both raise; rounding within the
  range is not modelled.
\<close>

definition float8_check :: "rat \<Rightarrow> rat option" where
  "float8_check x =
     (if 2 ^ 1024 \<le> \<bar>x\<bar> \<or> (x \<noteq> 0 \<and> \<bar>x\<bar> < 1 / 2 ^ 1075) then None else Some x)"

definition split_at :: "char \<Rightarrow> string \<Rightarrow> string \<times> string option" where
  "split_at c s =
     (let a = takeWhile (\<lambda>x. x \<noteq> c) s; b = dropWhile (\<lambda>x. x \<noteq> c) s
      in (a, case b of [] \<Rightarrow> None | _ # r \<Rightarrow> Some r))"

definition read_decimal :: "string \<Rightarrow> rat option" where
  "read_decimal s =
     (case split_at CHR ''.'' s of
        (a, None) \<Rightarrow> map_option of_nat (read_nat a)
      | (a, Some b) \<Rightarrow>
          if (a \<noteq> [] \<or> b \<noteq> []) \<and> list_all is_digit a \<and> list_all is_digit b
          then Some (of_nat (dec_val a) + of_nat (dec_val b) / 10 ^ length b) else None)"

definition read_float :: "string \<Rightarrow> jsnum option" where
  "read_float s =
     (let low = map (\<lambda>c. if 65 \<le> (of_char c :: nat) \<and> (of_char c :: nat) \<le> 90
                         then char_of ((of_char c :: nat) + 32) else c) s
      in if low = ''nan'' then Some NotANumber
         else if low = ''inf'' \<or> low = ''infinity'' then Some PosInf
         else (case split_at CHR ''e'' low of
                 (m, None) \<Rightarrow> map_option Fin (read_decimal m)
               | (m, Some ex) \<Rightarrow>
                   (case (read_decimal m, read_signed (\<lambda>s. map_option int (read_nat s)) uminus ex) of
                      (Some x, Some k) \<Rightarrow>
                        Some (Fin (if 0 \<le> k then x * 10 ^ nat k else x / 10 ^ nat (- k)))
                    | _ \<Rightarrow> None)))"

fun negate_num :: "jsnum \<Rightarrow> jsnum" where
  "negate_num (Fin r) = Fin (- r)"
| "negate_num PosInf = NegInf"
| "negate_num NegInf = PosInf"
| "negate_num NotANumber = NotANumber"

definition float8_in :: "string \<Rightarrow> jsnum option" where
  "float8_in s = read_signed read_float negate_num (trim_blanks s)"

definition cast_float8 :: "json option \<Rightarrow> pg_error + jsnum option" where
  "cast_float8 j =
     (let checked = (\<lambda>x. case x of
                       Fin r \<Rightarrow> (case float8_check r of None \<Rightarrow> Inl out_of_range
                                                      | Some r' \<Rightarrow> Inr (Some (Fin r')))
                     | _ \<Rightarrow> Inr (Some x))
      in case j of
           None \<Rightarrow> Inr None
         | Some JNull \<Rightarrow> Inr None
         | Some (JNum r) \<Rightarrow> checked (Fin r)
         | Some (JStr s) \<Rightarrow> (case float8_in s of None \<Rightarrow> Inl invalid_text | Some x \<Rightarrow> checked x)
         | Some _ \<Rightarrow> Inl invalid_text)"

text \<open>\<open>jsonb_strip_nulls\<close>: object fields that are \<open>null\<close> go, at every depth; array elements stay.\<close>

fun strip_nulls :: "json \<Rightarrow> json" where
  "strip_nulls (JObj kvs) =
     JObj (map (\<lambda>(k, v). (k, strip_nulls v)) (filter (\<lambda>(k, v). v \<noteq> JNull) kvs))"
| "strip_nulls (JArr js) = JArr (map strip_nulls js)"
| "strip_nulls j = j"

end
