(* ===== verification/Dates.thy ===== *)
theory Dates
  imports Prelude
begin

text \<open>
  Dates as the SDK stores them: \<open>Date.prototype.toISOString\<close>, the parsing that \<open>new Date(text)\<close>
  does of such a text, and the proof that a stored instant reads back unchanged. The calendar is the
  proleptic Gregorian one of the language standard; an instant is in milliseconds for JavaScript
  and in microseconds for PostgreSQL.
\<close>

section \<open>Days and civil dates\<close>

text \<open>
  Years are counted from 1 March, so that the leap day is the last day of the year. A cycle of 400
  years has 146097 days, a century 36524, four years 1461.
\<close>

definition civil_of_days :: "int \<Rightarrow> int \<times> int \<times> int" where
  "civil_of_days z =
     (let z' = z + 719468;
          era = z' div 146097;  doe = z' mod 146097;
          cent = min (doe div 36524) 3;  doc = doe - cent * 36524;
          quad = doc div 1461;  doq = doc mod 1461;
          yr = min (doq div 365) 3;  doy = doq - yr * 365;
          mp = (5 * doy + 2) div 153;
          d = doy - (153 * mp + 2) div 5 + 1;
          m = (if mp < 10 then mp + 3 else mp - 9);
          y = 400 * era + 100 * cent + 4 * quad + yr + (if m \<le> 2 then 1 else 0)
      in (y, m, d))"

definition days_of_civil :: "int \<Rightarrow> int \<Rightarrow> int \<Rightarrow> int" where
  "days_of_civil y m d =
     (let y' = (if m \<le> 2 then y - 1 else y);
          era = y' div 400;  yoe = y' mod 400;
          mp = (if m > 2 then m - 3 else m + 9);
          doy = (153 * mp + 2) div 5 + d - 1;
          doe = yoe * 365 + yoe div 4 - yoe div 100 + doy
      in era * 146097 + doe - 719468)"

lemma year_parts:
  fixes era cent quad yr :: int
  assumes "0 \<le> cent" "cent \<le> 3" "0 \<le> quad" "quad \<le> 24" "0 \<le> yr" "yr \<le> 3"
  defines "yoe \<equiv> 100 * cent + 4 * quad + yr"
  shows "(400 * era + yoe) div 400 = era" "(400 * era + yoe) mod 400 = yoe"
    and "yoe * 365 + yoe div 4 - yoe div 100 = cent * 36524 + quad * 1461 + yr * 365"
proof -
  have y: "0 \<le> yoe" "yoe < 400" using assms by simp_all
  have "(400 * era + yoe) = yoe + era * 400" by simp
  then show "(400 * era + yoe) div 400 = era" "(400 * era + yoe) mod 400 = yoe"
    using y by simp_all
  have "yoe div 4 = 25 * cent + quad" "yoe div 100 = cent"
    using assms by (simp_all add: yoe_def)
  then show "yoe * 365 + yoe div 4 - yoe div 100 = cent * 36524 + quad * 1461 + yr * 365"
    by (simp add: yoe_def)
qed

lemma days_of_civil_of_days:
  "(case civil_of_days z of (y, m, d) \<Rightarrow> days_of_civil y m d) = z"
proof -
  define z' where "z' = z + 719468"
  define era where "era = z' div 146097"
  define doe where "doe = z' mod 146097"
  define cent where "cent = min (doe div 36524) 3"
  define doc where "doc = doe - cent * 36524"
  define quad where "quad = doc div 1461"
  define doq where "doq = doc mod 1461"
  define yr where "yr = min (doq div 365) 3"
  define doy where "doy = doq - yr * 365"
  define mp where "mp = (5 * doy + 2) div 153"
  define d where "d = doy - (153 * mp + 2) div 5 + 1"
  define m where "m = (if mp < 10 then mp + 3 else mp - 9)"
  define yoe where "yoe = 100 * cent + 4 * quad + yr"
  have doe: "0 \<le> doe" "doe < 146097" by (simp_all add: doe_def)
  have cent: "0 \<le> cent" "cent \<le> 3" using doe by (auto simp: cent_def)
  have doc: "0 \<le> doc" "doc \<le> 36524" using doe by (auto simp: doc_def cent_def min_def)
  have quad: "0 \<le> quad" "quad \<le> 24" using doc by (auto simp: quad_def)
  have doq: "0 \<le> doq" "doq \<le> 1460" by (auto simp: doq_def)
  have yr: "0 \<le> yr" "yr \<le> 3" using doq by (auto simp: yr_def)
  have doy: "0 \<le> doy" "doy \<le> 365" using doq by (auto simp: doy_def yr_def min_def)
  have mp: "0 \<le> mp" "mp \<le> 11" using doy by (auto simp: mp_def)
  have split: "doe = cent * 36524 + quad * 1461 + yr * 365 + doy"
    by (simp add: doc_def doy_def quad_def doq_def)
  have y': "(if m \<le> 2 then 400 * era + yoe + 1 - 1 else 400 * era + yoe) = 400 * era + yoe"
    by simp
  have mp': "(if m > 2 then m - 3 else m + 9) = mp" using mp by (auto simp: m_def)
  have doy': "(153 * mp + 2) div 5 + d - 1 = doy" by (simp add: d_def)
  have civ: "civil_of_days z = (400 * era + yoe + (if m \<le> 2 then 1 else 0), m, d)"
    unfolding civil_of_days_def Let_def
    by (simp only: z'_def [symmetric] era_def [symmetric] doe_def [symmetric] cent_def [symmetric]
        doc_def [symmetric] quad_def [symmetric] doq_def [symmetric] yr_def [symmetric]
        doy_def [symmetric] mp_def [symmetric] d_def [symmetric] m_def [symmetric] yoe_def add.assoc)
  have "days_of_civil (400 * era + yoe + (if m \<le> 2 then 1 else 0)) m d
    = era * 146097 + (cent * 36524 + quad * 1461 + yr * 365 + doy) - 719468"
    unfolding days_of_civil_def Let_def
    using year_parts(1,2) [OF cent quad yr, of era] year_parts(3) [OF cent quad yr] mp' doy'
    unfolding yoe_def [symmetric]
    by (simp split: if_splits)
  also have "\<dots> = era * 146097 + doe - 719468" by (simp only: split)
  also have "\<dots> = z" unfolding era_def doe_def z'_def by simp
  finally show ?thesis using civ by simp
qed


lemma month_day:
  fixes doy :: int
  defines "mp \<equiv> (5 * doy + 2) div 153"
  shows "0 \<le> doy - (153 * mp + 2) div 5" "doy - (153 * mp + 2) div 5 \<le> 30"
proof -
  define r where "r = (5 * doy + 2) mod 153"
  have r: "0 \<le> r" "r < 153" by (simp_all add: r_def)
  have "5 * doy + 2 = 153 * mp + r" by (simp add: mp_def r_def)
  then have "153 * mp + 2 = (4 - r) + doy * 5" by simp
  then have "(153 * mp + 2) div 5 = (4 - r) div 5 + doy" by (simp del: add_diff_eq)
  then show "0 \<le> doy - (153 * mp + 2) div 5" "doy - (153 * mp + 2) div 5 \<le> 30"
    using r by simp_all
qed

lemma civil_of_days_bounds:
  assumes "civil_of_days z = (y, m, d)"
  shows "1 \<le> m" "m \<le> 12" "1 \<le> d" "d \<le> 31"
    and "400 * ((z + 719468) div 146097) \<le> y" "y \<le> 400 * ((z + 719468) div 146097) + 400"
proof -
  define era where "era = (z + 719468) div 146097"
  define doe where "doe = (z + 719468) mod 146097"
  define cent where "cent = min (doe div 36524) 3"
  define doc where "doc = doe - cent * 36524"
  define quad where "quad = doc div 1461"
  define doq where "doq = doc mod 1461"
  define yr where "yr = min (doq div 365) 3"
  define doy where "doy = doq - yr * 365"
  define mp where "mp = (5 * doy + 2) div 153"
  have doe: "0 \<le> doe" "doe < 146097" by (simp_all add: doe_def)
  have cent: "0 \<le> cent" "cent \<le> 3" using doe by (auto simp: cent_def)
  have doc: "0 \<le> doc" "doc \<le> 36524" using doe by (auto simp: doc_def cent_def min_def)
  have quad: "0 \<le> quad" "quad \<le> 24" using doc by (auto simp: quad_def)
  have doq: "0 \<le> doq" "doq \<le> 1460" by (auto simp: doq_def)
  have yr: "0 \<le> yr" "yr \<le> 3" using doq by (auto simp: yr_def)
  have doy: "0 \<le> doy" "doy \<le> 365" using doq by (auto simp: doy_def yr_def min_def)
  have mp: "0 \<le> mp" "mp \<le> 11" using doy by (auto simp: mp_def)
  have day: "0 \<le> doy - (153 * mp + 2) div 5" "doy - (153 * mp + 2) div 5 \<le> 30"
    using month_day [of doy] by (simp_all add: mp_def)
  have m: "m = (if mp < 10 then mp + 3 else mp - 9)" and d: "d = doy - (153 * mp + 2) div 5 + 1"
    and y: "y = 400 * era + 100 * cent + 4 * quad + yr + (if m \<le> 2 then 1 else 0)"
    using assms unfolding civil_of_days_def Let_def
    by (simp_all only: era_def [symmetric] doe_def [symmetric] cent_def [symmetric]
        doc_def [symmetric] quad_def [symmetric] doq_def [symmetric] yr_def [symmetric]
        doy_def [symmetric] mp_def [symmetric] Pair_inject) auto
  show "1 \<le> m" "m \<le> 12" using mp by (auto simp: m)
  show "1 \<le> d" "d \<le> 31" using day by (auto simp: d)
  show "400 * ((z + 719468) div 146097) \<le> y" "y \<le> 400 * ((z + 719468) div 146097) + 400"
    unfolding era_def [symmetric] using cent quad yr y by (auto split: if_splits)
qed

section \<open>Fixed-width decimal fields\<close>

fun digits_w :: "nat \<Rightarrow> nat \<Rightarrow> string" where
  "digits_w 0 n = []"
| "digits_w (Suc w) n = digits_w w (n div 10) @ [digit_char (n mod 10)]"

lemma length_digits_w [simp]: "length (digits_w w n) = w"
  by (induction w arbitrary: n) auto

lemma dec_val_snoc: "dec_val (s @ [c]) = dec_val s * 10 + char_digit c"
  by (simp add: dec_val_def)

lemma dec_val_digits_w: "n < 10 ^ w \<Longrightarrow> dec_val (digits_w w n) = n"
proof (induction w arbitrary: n)
  case 0
  then show ?case by (simp add: dec_val_def)
next
  case (Suc w)
  from Suc.prems have "n div 10 < 10 ^ w" by (simp add: less_mult_imp_div_less mult.commute)
  with Suc.IH have "dec_val (digits_w w (n div 10)) = n div 10" by simp
  then show ?case by (simp add: dec_val_snoc)
qed

lemma digits_w_digits: "list_all is_digit (digits_w w n)"
  by (induction w arbitrary: n) (auto simp: is_digit_def of_char_digit_char)

text \<open>Reading a field of a fixed width: its value and the rest of the text.\<close>

definition read_field :: "nat \<Rightarrow> string \<Rightarrow> (int \<times> string) option" where
  "read_field w s =
     (if w \<le> length s \<and> list_all is_digit (take w s)
      then Some (int (dec_val (take w s)), drop w s) else None)"

definition read_char :: "char \<Rightarrow> string \<Rightarrow> string option" where
  "read_char c s = (case s of [] \<Rightarrow> None | x # xs \<Rightarrow> if x = c then Some xs else None)"

lemma read_field_digits_w:
  "n < 10 ^ w \<Longrightarrow> read_field w (digits_w w n @ s) = Some (int n, s)"
  by (simp add: read_field_def dec_val_digits_w digits_w_digits)

lemma read_char_Cons [simp]: "read_char c (c # s) = Some s"
  by (simp add: read_char_def)

section \<open>ISO texts\<close>

definition field :: "nat \<Rightarrow> int \<Rightarrow> string" where
  "field w n = digits_w w (nat n)"

lemma read_field_field:
  assumes "0 \<le> n" "n < 10 ^ w"
  shows "read_field w (field w n @ s) = Some (n, s)"
proof -
  have "nat n < 10 ^ w" using assms by (simp add: nat_less_iff)
  then have "read_field w (digits_w w (nat n) @ s) = Some (int (nat n), s)"
    by (rule read_field_digits_w)
  then show ?thesis using assms by (simp add: field_def)
qed

definition iso_year :: "int \<Rightarrow> string" where
  "iso_year y =
     (if 0 \<le> y \<and> y \<le> 9999 then field 4 y
      else if y < 0 then CHR ''-'' # field 6 (- y) else CHR ''+'' # field 6 y)"

definition max_time_ms :: int where
  "max_time_ms = 8640000000000000"

text \<open>
  \<open>Date.prototype.toISOString\<close>; \<open>None\<close> is the \<open>RangeError\<close> of an invalid date.
\<close>

definition to_iso_string :: "int \<Rightarrow> string option" where
  "to_iso_string ms =
     (if \<bar>ms\<bar> > max_time_ms then None else
      let t = ms mod 86400000; (y, m, d) = civil_of_days (ms div 86400000)
      in Some (iso_year y @ CHR ''-'' # field 2 m @ CHR ''-'' # field 2 d @ CHR ''T'' #
               field 2 (t div 3600000) @ CHR '':'' # field 2 (t div 60000 mod 60) @ CHR '':'' #
               field 2 (t div 1000 mod 60) @ CHR ''.'' # field 3 (t mod 1000) @ ''Z''))"

definition read_year :: "string \<Rightarrow> (int \<times> string) option" where
  "read_year s =
     (case s of
        [] \<Rightarrow> None
      | c # cs \<Rightarrow>
          if c = CHR ''+'' then read_field 6 cs
          else if c = CHR ''-'' then map_option (\<lambda>(y, r). (- y, r)) (read_field 6 cs)
          else read_field 4 s)"

text \<open>
  \<open>new Date(text).getTime()\<close> for the texts that \<open>toISOString\<close> writes; \<open>None\<close> is \<open>NaN\<close>, the value
  of an invalid date.
\<close>

definition date_parse :: "string \<Rightarrow> int option" where
  "date_parse s =
     Option.bind (read_year s) (\<lambda>(y, s).
     Option.bind (read_char CHR ''-'' s) (\<lambda>s.
     Option.bind (read_field 2 s) (\<lambda>(m, s).
     Option.bind (read_char CHR ''-'' s) (\<lambda>s.
     Option.bind (read_field 2 s) (\<lambda>(d, s).
     Option.bind (read_char CHR ''T'' s) (\<lambda>s.
     Option.bind (read_field 2 s) (\<lambda>(hh, s).
     Option.bind (read_char CHR '':'' s) (\<lambda>s.
     Option.bind (read_field 2 s) (\<lambda>(mi, s).
     Option.bind (read_char CHR '':'' s) (\<lambda>s.
     Option.bind (read_field 2 s) (\<lambda>(ss, s).
     Option.bind (read_char CHR ''.'' s) (\<lambda>s.
     Option.bind (read_field 3 s) (\<lambda>(ms, s).
       if s = ''Z'' \<and> 1 \<le> m \<and> m \<le> 12 \<and> 1 \<le> d \<and> d \<le> 31 \<and> hh \<le> 23 \<and> mi \<le> 59 \<and> ss \<le> 59
       then Some (((days_of_civil y m d * 24 + hh) * 60 + mi) * 60000 + ss * 1000 + ms)
       else None)))))))))))))"

lemma digit_not_sign:
  "is_digit c \<Longrightarrow> c \<noteq> CHR ''+'' \<and> c \<noteq> CHR ''-''"
  by (auto simp: is_digit_def)

lemma read_year_iso_year:
  assumes "- 999999 \<le> y" "y \<le> 999999"
  shows "read_year (iso_year y @ s) = Some (y, s)"
proof (cases "0 \<le> y \<and> y \<le> 9999")
  case True
  have "list_all is_digit (field 4 y)" "length (field 4 y) = 4"
    by (simp_all add: field_def digits_w_digits)
  then obtain c cs where c: "field 4 y = c # cs" "is_digit c"
    by (cases "field 4 y") auto
  have "read_field 4 (field 4 y @ s) = Some (y, s)"
    using True by (intro read_field_field) auto
  with True c digit_not_sign [OF c(2)] show ?thesis
    by (simp add: iso_year_def read_year_def)
next
  case False
  have "read_field 6 (field 6 \<bar>y\<bar> @ s) = Some (\<bar>y\<bar>, s)"
    using assms by (intro read_field_field) auto
  with False show ?thesis
    by (auto simp: iso_year_def read_year_def)
qed

lemma civil_year_range:
  assumes "civil_of_days z = (y, m, d)" "\<bar>z\<bar> \<le> 100000000"
  shows "- 999999 \<le> y" "y \<le> 999999"
proof -
  have "- 1000 \<le> (z + 719468) div 146097" "(z + 719468) div 146097 \<le> 1000"
    using assms(2) by auto
  with civil_of_days_bounds(5,6) [OF assms(1)] show "- 999999 \<le> y" "y \<le> 999999"
    by auto
qed

lemma time_parts:
  fixes t :: int
  shows "((days * 24 + t div 3600000) * 60 + t div 60000 mod 60) * 60000
    + t div 1000 mod 60 * 1000 + t mod 1000 = days * 86400000 + t"
proof -
  have 1: "t div 3600000 * 60 + t div 60000 mod 60 = t div 60000"
    using div_mult2_eq' [of t 60000 60] by simp
  have 2: "t div 60000 * 60 + t div 1000 mod 60 = t div 1000"
    using div_mult2_eq' [of t 1000 60] by simp
  have 3: "t div 1000 * 1000 + t mod 1000 = t" by simp
  have "((days * 24 + h) * 60 + mi) * 60000 + ss * 1000 + ml = days * 86400000 + t"
    if "h * 60 + mi = M" "M * 60 + ss = S" "S * 1000 + ml = t" for h mi M ss S ml
    unfolding that(3) [symmetric] that(2) [symmetric] that(1) [symmetric]
    by (simp add: algebra_simps)
  from this [OF 1 2 3] show ?thesis .
qed

lemma date_parse_text:
  assumes "- 999999 \<le> y" "y \<le> 999999" "1 \<le> m" "m \<le> 12" "1 \<le> d" "d \<le> 31"
    and "0 \<le> hh" "hh \<le> 23" "0 \<le> mi" "mi \<le> 59" "0 \<le> ss" "ss \<le> 59" "0 \<le> ml" "ml \<le> 999"
  shows "date_parse (iso_year y @ CHR ''-'' # field 2 m @ CHR ''-'' # field 2 d @ CHR ''T'' #
      field 2 hh @ CHR '':'' # field 2 mi @ CHR '':'' # field 2 ss @ CHR ''.'' # field 3 ml @ ''Z'')
    = Some (((days_of_civil y m d * 24 + hh) * 60 + mi) * 60000 + ss * 1000 + ml)"
  using assms unfolding date_parse_def by (simp add: read_year_iso_year read_field_field)

lemma date_parse_to_iso_string:
  assumes "to_iso_string ms = Some s"
  shows "date_parse s = Some ms"
proof -
  from assms have range: "\<bar>ms\<bar> \<le> max_time_ms" by (auto simp: to_iso_string_def split: if_splits)
  define t where "t = ms mod 86400000"
  obtain y m d where civ: "civil_of_days (ms div 86400000) = (y, m, d)"
    by (cases "civil_of_days (ms div 86400000)")
  have "\<bar>ms div 86400000\<bar> \<le> 100000000" using range unfolding max_time_ms_def by linarith
  note y = civil_year_range [OF civ this]
  note b = civil_of_days_bounds(1-4) [OF civ]
  have "0 \<le> t" "t < 86400000" by (simp_all add: t_def)
  then have f: "0 \<le> t div 3600000" "t div 3600000 \<le> 23" by simp_all
  have g: "0 \<le> t div 60000 mod 60" "t div 60000 mod 60 \<le> 59"
    "0 \<le> t div 1000 mod 60" "t div 1000 mod 60 \<le> 59" "0 \<le> t mod 1000" "t mod 1000 \<le> 999"
    by auto
  have "days_of_civil y m d = ms div 86400000"
    using days_of_civil_of_days [of "ms div 86400000"] civ by simp
  then have val: "((days_of_civil y m d * 24 + t div 3600000) * 60 + t div 60000 mod 60) * 60000
    + t div 1000 mod 60 * 1000 + t mod 1000 = ms"
    using time_parts [of "ms div 86400000" t] by (simp add: t_def)
  have s: "s = iso_year y @ CHR ''-'' # field 2 m @ CHR ''-'' # field 2 d @ CHR ''T'' #
    field 2 (t div 3600000) @ CHR '':'' # field 2 (t div 60000 mod 60) @ CHR '':'' #
    field 2 (t div 1000 mod 60) @ CHR ''.'' # field 3 (t mod 1000) @ ''Z''"
    using assms civ by (auto simp: to_iso_string_def t_def Let_def split: if_splits)
  show ?thesis
    unfolding s using date_parse_text [OF y b f g] val by (simp only:)
qed

end
