(* ===== verification/Store.thy ===== *)
theory Store
  imports Dates "HOL-Library.Product_Lexorder"
begin

text \<open>
  The queue store: the tables of one queue (\<open>t_\<close>, \<open>r_\<close>, \<open>c_\<close>, \<open>e_\<close>, \<open>w_\<close> and \<open>i_<queue>\<close> of
  \<open>sql/absurd.sql\<close>) and the stored functions that the SDKs call. Every function runs in one
  transaction: it returns the new tables, or raises and leaves them as they were, so row locks
  have no counterpart. \<open>now\<close> is the value of \<open>absurd.current_time()\<close> during the call.
\<close>

section \<open>Tables\<close>

type_synonym uuid = nat

text \<open>The six states of tasks and of runs (\<open>TaskResultState\<close> of the SDKs).\<close>

datatype task_state = Pending | Running | Sleeping | Completed | Failed | Cancelled

record task_row =
  t_id :: uuid
  t_name :: string
  t_params :: json
  t_headers :: "json option"
  t_retry_strategy :: "json option"
  t_max_attempts :: "int option"
  t_cancellation :: "json option"
  t_enqueue_at :: int
  t_first_started_at :: "int option"
  t_state :: task_state
  t_attempts :: int
  t_last_attempt_run :: "uuid option"
  t_completed_payload :: "json option"
  t_cancelled_at :: "int option"
  t_idempotency_key :: "string option"

record run_row =
  r_id :: uuid
  r_task :: uuid
  r_attempt :: int
  r_state :: task_state
  r_claimed_by :: "string option"
  r_claim_expires_at :: "int option"
  r_available_at :: tstamp
  r_wake_event :: "string option"
  r_event_payload :: "json option"
  r_started_at :: "int option"
  r_completed_at :: "int option"
  r_failed_at :: "int option"
  r_result :: "json option"
  r_failure_reason :: "json option"
  r_created_at :: int

record checkpoint_row =
  c_task :: uuid
  c_name :: string
  c_state :: "json option"
  c_status :: string
  c_owner_run :: "uuid option"
  c_updated_at :: int

record event_row =
  e_name :: string
  e_payload :: "json option"
  e_emitted_at :: int

record wait_row =
  w_task :: uuid
  w_run :: uuid
  w_step :: string
  w_event :: string
  w_timeout_at :: "int option"
  w_created_at :: int

datatype storage_mode = Unpartitioned | Partitioned

text \<open>
  \<open>uuids\<close> is the next value of \<open>portable_uuidv7()\<close>: a generator that never repeats and whose
  values order by the time of their creation.
\<close>

record qstate =
  q_mode :: storage_mode
  tasks :: "task_row list"
  runs :: "run_row list"
  checkpoints :: "checkpoint_row list"
  events :: "event_row list"
  waits :: "wait_row list"
  idempotency :: "(string \<times> uuid) list"
  uuids :: uuid

definition empty_queue :: "storage_mode \<Rightarrow> qstate" where
  "empty_queue mode = \<lparr>q_mode = mode, tasks = [], runs = [], checkpoints = [], events = [],
     waits = [], idempotency = [], uuids = 0\<rparr>"

definition find_task :: "uuid \<Rightarrow> qstate \<Rightarrow> task_row option" where
  "find_task i q = tbl_find (\<lambda>t. t_id t = i) (tasks q)"

definition find_run :: "uuid \<Rightarrow> qstate \<Rightarrow> run_row option" where
  "find_run i q = tbl_find (\<lambda>r. r_id r = i) (runs q)"

definition find_checkpoint :: "uuid \<Rightarrow> string \<Rightarrow> qstate \<Rightarrow> checkpoint_row option" where
  "find_checkpoint i n q = tbl_find (\<lambda>c. (c_task c, c_name c) = (i, n)) (checkpoints q)"

definition find_event :: "string \<Rightarrow> qstate \<Rightarrow> event_row option" where
  "find_event n q = tbl_find (\<lambda>e. e_name e = n) (events q)"

definition terminal :: "task_state \<Rightarrow> bool" where
  "terminal s \<longleftrightarrow> s = Completed \<or> s = Failed \<or> s = Cancelled"

definition active :: "task_state \<Rightarrow> bool" where
  "active s \<longleftrightarrow> s = Pending \<or> s = Running \<or> s = Sleeping"

lemma active_iff: "active s \<longleftrightarrow> \<not> terminal s"
  by (cases s) (auto simp: active_def terminal_def)

definition update_runs :: "(run_row \<Rightarrow> bool) \<Rightarrow> (run_row \<Rightarrow> run_row) \<Rightarrow> qstate \<Rightarrow> qstate" where
  "update_runs P f q = q\<lparr>runs := tbl_update P f (runs q)\<rparr>"

definition update_tasks :: "(task_row \<Rightarrow> bool) \<Rightarrow> (task_row \<Rightarrow> task_row) \<Rightarrow> qstate \<Rightarrow> qstate" where
  "update_tasks P f q = q\<lparr>tasks := tbl_update P f (tasks q)\<rparr>"

definition delete_waits :: "(wait_row \<Rightarrow> bool) \<Rightarrow> qstate \<Rightarrow> qstate" where
  "delete_waits P q = q\<lparr>waits := tbl_delete P (waits q)\<rparr>"

definition upsert_checkpoint :: "checkpoint_row \<Rightarrow> qstate \<Rightarrow> qstate" where
  "upsert_checkpoint c q =
     q\<lparr>checkpoints := tbl_upsert (\<lambda>x. (c_task x, c_name x) = (c_task c, c_name c))
        (\<lambda>x. x\<lparr>c_state := c_state c, c_status := c_status c, c_owner_run := c_owner_run c,
               c_updated_at := c_updated_at c\<rparr>) c (checkpoints q)\<rparr>"

definition new_run :: "uuid \<Rightarrow> uuid \<Rightarrow> int \<Rightarrow> task_state \<Rightarrow> int \<Rightarrow> int \<Rightarrow> run_row" where
  "new_run run_id task_id attempt state available_at now =
     \<lparr>r_id = run_id, r_task = task_id, r_attempt = attempt, r_state = state, r_claimed_by = None,
      r_claim_expires_at = None, r_available_at = At available_at, r_wake_event = None,
      r_event_payload = None, r_started_at = None, r_completed_at = None, r_failed_at = None,
      r_result = None, r_failure_reason = None, r_created_at = now\<rparr>"

section \<open>Retry delays\<close>

text \<open>
  \<open>absurd.retry_delay_seconds\<close>: seconds until the attempt after \<open>attempt\<close>. \<open>x not between 0 and
  86400\<close> holds of the non-finite values too, which order above every number or below.
\<close>

definition retry_limit :: rat where
  "retry_limit = 86400"

definition within_limit :: "jsnum \<Rightarrow> rat option" where
  "within_limit x = (case x of Fin r \<Rightarrow> if 0 \<le> r \<and> r \<le> retry_limit then Some r else None | _ \<Rightarrow> None)"

text \<open>\<open>v_base * power(v_factor, v_exponent)\<close>, \<open>None\<close> when it leaves the range of the type.\<close>

definition exponential_delay :: "rat \<Rightarrow> rat \<Rightarrow> nat \<Rightarrow> rat option" where
  "exponential_delay base factor n =
     Option.bind (float8_check (factor ^ n)) (\<lambda>p. float8_check (base * p))"

definition invalid_number :: "pg_error + 'a \<Rightarrow> pg_error + 'a" where
  "invalid_number r =
     (case r of
        Inl e \<Rightarrow> Inl (if e = invalid_text \<or> e = out_of_range
                      then invalid_retry ''retry_strategy contains an invalid number'' else e)
      | Inr x \<Rightarrow> Inr x)"

text \<open>\<open>coalesce(p_retry_strategy->>'kind', 'none')\<close>, \<open>None\<close> for a kind that is not text.\<close>

definition strategy_kind :: "(string \<times> json) list \<Rightarrow> string option" where
  "strategy_kind kvs =
     (case map_of kvs ''kind'' of
        None \<Rightarrow> Some ''none''
      | Some JNull \<Rightarrow> Some ''none''
      | Some (JStr k) \<Rightarrow> Some k
      | Some _ \<Rightarrow> None)"

text \<open>The exponential branch, with the \<open>factor\<close> and \<open>max_seconds\<close> that were read.\<close>

definition exponential_seconds :: "rat \<Rightarrow> nat \<Rightarrow> jsnum option \<Rightarrow> jsnum option \<Rightarrow> pg_error + rat" where
  "exponential_seconds base exponent f m =
     (case (case f of None \<Rightarrow> Fin 2 | Some x \<Rightarrow> x) of
        Fin factor \<Rightarrow>
          if factor < 0
          then Inl (invalid_retry ''retry_strategy.factor must be a finite non-negative number'')
          else (case within_limit (case m of None \<Rightarrow> Fin retry_limit | Some x \<Rightarrow> x) of
            None \<Rightarrow> Inl (invalid_retry ''retry_strategy.max_seconds must be between 0 and 86400'')
          | Some max_seconds \<Rightarrow>
              if base = 0 then Inr 0
              else (case exponential_delay base factor exponent of
                      Some d \<Rightarrow> Inr (min d max_seconds)
                    | None \<Rightarrow> Inr (if factor < 1 then 0 else max_seconds)))
      | _ \<Rightarrow> Inl (invalid_retry ''retry_strategy.factor must be a finite non-negative number''))"

definition retry_delay_seconds :: "json option \<Rightarrow> int \<Rightarrow> pg_error + rat" where
  "retry_delay_seconds strategy attempt =
     (case strategy of
        None \<Rightarrow> Inr 0
      | Some (JObj kvs) \<Rightarrow>
          (let kind = strategy_kind kvs
           in if kind \<noteq> Some ''none'' \<and> kind \<noteq> Some ''fixed'' \<and> kind \<noteq> Some ''exponential''
              then Inl (invalid_retry ''Unsupported retry strategy kind'')
              else if kind = Some ''none'' then Inr 0
              else bind_result (invalid_number (cast_float8 (map_of kvs ''base_seconds''))) (\<lambda>b.
                case within_limit (case b of Some x \<Rightarrow> x
                                   | None \<Rightarrow> if kind = Some ''fixed'' then Fin 60 else Fin 30) of
                  None \<Rightarrow> Inl (invalid_retry ''retry_strategy.base_seconds must be between 0 and 86400'')
                | Some base \<Rightarrow>
                    if kind = Some ''fixed'' then Inr base
                    else bind_result (invalid_number (cast_float8 (map_of kvs ''factor''))) (\<lambda>f.
                         bind_result (invalid_number (cast_float8 (map_of kvs ''max_seconds'')))
                           (exponential_seconds base (nat (max (attempt - 1) 0)) f))))
      | Some _ \<Rightarrow> Inl (invalid_retry ''retry_strategy must be a JSON object''))"

section \<open>Spawning tasks\<close>

record spawn_row =
  s_task :: uuid
  s_run :: "uuid option"
  s_attempt :: int
  s_created :: bool

record spawn_columns =
  sc_headers :: "json option"
  sc_retry_strategy :: "json option"
  sc_max_attempts :: "int option"
  sc_cancellation :: "json option"
  sc_idempotency_key :: "string option"

text \<open>\<open>p_options->>'key'\<close> of a text value; other JSON values are outside the SDKs' use.\<close>

fun json_text :: "json option \<Rightarrow> string option" where
  "json_text (Some (JStr s)) = Some s"
| "json_text (Some (JBool b)) = Some (if b then ''true'' else ''false'')"
| "json_text _ = None"

definition read_spawn_options :: "json option \<Rightarrow> pg_error + spawn_columns" where
  "read_spawn_options options =
     (case options of
        None \<Rightarrow> Inr \<lparr>sc_headers = None, sc_retry_strategy = None, sc_max_attempts = None,
                      sc_cancellation = None, sc_idempotency_key = None\<rparr>
      | Some p \<Rightarrow>
          bind_result (retry_delay_seconds (json_get ''retry_strategy'' p) 1) (\<lambda>_.
          bind_result (if json_has_key ''max_attempts'' p then cast_int4 (json_get ''max_attempts'' p)
                       else Inr None) (\<lambda>max_attempts.
            if max_attempts \<noteq> None \<and> the max_attempts < 1
            then Inl (raise_exception ''max_attempts must be >= 1'')
            else Inr \<lparr>sc_headers = json_get ''headers'' p,
                       sc_retry_strategy = json_get ''retry_strategy'' p,
                       sc_max_attempts = max_attempts,
                       sc_cancellation = json_get ''cancellation'' p,
                       sc_idempotency_key = json_text (json_get ''idempotency_key'' p)\<rparr>)))"

definition insert_task :: "int \<Rightarrow> uuid \<Rightarrow> uuid \<Rightarrow> string \<Rightarrow> json \<Rightarrow> spawn_columns \<Rightarrow> qstate \<Rightarrow> qstate" where
  "insert_task now task_id run_id name params cols q =
     q\<lparr>tasks := tasks q @
          [\<lparr>t_id = task_id, t_name = name, t_params = params, t_headers = sc_headers cols,
            t_retry_strategy = sc_retry_strategy cols, t_max_attempts = sc_max_attempts cols,
            t_cancellation = sc_cancellation cols, t_enqueue_at = now, t_first_started_at = None,
            t_state = Pending, t_attempts = 1, t_last_attempt_run = Some run_id,
            t_completed_payload = None, t_cancelled_at = None,
            t_idempotency_key = sc_idempotency_key cols\<rparr>],
        runs := runs q @ [new_run run_id task_id 1 Pending now now]\<rparr>"

definition spawn_task ::
    "int \<Rightarrow> string \<Rightarrow> json option \<Rightarrow> json option \<Rightarrow> qstate \<Rightarrow> pg_error + spawn_row \<times> qstate" where
  "spawn_task now name params options q0 =
     (let task_id = uuids q0; run_id = Suc (uuids q0);
          q = q0\<lparr>uuids := Suc (Suc (uuids q0))\<rparr>;
          payload = (case params of None \<Rightarrow> JNull | Some j \<Rightarrow> j);
          created = \<lparr>s_task = task_id, s_run = Some run_id, s_attempt = 1, s_created = True\<rparr>
      in if is_blank name then Inl (raise_exception ''task_name must be provided'')
         else bind_result (read_spawn_options options) (\<lambda>cols.
           case sc_idempotency_key cols of
             None \<Rightarrow> Inr (created, insert_task now task_id run_id name payload cols q)
           | Some key \<Rightarrow>
               (case q_mode q of
                  Partitioned \<Rightarrow>
                    (case map_of (idempotency q) key of
                       None \<Rightarrow> Inr (created, insert_task now task_id run_id name payload cols
                                  (q\<lparr>idempotency := idempotency q @ [(key, task_id)]\<rparr>))
                     | Some existing \<Rightarrow>
                         (case find_task existing q of
                            None \<Rightarrow> Inl (PgError ''40001'' ''Idempotency key was concurrently cleaned up'')
                          | Some t \<Rightarrow>
                              if t_last_attempt_run t = None
                              then Inl (raise_exception ''Idempotency key resolved to task without a run'')
                              else Inr (\<lparr>s_task = t_id t, s_run = t_last_attempt_run t,
                                         s_attempt = t_attempts t, s_created = False\<rparr>, q)))
                | Unpartitioned \<Rightarrow>
                    (case tbl_find (\<lambda>t. t_idempotency_key t = Some key) (tasks q) of
                       None \<Rightarrow> Inr (created, insert_task now task_id run_id name payload cols q)
                     | Some t \<Rightarrow> Inr (\<lparr>s_task = t_id t, s_run = t_last_attempt_run t,
                                       s_attempt = t_attempts t, s_created = False\<rparr>, q)))))"

section \<open>Ending, suspending and failing runs\<close>

definition complete_run :: "int \<Rightarrow> uuid \<Rightarrow> json option \<Rightarrow> qstate \<Rightarrow> pg_error + qstate" where
  "complete_run now run_id payload q =
     (case find_run run_id q of
        None \<Rightarrow> Inl (raise_exception ''Run not found in queue'')
      | Some r \<Rightarrow>
          if r_state r \<noteq> Running
          then if r_state r = Cancelled then Inl task_cancelled
               else if r_state r = Failed then Inl run_already_failed
               else Inl (raise_exception ''Run is not currently running'')
          else Inr (delete_waits (\<lambda>w. w_run w = run_id)
                 (update_tasks (\<lambda>t. t_id t = r_task r)
                    (\<lambda>t. t\<lparr>t_state := Completed, t_completed_payload := payload,
                           t_last_attempt_run := Some run_id\<rparr>)
                 (update_runs (\<lambda>x. r_id x = run_id)
                    (\<lambda>x. x\<lparr>r_state := Completed, r_completed_at := Some now, r_result := payload\<rparr>) q))))"

definition schedule_run :: "uuid \<Rightarrow> int \<Rightarrow> qstate \<Rightarrow> pg_error + qstate" where
  "schedule_run run_id wake_at q =
     (case tbl_find (\<lambda>r. r_id r = run_id \<and> r_state r = Running) (runs q) of
        None \<Rightarrow> Inl (raise_exception ''Run is not currently running'')
      | Some r \<Rightarrow>
          Inr (update_tasks (\<lambda>t. t_id t = r_task r) (\<lambda>t. t\<lparr>t_state := Sleeping\<rparr>)
                (update_runs (\<lambda>x. r_id x = run_id)
                   (\<lambda>x. x\<lparr>r_state := Sleeping, r_claimed_by := None, r_claim_expires_at := None,
                          r_available_at := At wake_at, r_wake_event := None\<rparr>) q)))"

text \<open>
  What \<open>fail_run\<close> decides after marking the run failed: the next attempt's start, if the attempts
  allow one and the strategy is valid (\<open>v_next_available\<close>), and whether that start would be past the
  task's \<open>max_duration\<close> (\<open>v_task_cancel\<close>).
\<close>

definition next_available :: "int \<Rightarrow> json option \<Rightarrow> int \<Rightarrow> int option \<Rightarrow> pg_error + int option" where
  "next_available now strategy attempt retry_at =
     bind_result
       (case retry_at of
          Some t \<Rightarrow> Inr (Some t)
        | None \<Rightarrow> (case retry_delay_seconds strategy attempt of
                     Inr d \<Rightarrow> Inr (Some (now + interval_secs d))
                   | Inl e \<Rightarrow> if err_code e = ''AB003'' then Inr None else Inl e))
       (\<lambda>t. Inr (map_option (max now) t))"

definition past_max_duration :: "json option \<Rightarrow> int option \<Rightarrow> int option \<Rightarrow> pg_error + bool" where
  "past_max_duration cancellation first_started next =
     (case cancellation of
        None \<Rightarrow> Inr False
      | Some c \<Rightarrow>
          bind_result (cast_bigint (json_get ''max_duration'' c)) (\<lambda>d.
            Inr (case (d, first_started, next) of
                   (Some d, Some f, Some n) \<Rightarrow> n - f \<ge> d * second
                 | _ \<Rightarrow> False)))"

definition may_retry :: "int option \<Rightarrow> int \<Rightarrow> bool" where
  "may_retry max_attempts attempt = (case max_attempts of None \<Rightarrow> True | Some m \<Rightarrow> attempt + 1 \<le> m)"

datatype fail_outcome = Retry_at int | Give_up | Cancel_task

definition fail_decision :: "int \<Rightarrow> task_row option \<Rightarrow> run_row \<Rightarrow> int option \<Rightarrow> pg_error + fail_outcome" where
  "fail_decision now task r retry_at =
     (if \<not> may_retry (Option.bind task t_max_attempts) (r_attempt r) then Inr Give_up
      else bind_result (next_available now (Option.bind task t_retry_strategy) (r_attempt r) retry_at) (\<lambda>next.
           bind_result (past_max_duration (Option.bind task t_cancellation)
                          (Option.bind task t_first_started_at) next) (\<lambda>cancel.
             Inr (if cancel then Cancel_task
                  else case next of None \<Rightarrow> Give_up | Some t \<Rightarrow> Retry_at t))))"

definition mark_run_failed :: "int \<Rightarrow> uuid \<Rightarrow> json option \<Rightarrow> qstate \<Rightarrow> qstate" where
  "mark_run_failed now run_id reason =
     update_runs (\<lambda>x. r_id x = run_id)
       (\<lambda>x. x\<lparr>r_state := Failed, r_wake_event := None, r_failed_at := Some now,
              r_failure_reason := reason\<rparr>)"

definition settle_task ::
    "uuid \<Rightarrow> task_state \<Rightarrow> int \<Rightarrow> uuid \<Rightarrow> int option \<Rightarrow> qstate \<Rightarrow> qstate" where
  "settle_task task_id state attempts last_run cancelled_at =
     update_tasks (\<lambda>t. t_id t = task_id)
       (\<lambda>t. t\<lparr>t_state := state, t_attempts := max (t_attempts t) attempts,
              t_last_attempt_run := Some last_run,
              t_cancelled_at := (case t_cancelled_at t of None \<Rightarrow> cancelled_at | c \<Rightarrow> c)\<rparr>)"

definition apply_fail_outcome :: "int \<Rightarrow> run_row \<Rightarrow> fail_outcome \<Rightarrow> qstate \<Rightarrow> qstate" where
  "apply_fail_outcome now r outcome q =
     (case outcome of
        Give_up \<Rightarrow> settle_task (r_task r) Failed (r_attempt r) (r_id r) None q
      | Cancel_task \<Rightarrow> settle_task (r_task r) Cancelled (r_attempt r) (r_id r) (Some now) q
      | Retry_at t \<Rightarrow>
          (let state = (if t > now then Sleeping else Pending); run_id = uuids q
           in settle_task (r_task r) state (r_attempt r + 1) run_id None
                (q\<lparr>runs := runs q @ [new_run run_id (r_task r) (r_attempt r + 1) state t now],
                   uuids := Suc run_id\<rparr>)))"

definition fail_run :: "int \<Rightarrow> uuid \<Rightarrow> json option \<Rightarrow> int option \<Rightarrow> qstate \<Rightarrow> pg_error + qstate" where
  "fail_run now run_id reason retry_at q =
     (case find_run run_id q of
        None \<Rightarrow> Inl (raise_exception ''Run cannot be failed'')
      | Some r \<Rightarrow>
          if r_state r = Cancelled then Inl task_cancelled
          else if r_state r = Failed then Inl run_already_failed
          else if r_state r \<noteq> Running \<and> r_state r \<noteq> Sleeping
          then Inl (raise_exception ''Run cannot be failed'')
          else bind_result (fail_decision now (find_task (r_task r) q) r retry_at) (\<lambda>outcome.
                 Inr (delete_waits (\<lambda>w. w_run w = run_id)
                       (apply_fail_outcome now r outcome (mark_run_failed now run_id reason q)))))"

section \<open>Cancelling and retrying tasks\<close>

definition cancel_task :: "int \<Rightarrow> uuid \<Rightarrow> qstate \<Rightarrow> pg_error + qstate" where
  "cancel_task now task_id q =
     (case find_task task_id q of
        None \<Rightarrow> Inl (raise_exception ''Task not found in queue'')
      | Some t \<Rightarrow>
          if terminal (t_state t) then Inr q
          else Inr (delete_waits (\<lambda>w. w_task w = task_id)
                 (update_runs (\<lambda>r. r_task r = task_id \<and> \<not> terminal (r_state r))
                    (\<lambda>r. r\<lparr>r_state := Cancelled, r_claimed_by := None, r_claim_expires_at := None\<rparr>)
                 (update_tasks (\<lambda>t. t_id t = task_id)
                    (\<lambda>t. t\<lparr>t_state := Cancelled,
                           t_cancelled_at := (case t_cancelled_at t of None \<Rightarrow> Some now | c \<Rightarrow> c)\<rparr>) q))))"

text \<open>The options of \<open>retry_task\<close>, as the SDK writes them: \<open>spawn_new\<close> is a JSON boolean.\<close>

definition read_retry_options :: "json option \<Rightarrow> pg_error + bool \<times> int option" where
  "read_retry_options options =
     (case options of
        None \<Rightarrow> Inr (False, None)
      | Some p \<Rightarrow>
          bind_result
            (case json_get ''spawn_new'' p of
               None \<Rightarrow> Inr False | Some JNull \<Rightarrow> Inr False | Some (JBool b) \<Rightarrow> Inr b
             | Some _ \<Rightarrow> Inl invalid_text) (\<lambda>spawn_new.
          bind_result (if json_has_key ''max_attempts'' p then cast_int4 (json_get ''max_attempts'' p)
                       else Inr None) (\<lambda>max_attempts.
            if max_attempts \<noteq> None \<and> the max_attempts < 1
            then Inl (raise_exception ''max_attempts must be >= 1'')
            else Inr (spawn_new, max_attempts))))"

definition respawn_options :: "task_row \<Rightarrow> int option \<Rightarrow> json" where
  "respawn_options t requested =
     (let or_null = (\<lambda>j. case j of None \<Rightarrow> JNull | Some v \<Rightarrow> v);
          max_attempts = (case requested of None \<Rightarrow> t_max_attempts t | Some n \<Rightarrow> Some n)
      in strip_nulls (JObj
           [(''headers'', or_null (t_headers t)),
            (''retry_strategy'', or_null (t_retry_strategy t)),
            (''max_attempts'', or_null (map_option (\<lambda>n. JNum (of_int n)) max_attempts)),
            (''cancellation'', or_null (t_cancellation t))]))"

definition retry_task :: "int \<Rightarrow> uuid \<Rightarrow> json option \<Rightarrow> qstate \<Rightarrow> pg_error + spawn_row \<times> qstate" where
  "retry_task now task_id options q =
     bind_result (read_retry_options options) (\<lambda>(spawn_new, requested).
       case find_task task_id q of
         None \<Rightarrow> Inl (raise_exception ''Task not found in queue'')
       | Some t \<Rightarrow>
           if t_state t \<noteq> Failed then Inl (raise_exception ''Task is not currently failed'')
           else if spawn_new
           then spawn_task now (t_name t) (Some (t_params t)) (Some (respawn_options t requested)) q
           else
             (let max_attempts = (case requested of
                      Some n \<Rightarrow> n
                    | None \<Rightarrow> (case t_max_attempts t of Some n \<Rightarrow> n | None \<Rightarrow> t_attempts t) + 1);
                  run_id = uuids q; attempt = t_attempts t + 1
              in if max_attempts \<le> t_attempts t
                 then Inl (raise_exception ''max_attempts must be greater than current attempts'')
                 else Inr (\<lparr>s_task = task_id, s_run = Some run_id, s_attempt = attempt, s_created = False\<rparr>,
                   update_tasks (\<lambda>t. t_id t = task_id)
                     (\<lambda>t. t\<lparr>t_state := Pending, t_attempts := max (t_attempts t) attempt,
                            t_max_attempts := Some max_attempts, t_last_attempt_run := Some run_id,
                            t_cancelled_at := None\<rparr>)
                   (q\<lparr>runs := runs q @ [new_run run_id task_id attempt Pending now now],
                      uuids := Suc run_id\<rparr>))))"

section \<open>Claiming\<close>

record claimed_task =
  ct_run_id :: uuid
  ct_task_id :: uuid
  ct_task_name :: string
  ct_attempt :: int
  ct_params :: json
  ct_retry_strategy :: "json option"
  ct_max_attempts :: "int option"
  ct_headers :: "json option"
  ct_wake_event :: "string option"
  ct_event_payload :: "json option"

text \<open>
  The cancellation rules that a claim applies first: a task that has not started within its
  \<open>max_delay\<close>, or has been going for its \<open>max_duration\<close>. The casts of the policy's numbers can
  raise, which aborts the claim.
\<close>

definition cancellation_due :: "int \<Rightarrow> task_row \<Rightarrow> pg_error + bool" where
  "cancellation_due now t =
     (let field = (\<lambda>k. cast_bigint (Option.bind (t_cancellation t) (json_get k)))
      in bind_result (field ''max_delay'') (\<lambda>delay.
           if delay \<noteq> None \<and> t_first_started_at t = None \<and> now - t_enqueue_at t \<ge> the delay * second
           then Inr True
           else bind_result (field ''max_duration'') (\<lambda>duration.
             Inr (duration \<noteq> None \<and> t_first_started_at t \<noteq> None \<and>
                  now - the (t_first_started_at t) \<ge> the duration * second))))"

fun filter_result :: "('a \<Rightarrow> 'e + bool) \<Rightarrow> 'a list \<Rightarrow> 'e + 'a list" where
  "filter_result f [] = Inr []"
| "filter_result f (x # xs) =
     bind_result (f x) (\<lambda>b. bind_result (filter_result f xs) (\<lambda>ys. Inr (if b then x # ys else ys)))"

fun fold_result :: "('a \<Rightarrow> 's \<Rightarrow> 'e + 's) \<Rightarrow> 'a list \<Rightarrow> 's \<Rightarrow> 'e + 's" where
  "fold_result f [] s = Inr s"
| "fold_result f (x # xs) s = bind_result (f x s) (fold_result f xs)"

definition apply_cancellations :: "int \<Rightarrow> qstate \<Rightarrow> pg_error + qstate" where
  "apply_cancellations now q =
     bind_result (filter_result (cancellation_due now) (filter (\<lambda>t. active (t_state t)) (tasks q)))
       (\<lambda>due. fold_result (cancel_task now) (sort (map t_id due)) q)"

text \<open>The failure reason of an expired lease; a \<open>timestamptz\<close> is rendered in the session's UTC.\<close>

definition pg_timestamp_text :: "int \<Rightarrow> string" where
  "pg_timestamp_text us =
     (let t = us mod 86400000000; (y, m, d) = civil_of_days (us div 86400000000);
          frac = rev (dropWhile (\<lambda>c. c = CHR ''0'') (rev (field 6 (t mod 1000000))))
      in field 4 y @ CHR ''-'' # field 2 m @ CHR ''-'' # field 2 d @ CHR ''T'' #
         field 2 (t div 3600000000) @ CHR '':'' # field 2 (t div 60000000 mod 60) @ CHR '':'' #
         field 2 (t div 1000000 mod 60) @ (if frac = [] then [] else CHR ''.'' # frac) @ ''+00:00'')"

definition claim_timeout_reason :: "run_row \<Rightarrow> json" where
  "claim_timeout_reason r =
     strip_nulls (JObj
       [(''name'', JStr ''$ClaimTimeout''),
        (''message'', JStr ''worker did not finish task within claim interval''),
        (''workerId'', case r_claimed_by r of None \<Rightarrow> JNull | Some w \<Rightarrow> JStr w),
        (''claimExpiredAt'', case r_claim_expires_at r of None \<Rightarrow> JNull
                             | Some t \<Rightarrow> JStr (pg_timestamp_text t)),
        (''attempt'', JNum (of_int (r_attempt r)))])"

definition expired_runs :: "int \<Rightarrow> qstate \<Rightarrow> run_row list" where
  "expired_runs now q =
     sort_key (\<lambda>r. (the (r_claim_expires_at r), r_id r))
       (filter (\<lambda>r. r_state r = Running \<and> r_claim_expires_at r \<noteq> None \<and> the (r_claim_expires_at r) \<le> now)
          (runs q))"

definition sweep_expired :: "int \<Rightarrow> nat \<Rightarrow> qstate \<Rightarrow> pg_error + qstate" where
  "sweep_expired now limit q =
     fold_result (\<lambda>r. fail_run now (r_id r) (Some (claim_timeout_reason r)) None)
       (take limit (expired_runs now q)) q"

definition claimable :: "int \<Rightarrow> qstate \<Rightarrow> run_row \<Rightarrow> bool" where
  "claimable now q r \<longleftrightarrow>
     (r_state r = Pending \<or> r_state r = Sleeping) \<and> r_available_at r \<le> At now \<and>
     (case find_task (r_task r) q of None \<Rightarrow> False | Some t \<Rightarrow> active (t_state t))"

definition candidates :: "int \<Rightarrow> nat \<Rightarrow> qstate \<Rightarrow> run_row list" where
  "candidates now qty q =
     take qty (sort_key (\<lambda>r. (r_available_at r, r_id r)) (filter (claimable now q) (runs q)))"

definition claimed_row :: "qstate \<Rightarrow> run_row \<Rightarrow> claimed_task" where
  "claimed_row q r =
     (let t = the (find_task (r_task r) q)
      in \<lparr>ct_run_id = r_id r, ct_task_id = r_task r, ct_task_name = t_name t, ct_attempt = r_attempt r,
          ct_params = t_params t, ct_retry_strategy = t_retry_strategy t,
          ct_max_attempts = t_max_attempts t, ct_headers = t_headers t,
          ct_wake_event = r_wake_event r, ct_event_payload = r_event_payload r\<rparr>)"

definition take_runs :: "int \<Rightarrow> string \<Rightarrow> int option \<Rightarrow> run_row list \<Rightarrow> qstate \<Rightarrow> qstate" where
  "take_runs now worker claim_until cs q =
     delete_waits (\<lambda>w. w_run w \<in> r_id ` set cs \<and> w_timeout_at w \<noteq> None \<and> the (w_timeout_at w) \<le> now)
    (update_tasks (\<lambda>t. t_id t \<in> r_task ` set cs)
       (\<lambda>t. let u = the (tbl_find (\<lambda>r. r_task r = t_id t) cs)
            in t\<lparr>t_state := Running, t_attempts := max (t_attempts t) (r_attempt u),
                 t_first_started_at := (case t_first_started_at t of None \<Rightarrow> Some now | s \<Rightarrow> s),
                 t_last_attempt_run := Some (r_id u)\<rparr>)
    (update_runs (\<lambda>r. r_id r \<in> r_id ` set cs)
       (\<lambda>r. r\<lparr>r_state := Running, r_claimed_by := Some worker, r_claim_expires_at := claim_until,
              r_started_at := Some now, r_available_at := At now\<rparr>) q))"

definition claim_task ::
    "int \<Rightarrow> string \<Rightarrow> int \<Rightarrow> int \<Rightarrow> qstate \<Rightarrow> pg_error + claimed_task list \<times> qstate" where
  "claim_task now worker claim_timeout qty q =
     (let timeout = max claim_timeout 0;
          worker_id = (if worker = [] then ''worker'' else worker);
          n = nat (max qty 1);
          claim_until = (if timeout > 0 then Some (now + timeout * second) else None)
      in bind_result (apply_cancellations now q) (\<lambda>q1.
         bind_result (sweep_expired now n q1) (\<lambda>q2.
           let cs = candidates now n q2
           in Inr (map (claimed_row q2) cs, take_runs now worker_id claim_until cs q2))))"

section \<open>Leases and checkpoints\<close>

definition set_task_checkpoint_state ::
    "int \<Rightarrow> uuid \<Rightarrow> string \<Rightarrow> json option \<Rightarrow> uuid \<Rightarrow> int option \<Rightarrow> qstate \<Rightarrow> pg_error + qstate" where
  "set_task_checkpoint_state now task_id step state owner extend_by q =
     (if is_blank step then Inl (raise_exception ''step_name must be provided'')
      else case find_run owner q of
        None \<Rightarrow> Inl (raise_exception ''Run not found for checkpoint'')
      | Some r \<Rightarrow>
         (case find_task (r_task r) q of
            None \<Rightarrow> Inl (raise_exception ''Run not found for checkpoint'')
          | Some t \<Rightarrow>
              if t_state t = Cancelled then Inl task_cancelled
              else if r_state r = Failed then Inl run_already_failed
              else
               (let q1 = (if extend_by \<noteq> None \<and> the extend_by > 0
                          then update_runs (\<lambda>x. r_id x = owner \<and> r_state x = Running \<and>
                                                r_claim_expires_at x \<noteq> None)
                                 (\<lambda>x. x\<lparr>r_claim_expires_at := Some (now + the extend_by * second)\<rparr>) q
                          else q);
                    existing_attempt =
                      Option.bind (find_checkpoint task_id step q) (\<lambda>c.
                      Option.bind (c_owner_run c) (\<lambda>i. map_option r_attempt (find_run i q)))
                in Inr (if existing_attempt = None \<or> r_attempt r \<ge> the existing_attempt
                        then upsert_checkpoint \<lparr>c_task = task_id, c_name = step, c_state = state,
                               c_status = ''committed'', c_owner_run = Some owner,
                               c_updated_at = now\<rparr> q1
                        else q1))))"

definition extend_claim :: "int \<Rightarrow> uuid \<Rightarrow> int \<Rightarrow> qstate \<Rightarrow> pg_error + qstate" where
  "extend_claim now run_id extend_by q =
     (if extend_by \<le> 0 then Inl (raise_exception ''extend_by must be > 0'')
      else case find_run run_id q of
        None \<Rightarrow> Inl (raise_exception ''Run not found in queue'')
      | Some r \<Rightarrow>
         (case find_task (r_task r) q of
            None \<Rightarrow> Inl (raise_exception ''Run not found in queue'')
          | Some t \<Rightarrow>
              if t_state t = Cancelled then Inl task_cancelled
              else if r_state r \<noteq> Running
              then if r_state r = Failed then Inl run_already_failed
                   else Inl (raise_exception ''Run is not currently running'')
              else if r_claim_expires_at r = None
              then Inl (raise_exception ''Run does not have an active claim'')
              else Inr (update_runs (\<lambda>x. r_id x = run_id)
                     (\<lambda>x. x\<lparr>r_claim_expires_at := Some (now + extend_by * second)\<rparr>) q)))"

text \<open>\<open>get_task_checkpoint_state\<close> without pending rows: the row, if there is one.\<close>

definition get_task_checkpoint_state :: "uuid \<Rightarrow> string \<Rightarrow> qstate \<Rightarrow> checkpoint_row option" where
  "get_task_checkpoint_state task_id step q =
     (case find_checkpoint task_id step q of
        Some c \<Rightarrow> if c_status c = ''committed'' then Some c else None
      | None \<Rightarrow> None)"

definition get_task_checkpoint_states :: "uuid \<Rightarrow> uuid \<Rightarrow> qstate \<Rightarrow> pg_error + checkpoint_row list" where
  "get_task_checkpoint_states task_id run_id q =
     (case find_run run_id q of
        None \<Rightarrow> Inl (raise_exception ''Run not found in queue'')
      | Some r \<Rightarrow>
          if r_task r \<noteq> task_id then Inl (raise_exception ''Run does not belong to task'')
          else Inr (sort_key c_updated_at
                 (filter (\<lambda>c. c_task c = task_id \<and> c_status c = ''committed'' \<and>
                              (case Option.bind (c_owner_run c) (\<lambda>i. find_run i q) of
                                 None \<Rightarrow> True | Some w \<Rightarrow> r_attempt w \<le> r_attempt r))
                    (checkpoints q))))"

section \<open>Events\<close>

record await_row =
  aw_suspend :: bool
  aw_payload :: "json option"

definition ensure_event :: "string \<Rightarrow> qstate \<Rightarrow> qstate" where
  "ensure_event name q =
     (case find_event name q of
        Some _ \<Rightarrow> q
      | None \<Rightarrow> q\<lparr>events := events q @ [\<lparr>e_name = name, e_payload = None, e_emitted_at = 0\<rparr>]\<rparr>)"

text \<open>The last part of \<open>await_event\<close>: the run goes to sleep and registers its wait.\<close>

definition register_wait ::
    "int \<Rightarrow> uuid \<Rightarrow> uuid \<Rightarrow> string \<Rightarrow> string \<Rightarrow> int option \<Rightarrow> qstate \<Rightarrow> qstate" where
  "register_wait now task_id run_id step event timeout_at q =
     update_tasks (\<lambda>t. t_id t = task_id) (\<lambda>t. t\<lparr>t_state := Sleeping\<rparr>)
    (update_runs (\<lambda>r. r_id r = run_id)
       (\<lambda>r. r\<lparr>r_state := Sleeping, r_claimed_by := None, r_claim_expires_at := None,
              r_available_at := (case timeout_at of None \<Rightarrow> Infinity | Some t \<Rightarrow> At t),
              r_wake_event := Some event, r_event_payload := None\<rparr>)
    (q\<lparr>waits := tbl_upsert (\<lambda>w. (w_run w, w_step w) = (run_id, step))
         (\<lambda>w. w\<lparr>w_event := event, w_timeout_at := timeout_at, w_created_at := now\<rparr>)
         \<lparr>w_task = task_id, w_run = run_id, w_step = step, w_event = event,
          w_timeout_at = timeout_at, w_created_at = now\<rparr> (waits q)\<rparr>))"

definition await_event ::
    "int \<Rightarrow> uuid \<Rightarrow> uuid \<Rightarrow> string \<Rightarrow> string \<Rightarrow> int option \<Rightarrow> qstate \<Rightarrow> pg_error + await_row \<times> qstate" where
  "await_event now task_id run_id step event timeout q0 =
     (if is_blank event then Inl (raise_exception ''event_name must be provided'')
      else if timeout \<noteq> None \<and> the timeout < 0
      then Inl (raise_exception ''timeout must be non-negative'')
      else case Option.bind (find_checkpoint task_id step q0) c_state of
        Some saved \<Rightarrow> Inr (\<lparr>aw_suspend = False, aw_payload = Some saved\<rparr>, q0)
      | None \<Rightarrow>
          (let q = ensure_event event q0
           in case find_run run_id q of
             None \<Rightarrow> Inl (raise_exception ''Run not found while awaiting event'')
           | Some r \<Rightarrow>
              (case find_task (r_task r) q of
                 None \<Rightarrow> Inl (raise_exception ''Run not found while awaiting event'')
               | Some t \<Rightarrow>
                   if t_state t = Cancelled then Inl task_cancelled
                   else if r_state r \<noteq> Running
                   then Inl (raise_exception ''Run must be running to await events'')
                   else
                    (let emitted = Option.bind (find_event event q) e_payload;
                         q1 = (if r_event_payload r \<noteq> None
                               then update_runs (\<lambda>x. r_id x = run_id) (\<lambda>x. x\<lparr>r_event_payload := None\<rparr>) q
                               else q)
                     in case emitted of
                       Some p \<Rightarrow>
                         Inr (\<lparr>aw_suspend = False, aw_payload = Some p\<rparr>,
                           upsert_checkpoint \<lparr>c_task = task_id, c_name = step, c_state = Some p,
                             c_status = ''committed'', c_owner_run = Some run_id, c_updated_at = now\<rparr> q1)
                     | None \<Rightarrow>
                         if r_wake_event r = Some event \<and> r_event_payload r = None
                         then Inr (\<lparr>aw_suspend = False, aw_payload = None\<rparr>,
                               update_runs (\<lambda>x. r_id x = run_id) (\<lambda>x. x\<lparr>r_wake_event := None\<rparr>) q1)
                         else Inr (\<lparr>aw_suspend = True, aw_payload = None\<rparr>,
                               register_wait now task_id run_id step event
                                 (map_option (\<lambda>s. now + s * second) timeout) q1)))))"

text \<open>
  The first write of \<open>emit_event\<close>: \<open>None\<close> when the event already has a payload (\<open>v_emit_applied = 0\<close>).
\<close>

definition record_event :: "int \<Rightarrow> string \<Rightarrow> json \<Rightarrow> qstate \<Rightarrow> qstate option" where
  "record_event now name p q =
     (case find_event name q of
        None \<Rightarrow> Some (q\<lparr>events := events q @ [\<lparr>e_name = name, e_payload = Some p, e_emitted_at = now\<rparr>]\<rparr>)
      | Some e \<Rightarrow>
          if e_payload e \<noteq> None then None
          else Some (q\<lparr>events := tbl_update (\<lambda>e. e_name e = name)
                         (\<lambda>e. e\<lparr>e_payload := Some p, e_emitted_at := now\<rparr>) (events q)\<rparr>))"

definition wait_live :: "int \<Rightarrow> wait_row \<Rightarrow> bool" where
  "wait_live now w \<longleftrightarrow> (case w_timeout_at w of None \<Rightarrow> True | Some t \<Rightarrow> t > now)"

definition woken_waits :: "int \<Rightarrow> string \<Rightarrow> qstate \<Rightarrow> wait_row list" where
  "woken_waits now name q =
     filter (\<lambda>w. w_event w = name \<and> wait_live now w \<and>
                 (\<exists>r \<in> set (runs q). r_id r = w_run w \<and> r_state r = Sleeping)) (waits q)"

definition wake_waiters :: "int \<Rightarrow> string \<Rightarrow> json \<Rightarrow> qstate \<Rightarrow> qstate" where
  "wake_waiters now name p q =
     (let woken = woken_waits now name q; ids = w_run ` set woken;
          owners = r_task ` {r \<in> set (runs q). r_id r \<in> ids};
          q1 = fold (\<lambda>w. upsert_checkpoint \<lparr>c_task = w_task w, c_name = w_step w, c_state = Some p,
                       c_status = ''committed'', c_owner_run = Some (w_run w), c_updated_at = now\<rparr>)
                 woken q
      in delete_waits (\<lambda>w. w_event w = name \<and> (\<not> wait_live now w \<or> w_run w \<in> ids))
        (update_tasks (\<lambda>t. t_id t \<in> owners) (\<lambda>t. t\<lparr>t_state := Pending\<rparr>)
        (update_runs (\<lambda>r. r_id r \<in> ids)
           (\<lambda>r. r\<lparr>r_state := Pending, r_available_at := At now, r_wake_event := None,
                  r_event_payload := Some p, r_claimed_by := None, r_claim_expires_at := None\<rparr>) q1)))"

definition emit_event :: "int \<Rightarrow> string \<Rightarrow> json option \<Rightarrow> qstate \<Rightarrow> pg_error + qstate" where
  "emit_event now name p q =
     (if is_blank name then Inl (raise_exception ''event_name must be provided'')
      else let v = (case p of None \<Rightarrow> JNull | Some j \<Rightarrow> j)
           in case record_event now name v q of
                None \<Rightarrow> Inr q
              | Some q1 \<Rightarrow> Inr (wake_waiters now name v q1))"

section \<open>Results\<close>

record result_row =
  tr_state :: task_state
  tr_result :: "json option"
  tr_failure_reason :: "json option"

definition get_task_result :: "uuid \<Rightarrow> qstate \<Rightarrow> result_row option" where
  "get_task_result task_id q =
     map_option (\<lambda>t.
       \<lparr>tr_state = t_state t,
        tr_result = (if t_state t = Completed then t_completed_payload t else None),
        tr_failure_reason =
          (if t_state t = Failed
           then Option.bind (Option.bind (t_last_attempt_run t) (\<lambda>i. find_run i q)) r_failure_reason
           else None)\<rparr>) (find_task task_id q)"

end
