(* ===== verification/Client_Types.thy ===== *)
theory Client_Types
  imports Store
begin

unbundle bit_operations_syntax

text \<open>
  The data of the TypeScript SDK (\<open>sdks/typescript/src/index.ts\<close>) and its pure helpers: queue name
  validation, the normalisation of options into the JSON that \<open>spawn_task\<close> reads, error mapping,
  the deterministic jitter, task result snapshots. A numeric option is a JavaScript number.
\<close>

section \<open>Errors\<close>

text \<open>
  What JavaScript code throws: the SDK's own error classes, other errors by name and message, a
  rejected query with its \<open>SQLSTATE\<close>, a tagged error of the Effect SDK with its fields and cause, and a thrown
  value that is no \<open>Error\<close>.
\<close>

datatype exn =
    SuspendTask
  | CancelledTask
  | FailedTask
  | TimeoutError string
  | JsError string string
  | DbError pg_error
  | TaggedError string "(string \<times> json) list" exn
  | Thrown json

definition throw_error :: "string \<Rightarrow> exn" where
  "throw_error msg = JsError ''Error'' msg"

type_synonym ('s, 'a) ts = "'s \<Rightarrow> (exn + 'a) \<times> 's"

definition ret :: "'a \<Rightarrow> ('s, 'a) ts" where
  "ret a = (\<lambda>s. (Inr a, s))"

definition throw :: "exn \<Rightarrow> ('s, 'a) ts" where
  "throw e = (\<lambda>s. (Inl e, s))"

text \<open>\<open>await\<close>: a rejection skips the rest.\<close>

definition bind_ts :: "('s, 'a) ts \<Rightarrow> ('a \<Rightarrow> ('s, 'b) ts) \<Rightarrow> ('s, 'b) ts" where
  "bind_ts m f = (\<lambda>s. case m s of (Inl e, s') \<Rightarrow> (Inl e, s') | (Inr a, s') \<Rightarrow> f a s')"

text \<open>\<open>try \<dots> catch\<close>.\<close>

definition catch_ts :: "('s, 'a) ts \<Rightarrow> (exn \<Rightarrow> ('s, 'a) ts) \<Rightarrow> ('s, 'a) ts" where
  "catch_ts m h = (\<lambda>s. case m s of (Inl e, s') \<Rightarrow> h e s' | (Inr a, s') \<Rightarrow> (Inr a, s'))"

lemma ts_simps [simp]:
  "ret a s = (Inr a, s)" "throw e s = (Inl e, s)"
  "m s = (Inl e, s') \<Longrightarrow> bind_ts m f s = (Inl e, s')"
  "m s = (Inr a, s') \<Longrightarrow> bind_ts m f s = f a s'"
  "m s = (Inl e, s') \<Longrightarrow> catch_ts m h s = h e s'"
  "m s = (Inr a, s') \<Longrightarrow> catch_ts m h s = (Inr a, s')"
  by (simp_all add: ret_def throw_def bind_ts_def catch_ts_def)

lemma bind_ts_split:
  "bind_ts m f s = (case m s of (Inl e, s') \<Rightarrow> (Inl e, s') | (Inr a, s') \<Rightarrow> f a s')"
  by (simp add: bind_ts_def)

text \<open>\<open>mapTaskStateError\<close> and \<open>isTaskStateTerminalError\<close>.\<close>

definition mapTaskStateError :: "exn \<Rightarrow> exn" where
  "mapTaskStateError err =
     (case err of
        DbError e \<Rightarrow>
          if err_code e = ''AB001'' then CancelledTask
          else if err_code e = ''AB002'' then FailedTask
          else err
      | _ \<Rightarrow> err)"

definition isTaskStateTerminalError :: "exn \<Rightarrow> bool" where
  "isTaskStateTerminalError err \<longleftrightarrow> err = CancelledTask \<or> err = FailedTask"

text \<open>
  \<open>serializeError\<close>. The stack is a text of the runtime, the parameter \<open>stack_of\<close>; \<open>String(err)\<close> of
  a thrown value is the parameter \<open>string_of\<close>.
\<close>

fun error_name :: "exn \<Rightarrow> string" where
  "error_name SuspendTask = ''SuspendTask''"
| "error_name CancelledTask = ''CancelledTask''"
| "error_name FailedTask = ''FailedTask''"
| "error_name (TimeoutError _) = ''TimeoutError''"
| "error_name (JsError n _) = n"
| "error_name (DbError _) = ''error''"
| "error_name (TaggedError tag _ _) = tag"
| "error_name (Thrown _) = []"

fun error_message :: "exn \<Rightarrow> string" where
  "error_message SuspendTask = ''Task suspended''"
| "error_message CancelledTask = ''Task cancelled''"
| "error_message FailedTask = ''Task already failed''"
| "error_message (TimeoutError m) = m"
| "error_message (JsError _ m) = m"
| "error_message (DbError e) = err_message e"
| "error_message (TaggedError _ _ _) = []"
| "error_message (Thrown _) = []"

definition serializeError :: "(exn \<Rightarrow> string) \<Rightarrow> (json \<Rightarrow> string) \<Rightarrow> exn \<Rightarrow> json" where
  "serializeError stack_of string_of err =
     (case err of
        Thrown j \<Rightarrow> JObj [(''message'', JStr (string_of j))]
      | _ \<Rightarrow> JObj [(''name'', JStr (error_name err)), (''message'', JStr (error_message err)),
                   (''stack'', if stack_of err = [] then JNull else JStr (stack_of err))])"

section \<open>Options\<close>

datatype retry_kind = Kind_fixed | Kind_exponential | Kind_none

record RetryStrategy =
  rs_kind :: retry_kind
  rs_baseSeconds :: "jsnum option"
  rs_factor :: "jsnum option"
  rs_maxSeconds :: "jsnum option"

record CancellationPolicy =
  cp_maxDuration :: "jsnum option"
  cp_maxDelay :: "jsnum option"

record SpawnOptions =
  so_maxAttempts :: "jsnum option"
  so_retryStrategy :: "RetryStrategy option"
  so_headers :: "json option"
  so_queue :: "string option"
  so_cancellation :: "CancellationPolicy option"
  so_idempotencyKey :: "string option"

definition no_options :: SpawnOptions where
  "no_options = \<lparr>so_maxAttempts = None, so_retryStrategy = None, so_headers = None, so_queue = None,
     so_cancellation = None, so_idempotencyKey = None\<rparr>"

text \<open>The policy of a queue: an update has any of the fields, \<open>detachMode\<close> is one of two words.\<close>

datatype QueueDetachMode = Detach_none | Detach_empty

record QueuePolicyOptions =
  po_partitionLookahead :: "string option"
  po_partitionLookback :: "string option"
  po_cleanupTtl :: "string option"
  po_cleanupLimit :: "jsnum option"
  po_detachMode :: "QueueDetachMode option"
  po_detachMinAge :: "string option"

record CreateQueueOptions = QueuePolicyOptions +
  co_storageMode :: "storage_mode option"

record RetryTaskOptions =
  rt_queue :: "string option"
  rt_maxAttempts :: "jsnum option"
  rt_spawnNewTask :: "bool option"

record WorkerOptions =
  wo_workerId :: "string option"
  wo_claimTimeout :: "int option"
  wo_batchSize :: "int option"
  wo_concurrency :: "int option"
  wo_pollInterval :: "rat option"
  wo_fatalOnLeaseTimeout :: "bool option"

record TaskRegistrationOptions =
  ro_name :: string
  ro_queue :: "string option"
  ro_defaultMaxAttempts :: "jsnum option"
  ro_defaultCancellation :: "CancellationPolicy option"

record SpawnResult =
  sr_taskID :: uuid
  sr_runID :: "uuid option"
  sr_attempt :: int
  sr_created :: bool

datatype TaskResultSnapshot =
    InProgress task_state
  | SnapCompleted "json option"
  | SnapFailed "json option"
  | SnapCancelled

section \<open>Queue names\<close>

definition MAX_QUEUE_NAME_LENGTH :: nat where
  "MAX_QUEUE_NAME_LENGTH = 57"

text \<open>\<open>Buffer.byteLength(s, "utf8")\<close>: a code unit from 128 on takes two bytes.\<close>

definition utf8_length :: "string \<Rightarrow> nat" where
  "utf8_length s = sum_list (map (\<lambda>c. if (of_char c :: nat) < 128 then 1 else 2) s)"

definition validateQueueName :: "string \<Rightarrow> exn + string" where
  "validateQueueName queueName =
     (if queueName = [] then Inl (throw_error ''Queue name must be provided'')
      else if utf8_length queueName > MAX_QUEUE_NAME_LENGTH
      then Inl (throw_error (''Queue name '' @ queueName @ '' is too long (max 57 bytes).''))
      else Inr queueName)"

text \<open>\<open>absurd.validate_queue_name\<close>, which the SDK's check anticipates.\<close>

definition validate_queue_name :: "string \<Rightarrow> pg_error + string" where
  "validate_queue_name n =
     (if n = [] then Inl (raise_exception ''Queue name must be provided'')
      else if utf8_length n > 57 then Inl (raise_exception ''Queue name is too long (max 57 bytes).'')
      else Inr n)"

section \<open>Normalising spawn options\<close>

lemma json_text_JStr [simp]: "json_text (map_option JStr k) = k"
  by (cases k) simp_all

fun kind_text :: "retry_kind \<Rightarrow> string" where
  "kind_text Kind_fixed = ''fixed''"
| "kind_text Kind_exponential = ''exponential''"
| "kind_text Kind_none = ''none''"

definition num_field :: "string \<Rightarrow> jsnum option \<Rightarrow> (string \<times> json) list" where
  "num_field k n = opt_field k (map_option json_of_num n)"

definition serializeRetryStrategy :: "RetryStrategy \<Rightarrow> json" where
  "serializeRetryStrategy strategy =
     JObj ((''kind'', JStr (kind_text (rs_kind strategy))) #
           num_field ''base_seconds'' (rs_baseSeconds strategy) @
           num_field ''factor'' (rs_factor strategy) @
           num_field ''max_seconds'' (rs_maxSeconds strategy))"

definition normalizeCancellation :: "CancellationPolicy option \<Rightarrow> json option" where
  "normalizeCancellation policy =
     (case policy of
        None \<Rightarrow> None
      | Some p \<Rightarrow>
          (let normalized = num_field ''max_duration'' (cp_maxDuration p) @
                            num_field ''max_delay'' (cp_maxDelay p)
           in if normalized = [] then None else Some (JObj normalized)))"

definition normalizeSpawnOptions :: "SpawnOptions \<Rightarrow> json" where
  "normalizeSpawnOptions options =
     JObj (opt_field ''headers'' (so_headers options) @
           num_field ''max_attempts'' (so_maxAttempts options) @
           opt_field ''retry_strategy'' (map_option serializeRetryStrategy (so_retryStrategy options)) @
           opt_field ''cancellation'' (normalizeCancellation (so_cancellation options)) @
           opt_field ''idempotency_key'' (map_option JStr (so_idempotencyKey options)))"

fun detach_text :: "QueueDetachMode \<Rightarrow> string" where
  "detach_text Detach_none = ''none''"
| "detach_text Detach_empty = ''empty''"

definition buildQueuePolicyPayload :: "'a QueuePolicyOptions_scheme \<Rightarrow> (string \<times> json) list" where
  "buildQueuePolicyPayload options =
     opt_field ''partition_lookahead'' (map_option JStr (po_partitionLookahead options)) @
     opt_field ''partition_lookback'' (map_option JStr (po_partitionLookback options)) @
     opt_field ''cleanup_ttl'' (map_option JStr (po_cleanupTtl options)) @
     num_field ''cleanup_limit'' (po_cleanupLimit options) @
     opt_field ''detach_mode'' (map_option (\<lambda>m. JStr (detach_text m)) (po_detachMode options)) @
     opt_field ''detach_min_age'' (map_option JStr (po_detachMinAge options))"

section \<open>Deterministic jitter\<close>

definition UNKNOWN_TASK_DEFER_BASE_SECONDS :: int where
  "UNKNOWN_TASK_DEFER_BASE_SECONDS = 15"

definition UNKNOWN_TASK_DEFER_JITTER_SECONDS :: int where
  "UNKNOWN_TASK_DEFER_JITTER_SECONDS = 15"

text \<open>
  The hash is a JavaScript number that \<open>^\<close> and \<open>Math.imul\<close> read as a 32-bit word and write back as a
  signed one; \<open>2166136261\<close> is the unsigned starting value, which an empty seed leaves as it is.
\<close>

definition hash_step :: "int \<Rightarrow> char \<Rightarrow> int" where
  "hash_step hash c =
     (let x = word_of_int hash XOR word_of_nat (of_char c) :: 32 word
      in sint (x * 16777619))"

definition deterministicJitterSeconds :: "string \<Rightarrow> int \<Rightarrow> int" where
  "deterministicJitterSeconds seed maxJitterSeconds =
     (if maxJitterSeconds \<le> 0 then 0
      else \<bar>foldl hash_step 2166136261 seed\<bar> mod (maxJitterSeconds + 1))"

text \<open>The text of a UUID, the seed that the SDK passes.\<close>

definition hex_digit :: "nat \<Rightarrow> char" where
  "hex_digit d = (if d < 10 then char_of (48 + d) else char_of (87 + d))"

fun hex_w :: "nat \<Rightarrow> nat \<Rightarrow> string" where
  "hex_w 0 n = []"
| "hex_w (Suc w) n = hex_w w (n div 16) @ [hex_digit (n mod 16)]"

definition uuid_text :: "uuid \<Rightarrow> string" where
  "uuid_text u =
     (let h = hex_w 32 u
      in take 8 h @ ''-'' @ take 4 (drop 8 h) @ ''-'' @ take 4 (drop 12 h) @ ''-'' @
         take 4 (drop 16 h) @ ''-'' @ drop 20 h)"

section \<open>Task results\<close>

definition isTerminalTaskState :: "task_state \<Rightarrow> bool" where
  "isTerminalTaskState state \<longleftrightarrow> state = Completed \<or> state = Failed \<or> state = Cancelled"

definition snapshot_of_row :: "result_row \<Rightarrow> TaskResultSnapshot" where
  "snapshot_of_row row =
     (if tr_state row = Completed then SnapCompleted (tr_result row)
      else if tr_state row = Failed then SnapFailed (tr_failure_reason row)
      else if tr_state row = Cancelled then SnapCancelled
      else InProgress (tr_state row))"

fun snapshot_state :: "TaskResultSnapshot \<Rightarrow> task_state" where
  "snapshot_state (InProgress s) = s"
| "snapshot_state (SnapCompleted _) = Completed"
| "snapshot_state (SnapFailed _) = Failed"
| "snapshot_state SnapCancelled = Cancelled"

text \<open>A timeout in seconds becomes whole milliseconds; \<open>None\<close> is no timeout.\<close>

definition normalizeTimeoutSecondsToMs :: "jsnum option \<Rightarrow> exn + int option" where
  "normalizeTimeoutSecondsToMs timeoutSeconds =
     (case timeoutSeconds of
        None \<Rightarrow> Inr None
      | Some PosInf \<Rightarrow> Inr None
      | Some (Fin s) \<Rightarrow>
          if s < 0 then Inl (throw_error ''timeout must be a finite non-negative number'')
          else Inr (Some \<lfloor>s * 1000\<rfloor>)
      | Some _ \<Rightarrow> Inl (throw_error ''timeout must be a finite non-negative number''))"

end
