(* ===== verification/Store_Inv.thy ===== *)
theory Store_Inv
  imports Store
begin

text \<open>
  What every stored function keeps of the tables: the keys are unique, a task's
  \<open>last_attempt_run\<close> is its newest run and agrees with the task's state, no other run of the task is
  active, attempts are numbered without repetition, and a registered wait belongs to a run that is
  asleep until exactly that event or timeout. The last section lifts this to every reachable queue.
\<close>

section \<open>The invariant\<close>

definition agrees :: "task_row \<Rightarrow> run_row \<Rightarrow> bool" where
  "agrees t r \<longleftrightarrow> t_state t = r_state r \<or> (t_state t = Cancelled \<and> r_state r = Failed)"

definition newest_run :: "task_row \<Rightarrow> run_row \<Rightarrow> bool" where
  "newest_run t r \<longleftrightarrow> t_last_attempt_run t = Some (r_id r) \<and> r_task r = t_id t \<and>
     r_attempt r = t_attempts t \<and> agrees t r"

definition core_inv :: "task_row list \<Rightarrow> run_row list \<Rightarrow> uuid \<Rightarrow> bool" where
  "core_inv ts rs n \<longleftrightarrow>
     distinct (map t_id ts) \<and> distinct (map r_id rs) \<and>
     distinct (map (\<lambda>r. (r_task r, r_attempt r)) rs) \<and>
     (\<forall>t \<in> set ts. t_id t < n) \<and> (\<forall>r \<in> set rs. r_id r < n \<and> r_task r \<in> t_id ` set ts) \<and>
     (\<forall>t \<in> set ts. \<exists>r \<in> set rs. newest_run t r) \<and>
     (\<forall>t \<in> set ts. \<forall>r \<in> set rs. r_task r = t_id t \<longrightarrow>
        r_attempt r \<le> t_attempts t \<and> (active (r_state r) \<longrightarrow> t_last_attempt_run t = Some (r_id r)))"

definition waits_for :: "wait_row \<Rightarrow> run_row \<Rightarrow> bool" where
  "waits_for w r \<longleftrightarrow> r_id r = w_run w \<and> r_task r = w_task w \<and> r_state r = Sleeping \<and>
     r_wake_event r = Some (w_event w) \<and>
     r_available_at r = (case w_timeout_at w of None \<Rightarrow> Infinity | Some t \<Rightarrow> At t)"

definition wait_inv :: "wait_row list \<Rightarrow> run_row list \<Rightarrow> bool" where
  "wait_inv ws rs \<longleftrightarrow> distinct (map w_run ws) \<and> (\<forall>w \<in> set ws. \<exists>r \<in> set rs. waits_for w r)"

definition key_inv :: "checkpoint_row list \<Rightarrow> event_row list \<Rightarrow> bool" where
  "key_inv cs es \<longleftrightarrow> distinct (map (\<lambda>c. (c_task c, c_name c)) cs) \<and> distinct (map e_name es)"

definition queue_inv :: "qstate \<Rightarrow> bool" where
  "queue_inv q \<longleftrightarrow> core_inv (tasks q) (runs q) (uuids q) \<and> wait_inv (waits q) (runs q) \<and>
     key_inv (checkpoints q) (events q)"

lemma queue_inv_empty: "queue_inv (empty_queue mode)"
  by (simp add: queue_inv_def core_inv_def wait_inv_def key_inv_def empty_queue_def)

section \<open>Changing the state of runs and tasks\<close>

lemma core_inv_task: "core_inv ts rs n \<Longrightarrow> r \<in> set rs \<Longrightarrow> \<exists>t \<in> set ts. t_id t = r_task r"
  unfolding core_inv_def by force

lemma core_inv_newest: "core_inv ts rs n \<Longrightarrow> t \<in> set ts \<Longrightarrow> \<exists>r \<in> set rs. newest_run t r"
  by (simp add: core_inv_def)

lemma core_inv_active:
  assumes "core_inv ts rs n" "t \<in> set ts" "r \<in> set rs" "r_task r = t_id t" "active (r_state r)"
  shows "newest_run t r"
proof -
  obtain r' where r': "r' \<in> set rs" "newest_run t r'"
    using core_inv_newest assms(1,2) by blast
  have "t_last_attempt_run t = Some (r_id r)" using assms by (simp add: core_inv_def)
  then have "r_id r' = r_id r" using r' by (simp add: newest_run_def)
  then have "r' = r" using assms r' by (metis core_inv_def key_inj)
  with r' show ?thesis by simp
qed

lemma agrees_active: "agrees t r \<Longrightarrow> active (r_state r) \<Longrightarrow> t_state t = r_state r"
  by (auto simp: agrees_def active_def)

lemma core_inv_active_state:
  assumes "core_inv ts rs n" "t \<in> set ts" "r \<in> set rs" "r_task r = t_id t" "active (r_state r)"
  shows "t_state t = r_state r"
  using core_inv_active [OF assms] assms(5) by (auto simp: newest_run_def intro: agrees_active)

text \<open>
  An update that keeps the identities, revives no run, and keeps each newest run in agreement with
  its task, keeps the core invariant: every operation that moves runs through their states is one.
\<close>

lemma core_inv_update:
  assumes inv: "core_inv ts rs n"
    and keep_run: "\<And>r. r_id (f r) = r_id r \<and> r_task (f r) = r_task r \<and> r_attempt (f r) = r_attempt r"
    and keep_task: "\<And>t. t_id (g t) = t_id t"
    and same: "\<And>t r. t \<in> set ts \<Longrightarrow> r \<in> set rs \<Longrightarrow> newest_run t r \<Longrightarrow>
      t_last_attempt_run (if Q t then g t else t) = Some (r_id r) \<and>
      t_attempts (if Q t then g t else t) = t_attempts t"
    and revive: "\<And>r. r \<in> set rs \<Longrightarrow> P r \<Longrightarrow> active (r_state (f r)) \<Longrightarrow> active (r_state r)"
    and agree: "\<And>t r. t \<in> set ts \<Longrightarrow> r \<in> set rs \<Longrightarrow> newest_run t r \<Longrightarrow>
      agrees (if Q t then g t else t) (if P r then f r else r)"
  shows "core_inv (tbl_update Q g ts) (tbl_update P f rs) n"
proof -
  let ?g = "\<lambda>t. if Q t then g t else t" and ?f = "\<lambda>r. if P r then f r else r"
  have ids: "map t_id (tbl_update Q g ts) = map t_id ts" "map r_id (tbl_update P f rs) = map r_id rs"
    "map (\<lambda>r. (r_task r, r_attempt r)) (tbl_update P f rs) = map (\<lambda>r. (r_task r, r_attempt r)) rs"
    using keep_run keep_task by (auto intro!: map_tbl_update)
  have run_ids: "r_id (?f r) = r_id r" "r_task (?f r) = r_task r" "r_attempt (?f r) = r_attempt r" for r
    using keep_run by auto
  have task_id: "t_id (?g t) = t_id t" for t using keep_task by auto
  have newest: "newest_run (?g t) (?f r)" if "t \<in> set ts" "r \<in> set rs" "newest_run t r" for t r
    using same [OF that] agree [OF that] that(3) run_ids [of r] task_id [of t]
    by (simp add: newest_run_def)
  have "\<exists>r \<in> set (tbl_update P f rs). newest_run t r" if "t \<in> set (tbl_update Q g ts)" for t
  proof -
    from that obtain t0 where t0: "t0 \<in> set ts" "t = ?g t0" by (auto simp: tbl_simps)
    then obtain r0 where r0: "r0 \<in> set rs" "newest_run t0 r0" using core_inv_newest inv by blast
    then have "?f r0 \<in> set (tbl_update P f rs)" by (auto simp: in_tbl_update)
    with newest [OF t0(1) r0] t0(2) show ?thesis by blast
  qed
  moreover have "r_attempt r \<le> t_attempts t \<and> (active (r_state r) \<longrightarrow> t_last_attempt_run t = Some (r_id r))"
    if t: "t \<in> set (tbl_update Q g ts)" and r: "r \<in> set (tbl_update P f rs)" and own: "r_task r = t_id t"
    for t r
  proof -
    obtain t0 where t0: "t0 \<in> set ts" "t = ?g t0" using t by (auto simp: tbl_simps)
    obtain r0 where r0: "r0 \<in> set rs" "r = ?f r0" using r by (auto simp: tbl_simps)
    have own0: "r_task r0 = t_id t0" using own t0 r0 run_ids task_id by metis
    obtain rn where rn: "rn \<in> set rs" "newest_run t0 rn" using core_inv_newest inv t0 by blast
    have att: "t_attempts t = t_attempts t0" and last: "t_last_attempt_run t = Some (r_id rn)"
      using same [OF t0(1) rn] t0(2) by auto
    have "r_attempt r0 \<le> t_attempts t0" using inv t0 r0 own0 by (simp add: core_inv_def)
    moreover have "t_last_attempt_run t = Some (r_id r)" if "active (r_state r)"
    proof -
      have "active (r_state r0)" using that r0 revive by (auto split: if_splits)
      then have "newest_run t0 r0" using core_inv_active inv t0 r0 own0 by blast
      then show ?thesis using same [OF t0(1) r0(1)] t0(2) r0(2) run_ids by metis
    qed
    ultimately show ?thesis using r0 run_ids att by simp
  qed
  moreover have "t_id t < n" if "t \<in> set (tbl_update Q g ts)" for t
  proof -
    from that obtain t0 where t0: "t0 \<in> set ts" "t = ?g t0" by (auto simp: tbl_simps)
    then have "t_id t0 < n" using inv by (simp add: core_inv_def)
    then show ?thesis using task_id [of t0] t0(2) by simp
  qed
  moreover have "r_id r < n \<and> r_task r \<in> t_id ` set (tbl_update Q g ts)"
    if "r \<in> set (tbl_update P f rs)" for r
  proof -
    have "t_id ` set (tbl_update Q g ts) = t_id ` set ts" using ids(1) by (metis set_map)
    moreover obtain r0 where "r0 \<in> set rs" "r = ?f r0" using \<open>r \<in> _\<close> by (auto simp: tbl_simps)
    ultimately show ?thesis using inv run_ids [of r0] by (simp add: core_inv_def)
  qed
  moreover have "distinct (map t_id ts)" "distinct (map r_id rs)"
    "distinct (map (\<lambda>r. (r_task r, r_attempt r)) rs)"
    using inv by (simp_all add: core_inv_def)
  ultimately show ?thesis unfolding core_inv_def ids by blast
qed

text \<open>A terminal task gets a new run, numbered after all its earlier ones.\<close>

lemma core_inv_add_run:
  assumes inv: "core_inv ts rs n" and t: "t \<in> set ts" and idle_task: "terminal (t_state t)"
    and new: "r_id r = n" "r_task r = t_id t" "r_attempt r = t_attempts t + 1"
    and g: "t_id (g t) = t_id t" "newest_run (g t) r"
  shows "core_inv (tbl_update (\<lambda>x. t_id x = t_id t) g ts) (rs @ [r]) (Suc n)"
proof -
  have only: "x = t" if "x \<in> set ts" "t_id x = t_id t" for x
    using inv t that by (metis core_inv_def key_inj)
  have upd: "tbl_update (\<lambda>x. t_id x = t_id t) g ts = map (\<lambda>x. if x = t then g t else x) ts"
    unfolding tbl_update_def using only by (intro map_cong) auto
  have ids: "map t_id (tbl_update (\<lambda>x. t_id x = t_id t) g ts) = map t_id ts"
    using g(1) unfolding upd by auto
  have idle: "\<not> active (r_state x)" if "x \<in> set rs" "r_task x = t_id t" for x
    using core_inv_active_state [OF inv t that] idle_task by (metis active_iff)
  have old: "r_attempt x \<le> t_attempts t" if "x \<in> set rs" "r_task x = t_id t" for x
    using inv t that by (simp add: core_inv_def)
  have fresh: "r_id r \<notin> r_id ` set rs" "(r_task r, r_attempt r) \<notin> (\<lambda>r. (r_task r, r_attempt r)) ` set rs"
    using inv new old by (force simp: core_inv_def)+
  have "\<exists>x \<in> set (rs @ [r]). newest_run u x" if "u \<in> set (tbl_update (\<lambda>x. t_id x = t_id t) g ts)" for u
    using that g(2) core_inv_newest [OF inv] unfolding upd by (auto split: if_splits)
  moreover have "r_attempt x \<le> t_attempts u \<and> (active (r_state x) \<longrightarrow> t_last_attempt_run u = Some (r_id x))"
    if u: "u \<in> set (tbl_update (\<lambda>x. t_id x = t_id t) g ts)" and x: "x \<in> set (rs @ [r])"
      and own: "r_task x = t_id u" for u x
  proof -
    from u obtain u0 where u0: "u0 \<in> set ts" "u = (if u0 = t then g t else u0)" unfolding upd by auto
    show ?thesis
    proof (cases "u0 = t")
      case True
      then show ?thesis
        using u0 x own g new idle old by (fastforce simp: newest_run_def)
    next
      case False
      then have "x \<noteq> r" using u0 own new only by auto
      then show ?thesis using False u0 x own inv by (auto simp: core_inv_def)
    qed
  qed
  moreover have "\<forall>u \<in> set (tbl_update (\<lambda>x. t_id x = t_id t) g ts). t_id u < Suc n"
    using inv t g(1) unfolding upd by (fastforce simp: core_inv_def)
  moreover have "\<forall>x \<in> set (rs @ [r]). r_id x < Suc n \<and>
      r_task x \<in> t_id ` set (tbl_update (\<lambda>x. t_id x = t_id t) g ts)"
  proof -
    have "t_id ` set (tbl_update (\<lambda>x. t_id x = t_id t) g ts) = t_id ` set ts"
      using ids by (metis set_map)
    then show ?thesis using inv new t by (auto simp: core_inv_def less_Suc_eq)
  qed
  ultimately show ?thesis using inv ids fresh by (simp add: core_inv_def)
qed

lemma core_inv_add_task:
  assumes inv: "core_inv ts rs n" and new: "n \<le> t_id t" "t_id t < m" "r_id r < m" "n \<le> r_id r"
    and newest: "newest_run t r"
  shows "core_inv (ts @ [t]) (rs @ [r]) m"
proof -
  have other: "r_task x \<noteq> t_id t" "r_id x < n" if "x \<in> set rs" for x
    using that inv new by (force simp: core_inv_def)+
  have others: "t_id x \<noteq> t_id t" "t_id x < n" if "x \<in> set ts" for x
    using that inv new by (force simp: core_inv_def)+
  have own: "r_task r = t_id t" using newest by (simp add: newest_run_def)
  have "distinct (map t_id (ts @ [t]))" using inv others by (force simp: core_inv_def)
  moreover have "distinct (map r_id (rs @ [r]))" using inv other new by (fastforce simp: core_inv_def)
  moreover have "distinct (map (\<lambda>r. (r_task r, r_attempt r)) (rs @ [r]))"
    using inv other own by (force simp: core_inv_def)
  moreover have "\<exists>y \<in> set (rs @ [r]). newest_run x y" if "x \<in> set (ts @ [t])" for x
    using that newest core_inv_newest [OF inv] by auto
  moreover have "r_attempt y \<le> t_attempts x \<and> (active (r_state y) \<longrightarrow> t_last_attempt_run x = Some (r_id y))"
    if "x \<in> set (ts @ [t])" "y \<in> set (rs @ [r])" "r_task y = t_id x" for x y
  proof (cases "x = t")
    case True
    then have "y = r" using that other by auto
    with True newest show ?thesis by (simp add: newest_run_def)
  next
    case False
    then have "x \<in> set ts" using that by simp
    moreover have "y \<noteq> r" using \<open>x \<in> set ts\<close> that(3) own others by force
    ultimately have "x \<in> set ts" "y \<noteq> r" by simp_all
    then show ?thesis using that inv by (simp add: core_inv_def)
  qed
  moreover have "\<forall>x \<in> set (ts @ [t]). t_id x < m" using inv new by (fastforce simp: core_inv_def)
  moreover have "\<forall>y \<in> set (rs @ [r]). r_id y < m \<and> r_task y \<in> t_id ` set (ts @ [t])"
    using inv new own by (fastforce simp: core_inv_def)
  ultimately show ?thesis unfolding core_inv_def by blast
qed

section \<open>Waits\<close>

lemma wait_inv_update:
  assumes "wait_inv ws rs"
    and "distinct (map w_run ws')" "set ws' \<subseteq> set ws"
    and "\<And>w r. w \<in> set ws' \<Longrightarrow> r \<in> set rs \<Longrightarrow> waits_for w r \<Longrightarrow> waits_for w (if P r then f r else r)"
  shows "wait_inv ws' (tbl_update P f rs)"
proof -
  have "\<exists>r \<in> set (tbl_update P f rs). waits_for w r" if w: "w \<in> set ws'" for w
  proof -
    from w assms(1,3) obtain r where r: "r \<in> set rs" "waits_for w r" by (auto simp: wait_inv_def)
    then have "(if P r then f r else r) \<in> set (tbl_update P f rs)" by (auto simp: in_tbl_update)
    with assms(4) [OF w r] show ?thesis by blast
  qed
  with assms(2) show ?thesis by (simp add: wait_inv_def)
qed

lemma wait_inv_append: "wait_inv ws rs \<Longrightarrow> wait_inv ws (rs @ rs')"
  unfolding wait_inv_def by auto

lemma wait_inv_delete: "wait_inv ws rs \<Longrightarrow> wait_inv (tbl_delete P ws) rs"
  unfolding wait_inv_def by (auto simp: tbl_simps)

lemma distinct_tbl_upsert:
  assumes "distinct (map k rs)" "\<And>x. k (f x) = k x" "\<And>x. P x \<longleftrightarrow> k x = k new"
  shows "distinct (map k (tbl_upsert P f new rs))"
proof (cases "list_ex P rs")
  case True
  have "map k (tbl_update P f rs) = map k rs" using assms(2) by (intro map_tbl_update) auto
  with True assms(1) show ?thesis by (simp add: tbl_upsert_def)
next
  case False
  then have "k new \<notin> k ` set rs" using assms(3) by (force simp: list_ex_iff)
  with False assms(1) show ?thesis by (simp add: tbl_upsert_def)
qed

lemma key_inv_upsert:
  assumes "key_inv (checkpoints q) es"
  shows "key_inv (checkpoints (upsert_checkpoint c q)) es"
proof -
  have "distinct (map (\<lambda>c. (c_task c, c_name c)) (checkpoints (upsert_checkpoint c q)))"
    using assms unfolding key_inv_def upsert_checkpoint_def
    by (simp, intro distinct_tbl_upsert) auto
  with assms show ?thesis by (simp add: key_inv_def)
qed

section \<open>Lookups\<close>

lemma find_runD: "find_run i q = Some r \<Longrightarrow> r \<in> set (runs q) \<and> r_id r = i"
  by (auto simp: find_run_def dest: tbl_find_SomeD)

lemma find_taskD: "find_task i q = Some t \<Longrightarrow> t \<in> set (tasks q) \<and> t_id t = i"
  by (auto simp: find_task_def dest: tbl_find_SomeD)

lemma find_run_eq: "queue_inv q \<Longrightarrow> r \<in> set (runs q) \<Longrightarrow> find_run (r_id r) q = Some r"
  unfolding find_run_def queue_inv_def core_inv_def by (blast intro: tbl_find_key)

lemma find_task_eq: "queue_inv q \<Longrightarrow> t \<in> set (tasks q) \<Longrightarrow> find_task (t_id t) q = Some t"
  unfolding find_task_def queue_inv_def core_inv_def by (blast intro: tbl_find_key)

lemma find_run_update_runs:
  assumes "\<And>x. r_id (f x) = r_id x"
  shows "find_run i (update_runs P f q) = map_option (\<lambda>r. if P r then f r else r) (find_run i q)"
  unfolding find_run_def update_runs_def using tbl_find_update_key [of r_id f] assms by simp

lemma find_task_update_tasks:
  assumes "\<And>x. t_id (f x) = t_id x"
  shows "find_task i (update_tasks P f q) = map_option (\<lambda>t. if P t then f t else t) (find_task i q)"
  unfolding find_task_def update_tasks_def using tbl_find_update_key [of t_id f] assms by simp

lemma find_run_same_task:
  assumes "queue_inv q" "find_run i q = Some r"
  shows "\<exists>t. find_task (r_task r) q = Some t \<and> t \<in> set (tasks q) \<and> t_id t = r_task r"
proof -
  have "\<exists>t \<in> set (tasks q). t_id t = r_task r"
    using assms(1) find_runD [OF assms(2)] by (auto simp: queue_inv_def dest: core_inv_task)
  then obtain t where t: "t \<in> set (tasks q)" "t_id t = r_task r" by blast
  then show ?thesis using find_task_eq [OF assms(1) t(1)] by auto
qed

lemma queue_inv_run_unique:
  "core_inv ts rs n \<Longrightarrow> x \<in> set rs \<Longrightarrow> y \<in> set rs \<Longrightarrow> r_id x = r_id y \<Longrightarrow> x = y"
  unfolding core_inv_def by (blast intro: key_inj)

section \<open>One run moves\<close>

text \<open>An active run changes state together with its task.\<close>

lemma core_inv_move:
  assumes inv: "core_inv ts rs n" and r: "r \<in> set rs" "active (r_state r)"
    and f: "\<And>x. r_id (f x) = r_id x \<and> r_task (f x) = r_task x \<and> r_attempt (f x) = r_attempt x"
    and g: "\<And>x. t_id (g x) = t_id x"
    and gt: "\<And>t. t \<in> set ts \<Longrightarrow> newest_run t r \<Longrightarrow>
      t_last_attempt_run (g t) = Some (r_id r) \<and> t_attempts (g t) = t_attempts t \<and> agrees (g t) (f r)"
  shows "core_inv (tbl_update (\<lambda>t. t_id t = r_task r) g ts) (tbl_update (\<lambda>x. r_id x = r_id r) f rs) n"
proof (rule core_inv_update [OF inv f g])
  have newest: "newest_run t r \<and> r' = r"
    if "t \<in> set ts" "r' \<in> set rs" "newest_run t r'" "t_id t = r_task r" for t r'
  proof -
    have n: "newest_run t r" using core_inv_active [OF inv that(1) r(1) _ r(2)] that(4) by simp
    then have "r_id r' = r_id r" using that(3) by (simp add: newest_run_def)
    with n show ?thesis using queue_inv_run_unique [OF inv that(2) r(1)] by simp
  qed
  fix t r' assume tr: "t \<in> set ts" "r' \<in> set rs" "newest_run t r'"
  show "t_last_attempt_run (if t_id t = r_task r then g t else t) = Some (r_id r') \<and>
      t_attempts (if t_id t = r_task r then g t else t) = t_attempts t"
    using newest [OF tr] gt [OF tr(1)] tr(3) by (auto simp: newest_run_def)
  show "agrees (if t_id t = r_task r then g t else t) (if r_id r' = r_id r then f r' else r')"
  proof (cases "t_id t = r_task r")
    case True
    then show ?thesis using newest [OF tr True] gt [OF tr(1)] by simp
  next
    case False
    then have "r' \<noteq> r" using tr(3) by (auto simp: newest_run_def)
    then have "r_id r' \<noteq> r_id r" using queue_inv_run_unique [OF inv tr(2) r(1)] by blast
    with False tr(3) show ?thesis by (simp add: newest_run_def)
  qed
next
  fix x assume "x \<in> set rs" "r_id x = r_id r"
  then have "x = r" using queue_inv_run_unique [OF inv _ r(1)] by blast
  then show "active (r_state x)" using r(2) by simp
qed

lemma wait_inv_other_run:
  assumes "wait_inv ws rs" "distinct (map w_run ws')" "set ws' \<subseteq> set ws"
    and "\<And>w. w \<in> set ws' \<Longrightarrow> w_run w \<noteq> i"
  shows "wait_inv ws' (tbl_update (\<lambda>x. r_id x = i) f rs)"
  using assms(4) by (intro wait_inv_update [OF assms(1-3)]) (auto simp: waits_for_def)

lemma wait_inv_awake:
  assumes "core_inv ts rs n" "wait_inv ws rs" "r \<in> set rs" "r_state r \<noteq> Sleeping" "w \<in> set ws"
  shows "w_run w \<noteq> r_id r"
proof
  assume "w_run w = r_id r"
  moreover obtain r' where "r' \<in> set rs" "waits_for w r'" using assms(2,5) by (auto simp: wait_inv_def)
  ultimately show False
    using assms(4) queue_inv_run_unique [OF assms(1) _ assms(3)] by (metis waits_for_def)
qed

lemma core_inv_move_run:
  assumes "core_inv ts rs n" "r \<in> set rs"
    and "\<And>x. r_id (f x) = r_id x \<and> r_task (f x) = r_task x \<and> r_attempt (f x) = r_attempt x \<and>
      r_state (f x) = r_state x"
  shows "core_inv ts (tbl_update P f rs) n"
proof -
  have "core_inv (tbl_update (\<lambda>_. False) id ts) (tbl_update P f rs) n"
    by (rule core_inv_update [OF assms(1)]) (auto simp: assms(3) newest_run_def agrees_def)
  then show ?thesis by (simp add: tbl_update_def)
qed

lemma core_inv_mono: "core_inv ts rs n \<Longrightarrow> n \<le> m \<Longrightarrow> core_inv ts rs m"
  unfolding core_inv_def by (meson order_less_le_trans)

lemmas store_updates = update_runs_def update_tasks_def delete_waits_def

lemma queue_inv_coreD: "queue_inv q \<Longrightarrow> core_inv (tasks q) (runs q) (uuids q)"
  and queue_inv_waitD: "queue_inv q \<Longrightarrow> wait_inv (waits q) (runs q)"
  and queue_inv_keyD: "queue_inv q \<Longrightarrow> key_inv (checkpoints q) (events q)"
  by (simp_all add: queue_inv_def)

lemma wait_inv_distinct: "wait_inv ws rs \<Longrightarrow> distinct (map w_run ws)"
  by (simp add: wait_inv_def)

lemma queue_inv_move:
  assumes inv: "queue_inv q" and r: "find_run i q = Some r" "active (r_state r)"
    and f: "\<And>x. r_id (f x) = r_id x \<and> r_task (f x) = r_task x \<and> r_attempt (f x) = r_attempt x"
    and g: "\<And>x. t_id (g x) = t_id x"
    and gt: "\<And>t. t \<in> set (tasks q) \<Longrightarrow> newest_run t r \<Longrightarrow>
      t_last_attempt_run (g t) = Some i \<and> t_attempts (g t) = t_attempts t \<and> agrees (g t) (f r)"
  shows "queue_inv (delete_waits (\<lambda>w. w_run w = i)
    (update_tasks (\<lambda>t. t_id t = r_task r) g (update_runs (\<lambda>x. r_id x = i) f q)))"
proof -
  have rd: "r \<in> set (runs q)" "r_id r = i" using find_runD [OF r(1)] by simp_all
  have "core_inv (tbl_update (\<lambda>t. t_id t = r_task r) g (tasks q))
      (tbl_update (\<lambda>x. r_id x = i) f (runs q)) (uuids q)"
    unfolding rd(2) [symmetric]
    by (rule core_inv_move [OF queue_inv_coreD [OF inv] rd(1) r(2) f g]) (use gt rd(2) in simp)
  moreover have "wait_inv (tbl_delete (\<lambda>w. w_run w = i) (waits q))
      (tbl_update (\<lambda>x. r_id x = i) f (runs q))"
    using wait_inv_distinct [OF queue_inv_waitD [OF inv]]
    by (intro wait_inv_other_run [OF queue_inv_waitD [OF inv]]) (auto simp: tbl_simps)
  ultimately show ?thesis
    using queue_inv_keyD [OF inv] by (simp add: queue_inv_def store_updates)
qed

lemma delete_no_waits:
  assumes "\<And>w. w \<in> set (waits q) \<Longrightarrow> \<not> P w"
  shows "delete_waits P q = q"
proof -
  have "tbl_delete P (waits q) = waits q" using assms by (simp add: tbl_delete_def)
  then show ?thesis by (simp add: delete_waits_def)
qed

lemma queue_inv_awake:
  assumes "queue_inv q" "find_run i q = Some r" "r_state r \<noteq> Sleeping" "w \<in> set (waits q)"
  shows "w_run w \<noteq> i"
  using wait_inv_awake [OF queue_inv_coreD queue_inv_waitD, OF assms(1) assms(1) _ assms(3,4)]
    find_runD [OF assms(2)] by simp

lemma complete_run_inv:
  assumes inv: "queue_inv q" and c: "complete_run now i p q = Inr q'"
  shows "queue_inv q'"
proof -
  from c obtain r where r: "find_run i q = Some r" "r_state r = Running"
    by (auto simp: complete_run_def split: option.splits if_splits)
  have q': "q' = delete_waits (\<lambda>w. w_run w = i)
      (update_tasks (\<lambda>t. t_id t = r_task r)
        (\<lambda>t. t\<lparr>t_state := Completed, t_completed_payload := p, t_last_attempt_run := Some i\<rparr>)
        (update_runs (\<lambda>x. r_id x = i)
          (\<lambda>x. x\<lparr>r_state := Completed, r_completed_at := Some now, r_result := p\<rparr>) q))"
    using c r by (simp add: complete_run_def)
  show ?thesis unfolding q'
    by (rule queue_inv_move [OF inv r(1)]) (simp_all add: r(2) active_def agrees_def)
qed

lemma schedule_run_inv:
  assumes inv: "queue_inv q" and c: "schedule_run i w q = Inr q'"
  shows "queue_inv q'"
proof -
  from c obtain r where t: "tbl_find (\<lambda>r. r_id r = i \<and> r_state r = Running) (runs q) = Some r"
    by (auto simp: schedule_run_def split: option.splits)
  then have rd: "r \<in> set (runs q)" "r_id r = i" "r_state r = Running" by (auto dest: tbl_find_SomeD)
  then have r: "find_run i q = Some r" using find_run_eq [OF inv rd(1)] by simp
  have "q' = update_tasks (\<lambda>t. t_id t = r_task r) (\<lambda>t. t\<lparr>t_state := Sleeping\<rparr>)
      (update_runs (\<lambda>x. r_id x = i)
        (\<lambda>x. x\<lparr>r_state := Sleeping, r_claimed_by := None, r_claim_expires_at := None,
               r_available_at := At w, r_wake_event := None\<rparr>) q)" (is "_ = ?q")
    using c t by (simp add: schedule_run_def)
  also have "?q = delete_waits (\<lambda>w. w_run w = i) ?q"
    using queue_inv_awake [OF inv r] rd(3)
    by (intro delete_no_waits [symmetric]) (simp add: store_updates)
  finally show ?thesis
    using queue_inv_move [OF inv r, of "\<lambda>x. x\<lparr>r_state := Sleeping, r_claimed_by := None,
        r_claim_expires_at := None, r_available_at := At w, r_wake_event := None\<rparr>"
        "\<lambda>t. t\<lparr>t_state := Sleeping\<rparr>"] rd
    by (simp add: active_def agrees_def newest_run_def)
qed

section \<open>New runs and tasks\<close>

lemma queue_inv_add_run:
  assumes inv: "queue_inv q" and t: "t \<in> set (tasks q)" "terminal (t_state t)"
    and new: "r_id r = uuids q" "r_task r = t_id t" "r_attempt r = t_attempts t + 1"
    and g: "t_id (g t) = t_id t" "newest_run (g t) r"
  shows "queue_inv (update_tasks (\<lambda>x. t_id x = t_id t) g
    (q\<lparr>runs := runs q @ [r], uuids := Suc (uuids q)\<rparr>))"
  using core_inv_add_run [where g = g, OF queue_inv_coreD [OF inv] t new g]
    wait_inv_append [OF queue_inv_waitD [OF inv]] queue_inv_keyD [OF inv]
  by (simp add: queue_inv_def store_updates)

lemma tbl_update_twice:
  assumes "\<And>x. P (f x) = P x" "\<And>x. g (f x) = g x"
  shows "tbl_update P g (tbl_update P f rs) = tbl_update P g rs"
  using assms by (simp add: tbl_update_def)

lemma fail_outcome_inv:
  assumes inv: "queue_inv q" and r: "find_run i q = Some r" "r_state r = Running \<or> r_state r = Sleeping"
  shows "queue_inv (delete_waits (\<lambda>w. w_run w = i)
    (apply_fail_outcome now r outcome (mark_run_failed now i reason q)))"
proof -
  have rd: "r \<in> set (runs q)" "r_id r = i" using find_runD [OF r(1)] by simp_all
  have act: "active (r_state r)" using r(2) by (auto simp: active_def)
  let ?f = "\<lambda>x. x\<lparr>r_state := Failed, r_wake_event := None, r_failed_at := Some now, r_failure_reason := reason\<rparr>"
  have settled: "queue_inv (delete_waits (\<lambda>w. w_run w = i)
      (settle_task (r_task r) st (r_attempt r) i c (mark_run_failed now i reason q)))"
    if "st = Failed \<or> st = Cancelled" for st c
    unfolding settle_task_def mark_run_failed_def
    by (rule queue_inv_move [OF inv r(1) act]) (use that in \<open>auto simp: agrees_def newest_run_def\<close>)
  show ?thesis
  proof (cases outcome)
    case Give_up
    then show ?thesis using settled [of Failed] rd by (simp add: apply_fail_outcome_def)
  next
    case Cancel_task
    then show ?thesis using settled [of Cancelled] rd by (simp add: apply_fail_outcome_def)
  next
    case (Retry_at due)
    define st where "st = (if due > now then Sleeping else Pending)"
    define new where "new = new_run (uuids q) (r_task r) (r_attempt r + 1) st due now"
    define qa where "qa = delete_waits (\<lambda>w. w_run w = i)
      (settle_task (r_task r) Failed (r_attempt r) i None (mark_run_failed now i reason q))"
    have inva: "queue_inv qa" unfolding qa_def by (rule settled) simp
    obtain t where t: "t \<in> set (tasks q)" "t_id t = r_task r"
      using find_run_same_task [OF inv r(1)] by blast
    have newest: "newest_run t r"
      using core_inv_active [OF queue_inv_coreD [OF inv] t(1) rd(1) _ act] t(2) by simp
    let ?settle = "\<lambda>st n l x. x\<lparr>t_state := st, t_attempts := max (t_attempts x) n,
      t_last_attempt_run := Some l, t_cancelled_at := (case t_cancelled_at x of None \<Rightarrow> None | c \<Rightarrow> c)\<rparr>"
    define ta where "ta = ?settle Failed (r_attempt r) i t"
    have "ta \<in> set (tasks qa)"
      using t by (auto simp: ta_def qa_def settle_task_def mark_run_failed_def store_updates tbl_simps
          intro!: bexI [of _ t])
    moreover have "terminal (t_state ta)" "t_id ta = r_task r" "t_attempts ta = r_attempt r"
      using t(2) newest by (auto simp: ta_def terminal_def newest_run_def)
    ultimately have ta: "ta \<in> set (tasks qa)" "terminal (t_state ta)" "t_id ta = r_task r"
      "t_attempts ta = r_attempt r" by simp_all
    have added: "queue_inv (update_tasks (\<lambda>x. t_id x = t_id ta) (?settle st (r_attempt r + 1) (uuids qa))
        (qa\<lparr>runs := runs qa @ [new], uuids := Suc (uuids qa)\<rparr>))"
      by (rule queue_inv_add_run [OF inva ta(1,2)])
        (simp_all add: new_def new_run_def ta newest_run_def agrees_def qa_def settle_task_def
          mark_run_failed_def store_updates)
    have twice: "tbl_update (\<lambda>x. t_id x = r_task r) (?settle st (r_attempt r + 1) l)
        (tbl_update (\<lambda>x. t_id x = r_task r) (?settle Failed (r_attempt r) i) ts)
      = tbl_update (\<lambda>x. t_id x = r_task r) (?settle st (r_attempt r + 1) l) ts" for st l ts
      by (rule tbl_update_twice) (auto simp: max_def split: option.splits)
    have "update_tasks (\<lambda>x. t_id x = t_id ta) (?settle st (r_attempt r + 1) (uuids qa))
        (qa\<lparr>runs := runs qa @ [new], uuids := Suc (uuids qa)\<rparr>)
      = delete_waits (\<lambda>w. w_run w = i)
          (apply_fail_outcome now r outcome (mark_run_failed now i reason q))"
      unfolding Retry_at apply_fail_outcome_def qa_def settle_task_def mark_run_failed_def
        store_updates fail_outcome.case Let_def
      by (simp add: ta(3) st_def new_def twice)
    with added show ?thesis by simp
  qed
qed

lemma fail_run_inv:
  assumes inv: "queue_inv q" and c: "fail_run now i reason retry_at q = Inr q'"
  shows "queue_inv q'"
proof -
  from c obtain r outcome where "find_run i q = Some r" "r_state r = Running \<or> r_state r = Sleeping"
    and "q' = delete_waits (\<lambda>w. w_run w = i)
      (apply_fail_outcome now r outcome (mark_run_failed now i reason q))"
    by (auto simp: fail_run_def bind_result_Inr split: option.splits if_splits)
  then show ?thesis using fail_outcome_inv [OF inv] by simp
qed

lemma insert_task_inv:
  assumes inv: "queue_inv q" and ids: "t = uuids q" "r = Suc t" "m = Suc r"
  shows "queue_inv (insert_task now t r name p cols (q\<lparr>uuids := m\<rparr>))"
  using core_inv_add_task [OF queue_inv_coreD [OF inv], of
      "last (tasks (insert_task now t r name p cols (q\<lparr>uuids := m\<rparr>)))" m
      "last (runs (insert_task now t r name p cols (q\<lparr>uuids := m\<rparr>)))"]
    wait_inv_append [OF queue_inv_waitD [OF inv]] queue_inv_keyD [OF inv] ids
  by (simp add: queue_inv_def insert_task_def new_run_def newest_run_def agrees_def)

lemma insert_task_idempotency [simp]:
  "insert_task now t r name p cols (q\<lparr>idempotency := xs\<rparr>)
    = (insert_task now t r name p cols q)\<lparr>idempotency := xs\<rparr>"
  by (simp add: insert_task_def)

lemma queue_inv_other_fields [simp]:
  "queue_inv (q\<lparr>idempotency := xs\<rparr>) = queue_inv q"
  by (simp add: queue_inv_def)

lemma queue_inv_uuids: "queue_inv q \<Longrightarrow> uuids q \<le> m \<Longrightarrow> queue_inv (q\<lparr>uuids := m\<rparr>)"
  by (auto simp: queue_inv_def intro: core_inv_mono)

lemma spawn_task_cases:
  assumes "spawn_task now name p opts q = Inr (row, q')"
  obtains (created) cols xs where "read_spawn_options opts = Inr cols" "s_created row"
      "row = \<lparr>s_task = uuids q, s_run = Some (Suc (uuids q)), s_attempt = 1, s_created = True\<rparr>"
      "q' = (insert_task now (uuids q) (Suc (uuids q)) name (case p of None \<Rightarrow> JNull | Some j \<Rightarrow> j) cols
               (q\<lparr>uuids := Suc (Suc (uuids q))\<rparr>))\<lparr>idempotency := xs\<rparr>"
      "xs = idempotency q @ (case (q_mode q, sc_idempotency_key cols) of
         (Partitioned, Some k) \<Rightarrow> [(k, uuids q)] | _ \<Rightarrow> [])"
      "\<forall>k. sc_idempotency_key cols = Some k \<longrightarrow> (case q_mode q of
         Partitioned \<Rightarrow> map_of (idempotency q) k = None
       | Unpartitioned \<Rightarrow> \<forall>t \<in> set (tasks q). t_idempotency_key t \<noteq> Some k)"
  | (existing) cols t k where "read_spawn_options opts = Inr cols" "sc_idempotency_key cols = Some k"
      "\<not> s_created row" "t \<in> set (tasks q)"
      "row = \<lparr>s_task = t_id t, s_run = t_last_attempt_run t, s_attempt = t_attempts t, s_created = False\<rparr>"
      "q' = q\<lparr>uuids := Suc (Suc (uuids q))\<rparr>"
      "case q_mode q of Partitioned \<Rightarrow> map_of (idempotency q) k = Some (t_id t)
       | Unpartitioned \<Rightarrow> t_idempotency_key t = Some k"
proof -
  from assms obtain cols where cols: "read_spawn_options opts = Inr cols"
    by (auto simp: spawn_task_def Let_def bind_result_Inr split: if_splits)
  show ?thesis
  proof (cases "sc_idempotency_key cols")
    case None
    with assms cols show ?thesis
      by (intro created) (auto simp: spawn_task_def Let_def insert_task_def split: if_splits storage_mode.splits)
  next
    case (Some k)
    show ?thesis
    proof (cases "s_created row")
      case True
      show ?thesis
        using assms cols Some True
        by (intro created [OF cols True])
          (auto simp: spawn_task_def Let_def insert_task_def tbl_simps
            split: if_splits storage_mode.splits option.splits)
    next
      case False
      from assms cols Some False obtain t where t: "t \<in> set (tasks q)"
        "row = \<lparr>s_task = t_id t, s_run = t_last_attempt_run t, s_attempt = t_attempts t, s_created = False\<rparr>"
        "q' = q\<lparr>uuids := Suc (Suc (uuids q))\<rparr>"
        "case q_mode q of Partitioned \<Rightarrow> map_of (idempotency q) k = Some (t_id t)
           | Unpartitioned \<Rightarrow> t_idempotency_key t = Some k"
        by (auto simp: spawn_task_def Let_def find_task_def dest!: tbl_find_SomeD
            split: if_splits storage_mode.splits option.splits)
      then show ?thesis using cols Some False by (intro existing)
    qed
  qed
qed

lemma spawn_task_inv:
  assumes inv: "queue_inv q" and c: "spawn_task now name p opts q = Inr (row, q')"
  shows "queue_inv q'"
  using c
proof (cases rule: spawn_task_cases)
  case (created cols xs)
  then show ?thesis using insert_task_inv [OF inv refl refl refl] by simp
next
  case (existing cols t k)
  then show ?thesis using queue_inv_uuids [OF inv] by simp
qed

lemma retry_task_inv:
  assumes inv: "queue_inv q" and c: "retry_task now i opts q = Inr (row, q')"
  shows "queue_inv q'"
proof -
  from c obtain spawn_new requested where o1: "read_retry_options opts = Inr (spawn_new, requested)"
    by (cases "read_retry_options opts") (auto simp: retry_task_def)
  with c obtain t where o2: "find_task i q = Some t"
    by (cases "find_task i q") (auto simp: retry_task_def)
  with c o1 have "t_state t = Failed"
    by (cases "t_state t = Failed") (auto simp: retry_task_def)
  note o = o1 o2 this
  show ?thesis
  proof (cases spawn_new)
    case True
    with c o have "spawn_task now (t_name t) (Some (t_params t)) (Some (respawn_options t requested)) q
      = Inr (row, q')" by (simp add: retry_task_def)
    then show ?thesis by (rule spawn_task_inv [OF inv])
  next
    case False
    define m where "m = (case requested of Some n \<Rightarrow> n
      | None \<Rightarrow> (case t_max_attempts t of Some n \<Rightarrow> n | None \<Rightarrow> t_attempts t) + 1)"
    have td: "t \<in> set (tasks q)" "t_id t = i" using find_taskD [OF o(2)] by simp_all
    have q': "q' = update_tasks (\<lambda>x. t_id x = t_id t)
       (\<lambda>x. x\<lparr>t_state := Pending, t_attempts := max (t_attempts x) (t_attempts t + 1),
              t_max_attempts := Some m, t_last_attempt_run := Some (uuids q), t_cancelled_at := None\<rparr>)
       (q\<lparr>runs := runs q @ [new_run (uuids q) i (t_attempts t + 1) Pending now now],
          uuids := Suc (uuids q)\<rparr>)"
      using c o False td by (auto simp: retry_task_def Let_def m_def split: if_splits)
    show ?thesis unfolding q'
      by (rule queue_inv_add_run [OF inv td(1)])
        (simp_all add: o(3) terminal_def new_run_def td(2) newest_run_def agrees_def)
  qed
qed

section \<open>Updates that leave the states alone\<close>

lemma queue_inv_update_runs:
  assumes inv: "queue_inv q"
    and f: "\<And>x. r_id (f x) = r_id x \<and> r_task (f x) = r_task x \<and> r_attempt (f x) = r_attempt x \<and>
      r_state (f x) = r_state x"
    and sleeping: "\<And>x. x \<in> set (runs q) \<Longrightarrow> P x \<Longrightarrow> r_state x = Sleeping \<Longrightarrow>
      r_wake_event (f x) = r_wake_event x \<and> r_available_at (f x) = r_available_at x"
  shows "queue_inv (update_runs P f q)"
proof -
  have "core_inv (tasks q) (tbl_update P f (runs q)) (uuids q)"
  proof -
    have "core_inv (tbl_update (\<lambda>_. False) id (tasks q)) (tbl_update P f (runs q)) (uuids q)"
      by (rule core_inv_update [OF queue_inv_coreD [OF inv]]) (auto simp: f newest_run_def agrees_def)
    then show ?thesis by (simp add: tbl_update_def)
  qed
  moreover have "wait_inv (waits q) (tbl_update P f (runs q))"
    using wait_inv_distinct [OF queue_inv_waitD [OF inv]] f sleeping
    by (intro wait_inv_update [OF queue_inv_waitD [OF inv]]) (auto simp: waits_for_def)
  ultimately show ?thesis using queue_inv_keyD [OF inv] by (simp add: queue_inv_def store_updates)
qed

lemma upsert_checkpoint_fields [simp]:
  "runs (upsert_checkpoint c q) = runs q" "tasks (upsert_checkpoint c q) = tasks q"
  "waits (upsert_checkpoint c q) = waits q" "events (upsert_checkpoint c q) = events q"
  "uuids (upsert_checkpoint c q) = uuids q"
  by (simp_all add: upsert_checkpoint_def)

lemma queue_inv_upsert_checkpoint: "queue_inv q \<Longrightarrow> queue_inv (upsert_checkpoint c q)"
  using key_inv_upsert [of q "events q" c] by (simp add: queue_inv_def)

lemma set_task_checkpoint_state_inv:
  assumes inv: "queue_inv q" and c: "set_task_checkpoint_state now i n st w ext q = Inr q'"
  shows "queue_inv q'"
proof -
  let ?ext = "update_runs (\<lambda>x. r_id x = w \<and> r_state x = Running \<and> r_claim_expires_at x \<noteq> None)
    (\<lambda>x. x\<lparr>r_claim_expires_at := Some (now + the ext * second)\<rparr>) q"
  have "queue_inv ?ext" by (rule queue_inv_update_runs [OF inv]) auto
  then show ?thesis
    using c inv
    by (auto simp: set_task_checkpoint_state_def Let_def intro!: queue_inv_upsert_checkpoint
        split: option.splits if_splits)
qed

lemma extend_claim_inv:
  assumes inv: "queue_inv q" and c: "extend_claim now i ext q = Inr q'"
  shows "queue_inv q'"
proof -
  have "queue_inv (update_runs (\<lambda>x. r_id x = i)
      (\<lambda>x. x\<lparr>r_claim_expires_at := Some (now + ext * second)\<rparr>) q)"
    by (rule queue_inv_update_runs [OF inv]) auto
  then show ?thesis using c by (auto simp: extend_claim_def split: option.splits if_splits)
qed

section \<open>Cancelling\<close>

lemma cancel_task_inv:
  assumes inv: "queue_inv q" and c: "cancel_task now i q = Inr q'"
  shows "queue_inv q'"
proof -
  from c obtain t where t: "find_task i q = Some t" by (auto simp: cancel_task_def split: option.splits)
  show ?thesis
  proof (cases "terminal (t_state t)")
    case True
    with c t inv show ?thesis by (simp add: cancel_task_def)
  next
    case False
    let ?P = "\<lambda>r. r_task r = i \<and> \<not> terminal (r_state r)" and ?Q = "\<lambda>t. t_id t = i"
    let ?f = "\<lambda>r. r\<lparr>r_state := Cancelled, r_claimed_by := None, r_claim_expires_at := None\<rparr>"
    let ?g = "\<lambda>t. t\<lparr>t_state := Cancelled,
      t_cancelled_at := (case t_cancelled_at t of None \<Rightarrow> Some now | c \<Rightarrow> c)\<rparr>"
    have td: "t \<in> set (tasks q)" "t_id t = i" using find_taskD [OF t] by simp_all
    have core: "core_inv (tbl_update ?Q ?g (tasks q)) (tbl_update ?P ?f (runs q)) (uuids q)"
    proof (rule core_inv_update [OF queue_inv_coreD [OF inv]])
      fix x r assume x: "x \<in> set (tasks q)" "r \<in> set (runs q)" "newest_run x r"
      show "agrees (if ?Q x then ?g x else x) (if ?P r then ?f r else r)"
      proof (cases "t_id x = i")
        case True
        then have "x = t" using x(1) td queue_inv_coreD [OF inv] by (metis core_inv_def key_inj)
        with x(3) False show ?thesis by (auto simp: newest_run_def agrees_def terminal_def)
      next
        case f: False
        with x(3) show ?thesis by (auto simp: newest_run_def)
      qed
    qed (auto simp: newest_run_def active_def)
    have "wait_inv (tbl_delete (\<lambda>w. w_task w = i) (waits q)) (tbl_update ?P ?f (runs q))"
      using wait_inv_distinct [OF queue_inv_waitD [OF inv]]
      by (intro wait_inv_update [OF queue_inv_waitD [OF inv]]) (auto simp: tbl_simps waits_for_def)
    with core False c t queue_inv_keyD [OF inv] show ?thesis
      by (auto simp: cancel_task_def queue_inv_def store_updates)
  qed
qed

lemma fold_result_invariant:
  assumes "fold_result f xs s = Inr s'" "P s"
    and "\<And>x s s'. x \<in> set xs \<Longrightarrow> P s \<Longrightarrow> f x s = Inr s' \<Longrightarrow> P s'"
  shows "P s'"
  using assms
proof (induction xs arbitrary: s)
  case Nil
  then show ?case by simp
next
  case (Cons x xs)
  from Cons.prems(1) obtain s1 where s1: "f x s = Inr s1" "fold_result f xs s1 = Inr s'"
    by (auto simp: bind_result_Inr)
  show ?case
  proof (rule Cons.IH [OF s1(2)])
    show "P s1" using Cons.prems(3) [OF _ Cons.prems(2) s1(1)] by simp
    show "\<And>x s s'. x \<in> set xs \<Longrightarrow> P s \<Longrightarrow> f x s = Inr s' \<Longrightarrow> P s'"
      using Cons.prems(3) by (meson list.set_intros(2))
  qed
qed

lemma apply_cancellations_inv:
  "queue_inv q \<Longrightarrow> apply_cancellations now q = Inr q' \<Longrightarrow> queue_inv q'"
  by (auto simp: apply_cancellations_def bind_result_Inr
      elim: fold_result_invariant [where P = queue_inv] intro: cancel_task_inv)

lemma sweep_expired_inv:
  "queue_inv q \<Longrightarrow> sweep_expired now n q = Inr q' \<Longrightarrow> queue_inv q'"
  unfolding sweep_expired_def
  by (erule fold_result_invariant [where P = queue_inv]) (auto intro: fail_run_inv)

section \<open>Claiming\<close>

lemma candidates_claimable: "r \<in> set (candidates now n q) \<Longrightarrow> r \<in> set (runs q) \<and> claimable now q r"
  unfolding candidates_def by (auto dest: in_set_takeD)

lemma candidates_distinct: "queue_inv q \<Longrightarrow> distinct (map r_id (candidates now n q))"
proof -
  assume "queue_inv q"
  then have "distinct (map r_id (filter (claimable now q) (runs q)))"
    by (simp add: queue_inv_def core_inv_def distinct_map_filter)
  then have "distinct (map r_id (sort_key (\<lambda>r. (r_available_at r, r_id r))
      (filter (claimable now q) (runs q))))"
    by (simp add: distinct_map)
  then show ?thesis unfolding candidates_def by (simp flip: take_map add: distinct_take)
qed

lemma take_runs_inv:
  assumes inv: "queue_inv q" and cs: "\<And>r. r \<in> set cs \<Longrightarrow> r \<in> set (runs q) \<and> claimable now q r"
  shows "queue_inv (take_runs now worker until cs q)"
proof -
  note core = queue_inv_coreD [OF inv]
  let ?P = "\<lambda>r. r_id r \<in> r_id ` set cs" and ?Q = "\<lambda>t. t_id t \<in> r_task ` set cs"
  let ?f = "\<lambda>r. r\<lparr>r_state := Running, r_claimed_by := Some worker, r_claim_expires_at := until,
              r_started_at := Some now, r_available_at := At now\<rparr>"
  let ?u = "\<lambda>t. the (tbl_find (\<lambda>r. r_task r = t_id t) cs)"
  let ?g = "\<lambda>t. let u = ?u t in t\<lparr>t_state := Running, t_attempts := max (t_attempts t) (r_attempt u),
                 t_first_started_at := (case t_first_started_at t of None \<Rightarrow> Some now | s \<Rightarrow> s),
                 t_last_attempt_run := Some (r_id u)\<rparr>"
  have waiting: "active (r_state r)" if "r \<in> set cs" for r
    using cs [OF that] by (auto simp: claimable_def active_def)
  have in_cs: "r \<in> set cs \<longleftrightarrow> ?P r" if "r \<in> set (runs q)" for r
    using that cs queue_inv_run_unique [OF core] by (metis imageE imageI)
  have claimed: "?u t = r \<and> r \<in> set cs"
    if "t \<in> set (tasks q)" "r \<in> set (runs q)" "newest_run t r" "?Q t" for t r
  proof -
    from that(4) obtain u where "tbl_find (\<lambda>r. r_task r = t_id t) cs = Some u"
      by (cases "tbl_find (\<lambda>r. r_task r = t_id t) cs") (auto simp: tbl_simps)
    then have u: "?u t = u" "u \<in> set cs" "r_task u = t_id t" by (auto dest: tbl_find_SomeD)
    then have "newest_run t u" using core_inv_active [OF core that(1)] cs waiting by blast
    then have "r_id u = r_id r" using that(3) by (simp add: newest_run_def)
    then show ?thesis using queue_inv_run_unique [OF core _ that(2)] u cs by metis
  qed
  have "core_inv (tbl_update ?Q ?g (tasks q)) (tbl_update ?P ?f (runs q)) (uuids q)"
  proof (rule core_inv_update [OF core])
    fix t r assume tr: "t \<in> set (tasks q)" "r \<in> set (runs q)" "newest_run t r"
    show "t_last_attempt_run (if ?Q t then ?g t else t) = Some (r_id r) \<and>
        t_attempts (if ?Q t then ?g t else t) = t_attempts t"
      using claimed [OF tr] tr(3) by (auto simp: newest_run_def Let_def)
    show "agrees (if ?Q t then ?g t else t) (if ?P r then ?f r else r)"
    proof (cases "?Q t")
      case True
      then have "?P r" using claimed [OF tr] by blast
      with True show ?thesis by (simp add: agrees_def Let_def)
    next
      case False
      then have "r \<notin> set cs" using tr(3) by (metis imageI newest_run_def)
      then have "\<not> ?P r" using in_cs tr(2) by blast
      with False tr(3) show ?thesis by (simp add: newest_run_def)
    qed
  next
    fix r assume "r \<in> set (runs q)" "?P r"
    then show "active (r_state r)" using in_cs waiting by blast
  qed (auto simp: Let_def)
  moreover have "wait_inv (tbl_delete (\<lambda>w. w_run w \<in> r_id ` set cs \<and> w_timeout_at w \<noteq> None \<and>
      the (w_timeout_at w) \<le> now) (waits q)) (tbl_update ?P ?f (runs q))"
  proof (rule wait_inv_update [OF queue_inv_waitD [OF inv]])
    fix w r assume w: "w \<in> set (tbl_delete (\<lambda>w. w_run w \<in> r_id ` set cs \<and> w_timeout_at w \<noteq> None \<and>
      the (w_timeout_at w) \<le> now) (waits q))" and r: "r \<in> set (runs q)" "waits_for w r"
    have "\<not> ?P r"
    proof
      assume p: "?P r"
      then have "r_available_at r \<le> At now" using in_cs r(1) cs by (auto simp: claimable_def)
      then have "w_timeout_at w \<noteq> None \<and> the (w_timeout_at w) \<le> now"
        using r(2) by (auto simp: waits_for_def split: option.splits)
      with p w r(2) show False by (auto simp: tbl_simps waits_for_def)
    qed
    then show "waits_for w (if ?P r then ?f r else r)" using r(2) by simp
  qed (use wait_inv_distinct [OF queue_inv_waitD [OF inv]] in \<open>auto simp: tbl_simps\<close>)
  ultimately show ?thesis
    using queue_inv_keyD [OF inv] by (simp add: take_runs_def queue_inv_def store_updates)
qed

lemma claim_task_cases:
  assumes "claim_task now worker timeout qty q = Inr (rows, q')"
  obtains q1 q2 where "apply_cancellations now q = Inr q1" "sweep_expired now (nat (max qty 1)) q1 = Inr q2"
    "rows = map (claimed_row q2) (candidates now (nat (max qty 1)) q2)"
    "q' = take_runs now (if worker = [] then ''worker'' else worker)
       (if timeout > 0 then Some (now + timeout * second) else None)
       (candidates now (nat (max qty 1)) q2) q2"
  using assms by (auto simp: claim_task_def Let_def bind_result_Inr max_def split: if_splits)

lemma claim_task_inv:
  assumes inv: "queue_inv q" and c: "claim_task now worker timeout qty q = Inr (rows, q')"
  shows "queue_inv q'"
  using c
proof (cases rule: claim_task_cases)
  case (1 q1 q2)
  then have "queue_inv q2" using inv apply_cancellations_inv sweep_expired_inv by blast
  then show ?thesis using 1 candidates_claimable by (simp add: take_runs_inv)
qed

section \<open>Events\<close>

lemma ensure_event_inv: "queue_inv q \<Longrightarrow> queue_inv (ensure_event n q)"
  by (auto simp: ensure_event_def queue_inv_def key_inv_def find_event_def tbl_simps
      split: option.splits)

lemma ensure_event_simps [simp]:
  "runs (ensure_event n q) = runs q" "tasks (ensure_event n q) = tasks q"
  "waits (ensure_event n q) = waits q" "checkpoints (ensure_event n q) = checkpoints q"
  "uuids (ensure_event n q) = uuids q"
  "find_run i (ensure_event n q) = find_run i q" "find_task i (ensure_event n q) = find_task i q"
  by (auto simp: ensure_event_def find_run_def find_task_def split: option.splits)

lemma register_wait_inv:
  assumes inv: "queue_inv q" and r: "find_run i q = Some r" "r_state r = Running" "r_task r = ti"
  shows "queue_inv (register_wait now ti i step ev timeout q)"
proof -
  let ?f = "\<lambda>r. r\<lparr>r_state := Sleeping, r_claimed_by := None, r_claim_expires_at := None,
      r_available_at := (case timeout of None \<Rightarrow> Infinity | Some t \<Rightarrow> At t),
      r_wake_event := Some ev, r_event_payload := None\<rparr>"
  let ?w = "\<lparr>w_task = ti, w_run = i, w_step = step, w_event = ev, w_timeout_at = timeout,
      w_created_at = now\<rparr>"
  have rd: "r \<in> set (runs q)" "r_id r = i" using find_runD [OF r(1)] by simp_all
  have awake: "w_run w \<noteq> i" if "w \<in> set (waits q)" for w
    using queue_inv_awake [OF inv r(1) _ that] r(2) by simp
  then have ws: "tbl_upsert (\<lambda>w. w_run w = i \<and> w_step w = step) g ?w (waits q) = waits q @ [?w]" for g
    by (auto simp: tbl_upsert_def list_ex_iff)
  have "core_inv (tbl_update (\<lambda>t. t_id t = r_task r) (\<lambda>t. t\<lparr>t_state := Sleeping\<rparr>) (tasks q))
      (tbl_update (\<lambda>x. r_id x = r_id r) ?f (runs q)) (uuids q)"
    by (rule core_inv_move [OF queue_inv_coreD [OF inv] rd(1)])
      (auto simp: r active_def agrees_def newest_run_def)
  moreover have "wait_inv (waits q @ [?w]) (tbl_update (\<lambda>x. r_id x = i) ?f (runs q))"
  proof -
    have old: "wait_inv (waits q) (tbl_update (\<lambda>x. r_id x = i) ?f (runs q))"
      using wait_inv_distinct [OF queue_inv_waitD [OF inv]] awake
      by (intro wait_inv_other_run [OF queue_inv_waitD [OF inv]]) auto
    have "?f r \<in> set (tbl_update (\<lambda>x. r_id x = i) ?f (runs q))"
      using rd by (auto simp: in_tbl_update)
    moreover have "waits_for ?w (?f r)" using rd r(3) by (simp add: waits_for_def split: option.splits)
    ultimately show ?thesis using old awake unfolding wait_inv_def by fastforce
  qed
  ultimately show ?thesis
    using queue_inv_keyD [OF inv] rd r(3) by (simp add: register_wait_def queue_inv_def store_updates ws)
qed

lemma await_event_inv:
  assumes inv: "queue_inv q" and c: "await_event now ti i step ev timeout q = Inr (row, q')"
    and own: "\<And>r. find_run i q = Some r \<Longrightarrow> r_task r = ti"
  shows "queue_inv q'"
proof (cases "Option.bind (find_checkpoint ti step q) c_state")
  case (Some saved)
  with c inv show ?thesis by (auto simp: await_event_def split: if_splits)
next
  case None
  note cp = None
  let ?e = "ensure_event ev q"
  have inve: "queue_inv ?e" by (rule ensure_event_inv [OF inv])
  from c cp obtain r t where r: "find_run i q = Some r" "r_state r = Running"
    "find_task (r_task r) q = Some t" "t_state t \<noteq> Cancelled"
    by (auto simp: await_event_def Let_def split: option.splits if_splits)
  define q1 where "q1 = (if r_event_payload r \<noteq> None
    then update_runs (\<lambda>x. r_id x = i) (\<lambda>x. x\<lparr>r_event_payload := None\<rparr>) ?e else ?e)"
  have inv1: "queue_inv q1"
    unfolding q1_def by (simp add: inve) (intro impI queue_inv_update_runs [OF inve]; simp)
  have run1: "\<exists>r1. find_run i q1 = Some r1 \<and> r_state r1 = Running \<and> r_task r1 = ti"
    using r own [OF r(1)] by (auto simp: q1_def find_run_update_runs)
  then obtain r1 where r1: "find_run i q1 = Some r1" "r_state r1 = Running" "r_task r1 = ti" by blast
  have wake: "queue_inv (update_runs (\<lambda>x. r_id x = i) (\<lambda>x. x\<lparr>r_wake_event := None\<rparr>) q1)"
  proof (rule queue_inv_update_runs [OF inv1])
    fix x assume "x \<in> set (runs q1)" "r_id x = i" "r_state x = Sleeping"
    moreover have "x = r1"
      using calculation find_runD [OF r1(1)] queue_inv_run_unique [OF queue_inv_coreD [OF inv1]] by blast
    ultimately show "r_wake_event (x\<lparr>r_wake_event := None\<rparr>) = r_wake_event x \<and>
        r_available_at (x\<lparr>r_wake_event := None\<rparr>) = r_available_at x" using r1(2) by simp
  qed simp
  have "(\<exists>cp. q' = upsert_checkpoint cp q1) \<or>
      q' = update_runs (\<lambda>x. r_id x = i) (\<lambda>x. x\<lparr>r_wake_event := None\<rparr>) q1 \<or>
      (\<exists>tm. q' = register_wait now ti i step ev tm q1)"
    using c cp r unfolding q1_def
    by (auto simp: await_event_def Let_def split: option.splits if_splits)
  then show ?thesis
    using inv1 wake register_wait_inv [OF inv1 r1] queue_inv_upsert_checkpoint by auto
qed

lemma record_event_inv:
  assumes "queue_inv q" "record_event now n p q = Some q'"
  shows "queue_inv q'"
proof -
  have "map e_name (tbl_update (\<lambda>e. e_name e = n) (\<lambda>e. e\<lparr>e_payload := Some p, e_emitted_at := now\<rparr>)
      (events q)) = map e_name (events q)"
    by (intro map_tbl_update) simp
  then show ?thesis
    using assms by (auto simp: record_event_def queue_inv_def key_inv_def find_event_def tbl_simps
        split: option.splits if_splits)
qed

lemma fold_upsert_checkpoint:
  "queue_inv q \<Longrightarrow> queue_inv (fold (\<lambda>w. upsert_checkpoint (h w)) ws q)"
  "runs (fold (\<lambda>w. upsert_checkpoint (h w)) ws q) = runs q"
  "tasks (fold (\<lambda>w. upsert_checkpoint (h w)) ws q) = tasks q"
  "waits (fold (\<lambda>w. upsert_checkpoint (h w)) ws q) = waits q"
  "events (fold (\<lambda>w. upsert_checkpoint (h w)) ws q) = events q"
  "uuids (fold (\<lambda>w. upsert_checkpoint (h w)) ws q) = uuids q"
  by (induction ws arbitrary: q) (auto simp: queue_inv_upsert_checkpoint)

lemma wake_waiters_inv:
  assumes inv0: "queue_inv q0"
  shows "queue_inv (wake_waiters now n p q0)"
proof -
  define ids where "ids = w_run ` set (woken_waits now n q0)"
  define owners where "owners = r_task ` {r \<in> set (runs q0). r_id r \<in> ids}"
  define q where "q = fold (\<lambda>w. upsert_checkpoint \<lparr>c_task = w_task w, c_name = w_step w, c_state = Some p,
    c_status = ''committed'', c_owner_run = Some (w_run w), c_updated_at = now\<rparr>) (woken_waits now n q0) q0"
  have inv: "queue_inv q" unfolding q_def by (rule fold_upsert_checkpoint(1) [OF inv0])
  have same: "runs q = runs q0" "waits q = waits q0" by (simp_all add: q_def fold_upsert_checkpoint)
  note core = queue_inv_coreD [OF inv]
  let ?f = "\<lambda>r. r\<lparr>r_state := Pending, r_available_at := At now, r_wake_event := None,
                  r_event_payload := Some p, r_claimed_by := None, r_claim_expires_at := None\<rparr>"
  have asleep: "r_state r = Sleeping" if "r \<in> set (runs q)" "r_id r \<in> ids" for r
  proof -
    from that(2) obtain x where "x \<in> set (runs q0)" "r_id x = r_id r" "r_state x = Sleeping"
      by (auto simp: ids_def woken_waits_def)
    then show ?thesis using queue_inv_run_unique [OF core _ that(1)] same by metis
  qed
  have "core_inv (tbl_update (\<lambda>t. t_id t \<in> owners) (\<lambda>t. t\<lparr>t_state := Pending\<rparr>) (tasks q))
      (tbl_update (\<lambda>r. r_id r \<in> ids) ?f (runs q)) (uuids q)"
  proof (rule core_inv_update [OF core])
    fix t r assume tr: "t \<in> set (tasks q)" "r \<in> set (runs q)" "newest_run t r"
    have "t_id t \<in> owners \<longleftrightarrow> r_id r \<in> ids"
    proof
      assume "t_id t \<in> owners"
      then obtain u where u: "u \<in> set (runs q)" "r_id u \<in> ids" "r_task u = t_id t"
        using same by (auto simp: owners_def)
      then have "newest_run t u"
        using core_inv_active [OF core tr(1) u(1,3)] asleep [OF u(1,2)] by (simp add: active_def)
      with tr(3) u(2) show "r_id r \<in> ids" by (simp add: newest_run_def)
    next
      assume "r_id r \<in> ids"
      with tr same show "t_id t \<in> owners" by (force simp: owners_def newest_run_def)
    qed
    with tr(3) show "agrees (if t_id t \<in> owners then t\<lparr>t_state := Pending\<rparr> else t)
        (if r_id r \<in> ids then ?f r else r)"
      by (auto simp: newest_run_def agrees_def)
  next
    fix r assume "r \<in> set (runs q)" "r_id r \<in> ids"
    then show "active (r_state r)" using asleep by (simp add: active_def)
  qed (auto simp: newest_run_def)
  moreover have "wait_inv (tbl_delete (\<lambda>w. w_event w = n \<and> (\<not> wait_live now w \<or> w_run w \<in> ids)) (waits q))
      (tbl_update (\<lambda>r. r_id r \<in> ids) ?f (runs q))"
  proof (rule wait_inv_update [OF queue_inv_waitD [OF inv]])
    fix w r assume w: "w \<in> set (tbl_delete (\<lambda>w. w_event w = n \<and> (\<not> wait_live now w \<or> w_run w \<in> ids)) (waits q))"
      and r: "r \<in> set (runs q)" "waits_for w r"
    have "r_id r \<notin> ids"
    proof
      assume "r_id r \<in> ids"
      then obtain v where v: "v \<in> set (waits q)" "w_run v = r_id r" "w_event v = n"
        using same by (auto simp: ids_def woken_waits_def)
      moreover have "w_run w = r_id r" "w \<in> set (waits q)" using r(2) w by (auto simp: waits_for_def tbl_simps)
      ultimately have "w = v"
        using wait_inv_distinct [OF queue_inv_waitD [OF inv]] by (metis key_inj)
      with w v \<open>r_id r \<in> ids\<close> show False by (auto simp: tbl_simps)
    qed
    then show "waits_for w (if r_id r \<in> ids then ?f r else r)" using r(2) by simp
  qed (use wait_inv_distinct [OF queue_inv_waitD [OF inv]] in \<open>auto simp: tbl_simps\<close>)
  ultimately have "queue_inv (delete_waits (\<lambda>w. w_event w = n \<and> (\<not> wait_live now w \<or> w_run w \<in> ids))
      (update_tasks (\<lambda>t. t_id t \<in> owners) (\<lambda>t. t\<lparr>t_state := Pending\<rparr>)
      (update_runs (\<lambda>r. r_id r \<in> ids) ?f q)))"
    using queue_inv_keyD [OF inv] by (simp add: queue_inv_def store_updates)
  then show ?thesis
    by (simp add: wake_waiters_def Let_def ids_def [symmetric] owners_def [symmetric] q_def [symmetric])
qed

lemma emit_event_inv:
  assumes "queue_inv q" "emit_event now n p q = Inr q'"
  shows "queue_inv q'"
  using assms record_event_inv wake_waiters_inv
  by (auto simp: emit_event_def Let_def split: if_splits option.splits)

section \<open>Reachable queues\<close>

text \<open>
  One call of a stored function by any client, with the run's own task where the SDKs pass both.
  A call that raises leaves the queue as it is, so it is no step.
\<close>

inductive queue_step :: "qstate \<Rightarrow> qstate \<Rightarrow> bool" where
  spawn: "spawn_task now n p opts q = Inr (row, q') \<Longrightarrow> queue_step q q'"
| claim: "claim_task now worker timeout qty q = Inr (claimed, q') \<Longrightarrow> queue_step q q'"
| complete: "complete_run now i p q = Inr q' \<Longrightarrow> queue_step q q'"
| schedule: "schedule_run i w q = Inr q' \<Longrightarrow> queue_step q q'"
| fail: "fail_run now i reason retry_at q = Inr q' \<Longrightarrow> queue_step q q'"
| retry: "retry_task now ti opts q = Inr (row, q') \<Longrightarrow> queue_step q q'"
| cancel: "cancel_task now ti q = Inr q' \<Longrightarrow> queue_step q q'"
| checkpoint: "set_task_checkpoint_state now ti n st i ext q = Inr q' \<Longrightarrow>
    find_run i q = Some r \<Longrightarrow> r_task r = ti \<Longrightarrow> queue_step q q'"
| extend: "extend_claim now i ext q = Inr q' \<Longrightarrow> queue_step q q'"
| await: "await_event now ti i step ev timeout q = Inr (w, q') \<Longrightarrow>
    find_run i q = Some r \<Longrightarrow> r_task r = ti \<Longrightarrow> queue_step q q'"
| emit: "emit_event now n p' q = Inr q' \<Longrightarrow> queue_step q q'"

inductive reachable :: "storage_mode \<Rightarrow> qstate \<Rightarrow> bool" for mode where
  start: "reachable mode (empty_queue mode)"
| step: "reachable mode q \<Longrightarrow> queue_step q q' \<Longrightarrow> reachable mode q'"

lemma queue_step_inv: "queue_step q q' \<Longrightarrow> queue_inv q \<Longrightarrow> queue_inv q'"
proof (induction rule: queue_step.induct)
  case (await now ti i step ev timeout q w q' r)
  then show ?case using await_event_inv [OF await.prems await.hyps(1)] by simp
qed (blast intro: spawn_task_inv claim_task_inv complete_run_inv schedule_run_inv fail_run_inv
      retry_task_inv cancel_task_inv set_task_checkpoint_state_inv extend_claim_inv emit_event_inv)+

lemma reachable_inv: "reachable mode q \<Longrightarrow> queue_inv q"
  by (induction rule: reachable.induct) (auto intro: queue_inv_empty queue_step_inv)

end
