(* ===== verification/Task_Life.thy ===== *)
theory Task_Life
  imports Store_Inv
begin

text \<open>
  The life of a task across the operations of \<open>Store\<close>: which fields of a task row an operation may
  change (\<open>task_change\<close>), and that every operation changes the rows of a queue in this way only, adding
  new rows at the end (\<open>evolves\<close>). The properties of the root theory that speak of any number of
  operations (results are final, attempts stay within their bound, an idempotency key keeps its task)
  follow by rule induction.
\<close>

section \<open>Changes of a task row\<close>

definition bounded :: "task_row \<Rightarrow> bool" where
  "bounded t \<longleftrightarrow> (case t_max_attempts t of None \<Rightarrow> True | Some m \<Rightarrow> t_attempts t \<le> m)"

lemma bounded_iff: "bounded t \<longleftrightarrow> (\<forall>m. t_max_attempts t = Some m \<longrightarrow> t_attempts t \<le> m)"
  by (simp add: bounded_def split: option.splits)

definition task_change :: "task_row \<Rightarrow> task_row \<Rightarrow> bool" where
  "task_change t t' \<longleftrightarrow>
     t_id t' = t_id t \<and> t_name t' = t_name t \<and> t_params t' = t_params t \<and>
     t_headers t' = t_headers t \<and> t_enqueue_at t' = t_enqueue_at t \<and>
     t_idempotency_key t' = t_idempotency_key t \<and> t_attempts t \<le> t_attempts t' \<and>
     (t_last_attempt_run t \<noteq> None \<longrightarrow> t_last_attempt_run t' \<noteq> None) \<and>
     (t_first_started_at t \<noteq> None \<longrightarrow> t_first_started_at t' = t_first_started_at t) \<and>
     (bounded t \<longrightarrow> bounded t') \<and>
     (t_state t = Completed \<or> t_state t = Cancelled \<longrightarrow> t' = t)"

lemma task_change_refl [simp]: "task_change t t"
  by (simp add: task_change_def)

lemma task_change_trans: "task_change t u \<Longrightarrow> task_change u v \<Longrightarrow> task_change t v"
  unfolding task_change_def by (elim conjE, intro conjI impI) auto

lemma task_changeD:
  "task_change t t' \<Longrightarrow> t_id t' = t_id t"
  "task_change t t' \<Longrightarrow> t_idempotency_key t' = t_idempotency_key t"
  "task_change t t' \<Longrightarrow> bounded t \<Longrightarrow> bounded t'"
  by (simp_all add: task_change_def)

definition evolves :: "qstate \<Rightarrow> qstate \<Rightarrow> bool" where
  "evolves q q' \<longleftrightarrow> q_mode q' = q_mode q \<and> (\<exists>zs. idempotency q' = idempotency q @ zs) \<and>
     (\<exists>f new. tasks q' = map f (tasks q) @ new \<and> (\<forall>t \<in> set (tasks q). task_change t (f t)) \<and>
        (\<forall>t \<in> set new. bounded t \<and> t_last_attempt_run t \<noteq> None))"

lemma evolvesI:
  assumes "tasks q' = map f (tasks q) @ new" "\<And>t. t \<in> set (tasks q) \<Longrightarrow> task_change t (f t)"
    "\<And>t. t \<in> set new \<Longrightarrow> bounded t \<and> t_last_attempt_run t \<noteq> None"
    "q_mode q' = q_mode q" "idempotency q' = idempotency q @ zs"
  shows "evolves q q'"
  unfolding evolves_def using assms by blast

lemma evolves_same:
  assumes "tasks q' = tasks q" "q_mode q' = q_mode q" "idempotency q' = idempotency q"
  shows "evolves q q'"
  by (rule evolvesI [of _ id _ "[]" "[]"]) (simp_all add: assms)

lemma evolves_trans:
  assumes "evolves q1 q2" "evolves q2 q3"
  shows "evolves q1 q3"
proof -
  obtain f n where f: "tasks q2 = map f (tasks q1) @ n" "\<forall>t \<in> set (tasks q1). task_change t (f t)"
    "\<forall>t \<in> set n. bounded t \<and> t_last_attempt_run t \<noteq> None"
    using assms(1) by (auto simp: evolves_def)
  obtain g m where g: "tasks q3 = map g (tasks q2) @ m" "\<forall>t \<in> set (tasks q2). task_change t (g t)"
    "\<forall>t \<in> set m. bounded t \<and> t_last_attempt_run t \<noteq> None"
    using assms(2) by (auto simp: evolves_def)
  obtain z1 z2 where z: "idempotency q2 = idempotency q1 @ z1" "idempotency q3 = idempotency q2 @ z2"
    using assms by (auto simp: evolves_def)
  show ?thesis
  proof (rule evolvesI [of _ "g \<circ> f" _ "map g n @ m" "z1 @ z2"])
    show "tasks q3 = map (g \<circ> f) (tasks q1) @ map g n @ m" using f(1) g(1) by simp
    show "task_change t ((g \<circ> f) t)" if "t \<in> set (tasks q1)" for t
      using that f g(2) by (auto intro: task_change_trans)
    show "bounded t \<and> t_last_attempt_run t \<noteq> None" if "t \<in> set (map g n @ m)" for t
      using that f g by (auto simp: task_change_def)
  qed (use assms z in \<open>auto simp: evolves_def\<close>)
qed

lemma evolves_update_tasks:
  assumes "\<And>t. t \<in> set (tasks q) \<Longrightarrow> P t \<Longrightarrow> task_change t (g t)"
  shows "evolves q (update_tasks P g q)"
  by (rule evolvesI [of _ "\<lambda>t. if P t then g t else t" _ "[]" "[]"])
    (auto simp: store_updates tbl_update_def assms)

lemma evolves_tasks_cong:
  assumes "evolves q q1" "tasks q' = tasks q1" "q_mode q' = q_mode q1" "idempotency q' = idempotency q1"
  shows "evolves q q'"
  using evolves_trans [OF assms(1) evolves_same] assms(2-4) by blast

section \<open>Every operation\<close>

text \<open>The task of a run that is pending, running or sleeping is active, and the run is its newest.\<close>

lemma active_task:
  assumes "queue_inv q" "r \<in> set (runs q)" "active (r_state r)" "t \<in> set (tasks q)" "t_id t = r_task r"
  shows "t_state t = r_state r" "t_attempts t = r_attempt r" "t_last_attempt_run t = Some (r_id r)"
  using core_inv_active [OF queue_inv_coreD [OF assms(1)] assms(4,2)] assms(3,5)
    core_inv_active_state [OF queue_inv_coreD [OF assms(1)] assms(4,2)]
  by (simp_all add: newest_run_def)

lemma complete_run_evolves:
  assumes inv: "queue_inv q" and c: "complete_run now i p q = Inr q'"
  shows "evolves q q'"
proof -
  from c obtain r where r: "find_run i q = Some r" "r_state r = Running"
    by (auto simp: complete_run_def split: option.splits if_splits)
  let ?g = "\<lambda>t. t\<lparr>t_state := Completed, t_completed_payload := p, t_last_attempt_run := Some i\<rparr>"
  have "evolves q (update_tasks (\<lambda>t. t_id t = r_task r) ?g q)"
  proof (rule evolves_update_tasks)
    fix t assume t: "t \<in> set (tasks q)" "t_id t = r_task r"
    then have "t_state t = Running"
      using active_task(1) [OF inv] find_runD [OF r(1)] r(2) by (auto simp: active_def)
    then show "task_change t (?g t)" by (simp add: task_change_def bounded_iff)
  qed
  then show ?thesis
    by (rule evolves_tasks_cong) (use c r in \<open>auto simp: complete_run_def store_updates\<close>)
qed

lemma sleeping_change:
  assumes "queue_inv q" "r \<in> set (runs q)" "active (r_state r)" "t \<in> set (tasks q)" "t_id t = r_task r"
  shows "task_change t (t\<lparr>t_state := s\<rparr>)"
  using active_task(1) [OF assms] assms(3) by (auto simp: task_change_def bounded_iff active_def)

lemma schedule_run_evolves:
  assumes inv: "queue_inv q" and c: "schedule_run i w q = Inr q'"
  shows "evolves q q'"
proof -
  from c obtain r where t: "tbl_find (\<lambda>r. r_id r = i \<and> r_state r = Running) (runs q) = Some r"
    by (auto simp: schedule_run_def split: option.splits)
  then have r: "r \<in> set (runs q)" "r_state r = Running" by (auto dest: tbl_find_SomeD)
  have "evolves q (update_tasks (\<lambda>t. t_id t = r_task r) (\<lambda>t. t\<lparr>t_state := Sleeping\<rparr>) q)"
    by (rule evolves_update_tasks, rule sleeping_change [OF inv r(1)]) (simp_all add: r active_def)
  then show ?thesis
    by (rule evolves_tasks_cong) (use c t in \<open>auto simp: schedule_run_def store_updates\<close>)
qed

lemma fail_run_cases:
  assumes "fail_run now i reason retry_at q = Inr q'"
  obtains r outcome where "find_run i q = Some r" "r_state r = Running \<or> r_state r = Sleeping"
    "fail_decision now (find_task (r_task r) q) r retry_at = Inr outcome"
    "q' = delete_waits (\<lambda>w. w_run w = i)
      (apply_fail_outcome now r outcome (mark_run_failed now i reason q))"
  using assms by (auto simp: fail_run_def bind_result_Inr split: option.splits if_splits)

lemma fail_decision_retry:
  assumes "fail_decision now task r retry_at = Inr (Retry_at due)"
  shows "may_retry (Option.bind task t_max_attempts) (r_attempt r)"
  using assms by (auto simp: fail_decision_def split: if_splits)

lemma fail_run_evolves:
  assumes inv: "queue_inv q" and c: "fail_run now i reason retry_at q = Inr q'"
  shows "evolves q q'"
  using c
proof (cases rule: fail_run_cases)
  case (1 r outcome)
  have act: "r \<in> set (runs q)" "active (r_state r)" using 1 find_runD by (auto simp: active_def)
  define n where "n = (case outcome of Retry_at _ \<Rightarrow> r_attempt r + 1 | _ \<Rightarrow> r_attempt r)"
  have settle: "evolves q (settle_task (r_task r) st n l ca q)" for st l ca
    unfolding settle_task_def
  proof (rule evolves_update_tasks)
    fix t assume t: "t \<in> set (tasks q)" "t_id t = r_task r"
    note a = active_task [OF inv act t]
    have "find_task (r_task r) q = Some t" using find_task_eq [OF inv t(1)] t(2) by simp
    then have "outcome = Retry_at due \<Longrightarrow> may_retry (t_max_attempts t) (r_attempt r)" for due
      using fail_decision_retry 1(3) by fastforce
    then have "bounded t \<Longrightarrow> \<forall>m. t_max_attempts t = Some m \<longrightarrow> max (t_attempts t) n \<le> m"
      using a(2) by (auto simp: n_def bounded_iff may_retry_def split: option.splits fail_outcome.splits)
    then show "task_change t (t\<lparr>t_state := st, t_attempts := max (t_attempts t) n,
        t_last_attempt_run := Some l, t_cancelled_at := (case t_cancelled_at t of None \<Rightarrow> ca | c \<Rightarrow> c)\<rparr>)"
      using a(1) act(2) by (auto simp: task_change_def bounded_iff active_def)
  qed
  have "\<exists>st l ca. tasks q' = tasks (settle_task (r_task r) st n l ca q)"
    by (cases outcome) (force simp: 1(4) n_def apply_fail_outcome_def settle_task_def mark_run_failed_def
      store_updates Let_def)+
  moreover have "q_mode q' = q_mode q" "idempotency q' = idempotency q"
    by (auto simp: 1(4) apply_fail_outcome_def settle_task_def mark_run_failed_def
      store_updates Let_def split: fail_outcome.splits)
  ultimately show ?thesis
    using evolves_tasks_cong [OF settle] by (force simp: settle_task_def store_updates)
qed

lemma read_spawn_options_bound:
  "read_spawn_options opts = Inr cols \<Longrightarrow> sc_max_attempts cols = Some m \<Longrightarrow> 1 \<le> m"
  by (auto simp: read_spawn_options_def bind_result_Inr split: option.splits if_splits)

lemma spawn_task_evolves:
  assumes "spawn_task now name p opts q = Inr (row, q')"
  shows "evolves q q'"
  using assms
proof (cases rule: spawn_task_cases)
  case (created cols xs)
  show ?thesis
    by (rule evolvesI [of _ id]) (use created read_spawn_options_bound in
      \<open>auto simp: insert_task_def bounded_iff split: option.splits\<close>)
next
  case (existing cols t k)
  then show ?thesis by (intro evolves_same) simp_all
qed

lemma retry_task_cases:
  assumes "retry_task now i opts q = Inr (row, q')"
  obtains (respawn) t requested where "find_task i q = Some t" "t_state t = Failed"
      "read_retry_options opts = Inr (True, requested)"
      "spawn_task now (t_name t) (Some (t_params t)) (Some (respawn_options t requested)) q = Inr (row, q')"
  | (revive) t requested m where "find_task i q = Some t" "t_state t = Failed"
      "read_retry_options opts = Inr (False, requested)" "t_attempts t < m"
      "m = (case requested of Some n \<Rightarrow> n
         | None \<Rightarrow> (case t_max_attempts t of Some n \<Rightarrow> n | None \<Rightarrow> t_attempts t) + 1)"
      "row = \<lparr>s_task = i, s_run = Some (uuids q), s_attempt = t_attempts t + 1, s_created = False\<rparr>"
      "q' = update_tasks (\<lambda>x. t_id x = i)
         (\<lambda>x. x\<lparr>t_state := Pending, t_attempts := max (t_attempts x) (t_attempts t + 1),
                t_max_attempts := Some m, t_last_attempt_run := Some (uuids q), t_cancelled_at := None\<rparr>)
         (q\<lparr>runs := runs q @ [new_run (uuids q) i (t_attempts t + 1) Pending now now],
            uuids := Suc (uuids q)\<rparr>)"
proof -
  from assms obtain spawn_new requested where o1: "read_retry_options opts = Inr (spawn_new, requested)"
    by (cases "read_retry_options opts") (auto simp: retry_task_def)
  with assms obtain t where o2: "find_task i q = Some t"
    by (cases "find_task i q") (auto simp: retry_task_def)
  with assms o1 have o3: "t_state t = Failed"
    by (cases "t_state t = Failed") (auto simp: retry_task_def)
  show ?thesis
  proof (cases spawn_new)
    case True
    show ?thesis by (rule respawn [OF o2 o3]) (use True o1 o2 o3 assms in \<open>simp_all add: retry_task_def\<close>)
  next
    case False
    show ?thesis
      by (rule revive [OF o2 o3]) (use False o1 o2 o3 assms in
        \<open>auto simp: retry_task_def Let_def split: if_splits\<close>)
  qed
qed

lemma retry_task_evolves:
  assumes inv: "queue_inv q" and c: "retry_task now i opts q = Inr (row, q')"
  shows "evolves q q'"
  using c
proof (cases rule: retry_task_cases)
  case respawn
  then show ?thesis using spawn_task_evolves by blast
next
  case (revive t requested m)
  let ?g = "\<lambda>x. x\<lparr>t_state := Pending, t_attempts := max (t_attempts x) (t_attempts t + 1),
    t_max_attempts := Some m, t_last_attempt_run := Some (uuids q), t_cancelled_at := None\<rparr>"
  have "evolves q (update_tasks (\<lambda>x. t_id x = i) ?g q)"
  proof (rule evolves_update_tasks)
    fix x assume "x \<in> set (tasks q)" "t_id x = i"
    then have "x = t" using find_task_eq [OF inv] revive(1) by force
    then show "task_change x (?g x)" using revive(2,4) by (simp add: task_change_def bounded_iff)
  qed
  then show ?thesis by (rule evolves_tasks_cong) (simp_all add: revive(7) store_updates)
qed

lemma cancel_task_evolves:
  assumes inv: "queue_inv q" and c: "cancel_task now i q = Inr q'"
  shows "evolves q q'"
proof -
  from c obtain t where t: "find_task i q = Some t" by (auto simp: cancel_task_def split: option.splits)
  show ?thesis
  proof (cases "terminal (t_state t)")
    case True
    then show ?thesis using c t by (intro evolves_same) (simp_all add: cancel_task_def)
  next
    case False
    let ?g = "\<lambda>t. t\<lparr>t_state := Cancelled,
      t_cancelled_at := (case t_cancelled_at t of None \<Rightarrow> Some now | c \<Rightarrow> c)\<rparr>"
    have "evolves q (update_tasks (\<lambda>t. t_id t = i) ?g q)"
    proof (rule evolves_update_tasks)
      fix x assume "x \<in> set (tasks q)" "t_id x = i"
      then have "x = t" using find_task_eq [OF inv] t by force
      then show "task_change x (?g x)" using False
        by (simp add: task_change_def bounded_iff terminal_def)
    qed
    then show ?thesis
      by (rule evolves_tasks_cong) (use c t False in \<open>auto simp: cancel_task_def store_updates\<close>)
  qed
qed

lemma fold_evolves:
  assumes "fold_result f xs q = Inr q'" "queue_inv q"
    and "\<And>x s s'. queue_inv s \<Longrightarrow> f x s = Inr s' \<Longrightarrow> evolves s s' \<and> queue_inv s'"
  shows "evolves q q' \<and> queue_inv q'"
  by (rule fold_result_invariant [OF assms(1), of "\<lambda>s. evolves q s \<and> queue_inv s"])
    (use assms(2,3) in \<open>auto intro: evolves_same evolves_trans\<close>)

lemma apply_cancellations_evolves:
  assumes "queue_inv q" "apply_cancellations now q = Inr q'"
  shows "evolves q q'"
proof -
  from assms(2) obtain ids where "fold_result (cancel_task now) ids q = Inr q'"
    by (auto simp: apply_cancellations_def bind_result_Inr)
  from fold_evolves [OF this assms(1)] show ?thesis
    using cancel_task_evolves cancel_task_inv by blast
qed

lemma sweep_expired_evolves:
  assumes "queue_inv q" "sweep_expired now n q = Inr q'"
  shows "evolves q q'"
  using fold_evolves [OF assms(2) [unfolded sweep_expired_def] assms(1)] fail_run_evolves fail_run_inv
  by blast

lemma take_runs_evolves:
  assumes inv: "queue_inv q" and cs: "\<And>r. r \<in> set cs \<Longrightarrow> r \<in> set (runs q) \<and> claimable now q r"
  shows "evolves q (take_runs now worker until cs q)"
proof -
  let ?u = "\<lambda>t. the (tbl_find (\<lambda>r. r_task r = t_id t) cs)"
  let ?g = "\<lambda>t. let u = ?u t in t\<lparr>t_state := Running, t_attempts := max (t_attempts t) (r_attempt u),
                 t_first_started_at := (case t_first_started_at t of None \<Rightarrow> Some now | s \<Rightarrow> s),
                 t_last_attempt_run := Some (r_id u)\<rparr>"
  have "evolves q (update_tasks (\<lambda>t. t_id t \<in> r_task ` set cs) ?g q)"
  proof (rule evolves_update_tasks)
    fix t assume t: "t \<in> set (tasks q)" "t_id t \<in> r_task ` set cs"
    then obtain u where "tbl_find (\<lambda>r. r_task r = t_id t) cs = Some u"
      by (cases "tbl_find (\<lambda>r. r_task r = t_id t) cs") (auto simp: tbl_simps)
    then have u: "?u t = u" "u \<in> set cs" "r_task u = t_id t" by (auto dest: tbl_find_SomeD)
    have "u \<in> set (runs q)" "active (r_state u)"
      using cs [OF u(2)] by (auto simp: claimable_def active_def)
    from active_task [OF inv this t(1)] this(2) u show "task_change t (?g t)"
      by (auto simp: task_change_def bounded_iff active_def Let_def)
  qed
  then show ?thesis by (rule evolves_tasks_cong) (simp_all add: take_runs_def store_updates)
qed

lemma claim_task_evolves:
  assumes inv: "queue_inv q" and c: "claim_task now worker timeout qty q = Inr (rows, q')"
  shows "evolves q q'"
  using c
proof (cases rule: claim_task_cases)
  case (1 q1 q2)
  have i: "queue_inv q1" "queue_inv q2" using inv 1 apply_cancellations_inv sweep_expired_inv by blast+
  have "evolves q2 q'" unfolding 1(4) by (rule take_runs_evolves [OF i(2) candidates_claimable])
  moreover have "evolves q q1" by (rule apply_cancellations_evolves [OF inv 1(1)])
  moreover have "evolves q1 q2" by (rule sweep_expired_evolves [OF i(1) 1(2)])
  ultimately show ?thesis by (blast intro: evolves_trans)
qed

lemma upsert_checkpoint_more [simp]:
  "q_mode (upsert_checkpoint c q) = q_mode q" "idempotency (upsert_checkpoint c q) = idempotency q"
  by (simp_all add: upsert_checkpoint_def)

lemma ensure_event_more [simp]:
  "q_mode (ensure_event n q) = q_mode q" "idempotency (ensure_event n q) = idempotency q"
  by (simp_all add: ensure_event_def split: option.splits)

lemma fold_upsert_more [simp]:
  "q_mode (fold (\<lambda>w. upsert_checkpoint (h w)) ws q) = q_mode q"
  "idempotency (fold (\<lambda>w. upsert_checkpoint (h w)) ws q) = idempotency q"
  by (induction ws arbitrary: q) auto

lemma set_task_checkpoint_state_evolves:
  "set_task_checkpoint_state now i n st w ext q = Inr q' \<Longrightarrow> evolves q q'"
  by (intro evolves_same)
    (auto simp: set_task_checkpoint_state_def Let_def store_updates split: option.splits if_splits)

lemma extend_claim_evolves: "extend_claim now i ext q = Inr q' \<Longrightarrow> evolves q q'"
  by (intro evolves_same)
    (auto simp: extend_claim_def store_updates split: option.splits if_splits)

lemma await_event_cases:
  assumes "await_event now ti i step ev timeout q = Inr (w, q')"
  obtains (saved) p where "Option.bind (find_checkpoint ti step q) c_state = Some p" "q' = q"
      "w = \<lparr>aw_suspend = False, aw_payload = Some p\<rparr>"
  | (live) r t q1 where "Option.bind (find_checkpoint ti step q) c_state = None"
      "find_run i q = Some r" "r_state r = Running" "find_task (r_task r) q = Some t"
      "t_state t \<noteq> Cancelled"
      "q1 = (if r_event_payload r \<noteq> None
        then update_runs (\<lambda>x. r_id x = i) (\<lambda>x. x\<lparr>r_event_payload := None\<rparr>) (ensure_event ev q)
        else ensure_event ev q)"
      "(\<exists>p. Option.bind (find_event ev (ensure_event ev q)) e_payload = Some p \<and>
          w = \<lparr>aw_suspend = False, aw_payload = Some p\<rparr> \<and>
          q' = upsert_checkpoint \<lparr>c_task = ti, c_name = step, c_state = Some p,
            c_status = ''committed'', c_owner_run = Some i, c_updated_at = now\<rparr> q1) \<or>
       (Option.bind (find_event ev (ensure_event ev q)) e_payload = None \<and>
          r_wake_event r = Some ev \<and> r_event_payload r = None \<and>
          w = \<lparr>aw_suspend = False, aw_payload = None\<rparr> \<and>
          q' = update_runs (\<lambda>x. r_id x = i) (\<lambda>x. x\<lparr>r_wake_event := None\<rparr>) q1) \<or>
       (Option.bind (find_event ev (ensure_event ev q)) e_payload = None \<and>
          \<not> (r_wake_event r = Some ev \<and> r_event_payload r = None) \<and>
          w = \<lparr>aw_suspend = True, aw_payload = None\<rparr> \<and>
          q' = register_wait now ti i step ev (map_option (\<lambda>s. now + s * second) timeout) q1)"
proof (cases "Option.bind (find_checkpoint ti step q) c_state")
  case (Some p)
  show ?thesis by (rule saved [OF Some]) (use assms Some in \<open>auto simp: await_event_def split: if_splits\<close>)
next
  case None
  from assms None obtain r t where r: "find_run i q = Some r" "r_state r = Running"
    "find_task (r_task r) q = Some t" "t_state t \<noteq> Cancelled"
    by (auto simp: await_event_def Let_def split: option.splits if_splits)
  show ?thesis
    by (rule live [OF None r refl])
      (use assms None r in \<open>auto simp: await_event_def Let_def split: option.splits if_splits\<close>)
qed

lemma await_event_evolves:
  assumes inv: "queue_inv q" and c: "await_event now ti i step ev timeout q = Inr (w, q')"
    and own: "\<And>r. find_run i q = Some r \<Longrightarrow> r_task r = ti"
  shows "evolves q q'"
  using c
proof (cases rule: await_event_cases)
  case (saved p)
  then show ?thesis by (simp add: evolves_same)
next
  case (live r t q1)
  have same: "tasks q1 = tasks q" "q_mode q1 = q_mode q" "idempotency q1 = idempotency q"
    by (simp_all add: live(6) store_updates)
  have "evolves q (update_tasks (\<lambda>t. t_id t = ti) (\<lambda>t. t\<lparr>t_state := Sleeping\<rparr>) q)"
    by (rule evolves_update_tasks, rule sleeping_change [OF inv])
      (use find_runD [OF live(2)] live(3) own [OF live(2)] in \<open>auto simp: active_def\<close>)
  note sleep = evolves_tasks_cong [OF this]
  from live(7) show ?thesis
  proof (elim disjE exE conjE)
    assume "q' = register_wait now ti i step ev (map_option (\<lambda>s. now + s * second) timeout) q1"
    then show ?thesis by (intro sleep) (simp_all add: register_wait_def store_updates same)
  qed (auto intro!: evolves_same simp: same store_updates)
qed

lemma emit_event_evolves:
  assumes inv: "queue_inv q" and c: "emit_event now n p q = Inr q'"
  shows "evolves q q'"
proof -
  define v where "v = (case p of None \<Rightarrow> JNull | Some j \<Rightarrow> j)"
  from c consider "q' = q" | q1 where "record_event now n v q = Some q1" "q' = wake_waiters now n v q1"
    by (auto simp: emit_event_def Let_def v_def split: if_splits option.splits)
  then show ?thesis
  proof cases
    case 1
    then show ?thesis by (simp add: evolves_same)
  next
    case (2 q1)
    have same: "tasks q1 = tasks q" "q_mode q1 = q_mode q" "idempotency q1 = idempotency q" "runs q1 = runs q"
      using 2(1) by (auto simp: record_event_def split: option.splits if_splits)
    have inv1: "queue_inv q1" by (rule record_event_inv [OF inv 2(1)])
    define ids where "ids = w_run ` set (woken_waits now n q1)"
    define owners where "owners = r_task ` {r \<in> set (runs q1). r_id r \<in> ids}"
    have "evolves q1 (update_tasks (\<lambda>t. t_id t \<in> owners) (\<lambda>t. t\<lparr>t_state := Pending\<rparr>) q1)"
    proof (rule evolves_update_tasks)
      fix t assume t: "t \<in> set (tasks q1)" "t_id t \<in> owners"
      then obtain r where r: "r \<in> set (runs q1)" "r_id r \<in> ids" "t_id t = r_task r"
        by (auto simp: owners_def)
      then obtain x where "x \<in> set (runs q1)" "r_id x = r_id r" "r_state x = Sleeping"
        by (auto simp: ids_def woken_waits_def)
      then have "r_state r = Sleeping"
        using queue_inv_run_unique [OF queue_inv_coreD [OF inv1] _ r(1)] by metis
      then show "task_change t (t\<lparr>t_state := Pending\<rparr>)"
        by (intro sleeping_change [OF inv1 r(1) _ t(1) r(3)]) (simp add: active_def)
    qed
    then have "evolves q1 q'"
      by (rule evolves_tasks_cong)
        (simp_all add: 2(2) wake_waiters_def Let_def store_updates fold_upsert_checkpoint
          owners_def ids_def)
    with same show ?thesis using evolves_trans [OF evolves_same] by metis
  qed
qed

lemma queue_step_evolves: "queue_step q q' \<Longrightarrow> queue_inv q \<Longrightarrow> evolves q q'"
proof (induction rule: queue_step.induct)
  case (await now ti i step ev timeout q w q' r)
  then show ?case using await_event_evolves [OF await.prems await.hyps(1)] by simp
qed (blast intro: spawn_task_evolves claim_task_evolves complete_run_evolves schedule_run_evolves
      fail_run_evolves retry_task_evolves cancel_task_evolves set_task_checkpoint_state_evolves
      extend_claim_evolves emit_event_evolves)+

section \<open>Any number of operations\<close>

lemma queue_steps_evolve:
  assumes "queue_step\<^sup>*\<^sup>* q q'" "queue_inv q"
  shows "evolves q q' \<and> queue_inv q'"
  using assms
proof (induction rule: rtranclp_induct)
  case base
  then show ?case by (simp add: evolves_same)
next
  case (step y z)
  then show ?case using queue_step_evolves queue_step_inv evolves_trans by blast
qed

lemma evolves_find_task:
  assumes "evolves q q'" "find_task i q = Some t"
  shows "\<exists>t'. find_task i q' = Some t' \<and> task_change t t'"
proof -
  obtain f new where f: "tasks q' = map f (tasks q) @ new" "\<forall>t \<in> set (tasks q). task_change t (f t)"
    using assms(1) by (auto simp: evolves_def)
  have "tbl_find (\<lambda>t. t_id t = i) (map f ts) = map_option f (tbl_find (\<lambda>t. t_id t = i) ts)"
    if "\<forall>t \<in> set ts. task_change t (f t)" for ts
    using that by (induction ts) (auto simp: tbl_find_def task_change_def)
  from this [OF f(2)] show ?thesis
    using assms(2) f find_taskD [OF assms(2)] by (auto simp: find_task_def tbl_find_append)
qed

lemma reachable_bounded:
  assumes "reachable mode q" "t \<in> set (tasks q)"
  shows "bounded t \<and> t_last_attempt_run t \<noteq> None"
  using assms
proof (induction arbitrary: t rule: reachable.induct)
  case start
  then show ?case by (simp add: empty_queue_def)
next
  case (step q q')
  then have "evolves q q'" using queue_step_evolves reachable_inv by blast
  then obtain f new where f: "tasks q' = map f (tasks q) @ new" "\<forall>t \<in> set (tasks q). task_change t (f t)"
    "\<forall>t \<in> set new. bounded t \<and> t_last_attempt_run t \<noteq> None" by (auto simp: evolves_def)
  from step.prems f(1) consider u where "u \<in> set (tasks q)" "t = f u" | "t \<in> set new" by auto
  then show ?case
  proof cases
    case 1
    then show ?thesis using step.IH [OF 1(1)] f(2) by (auto simp: task_change_def)
  next
    case 2
    then show ?thesis using f(3) by blast
  qed
qed

lemma reachable_mode: "reachable mode q \<Longrightarrow> q_mode q = mode"
proof (induction rule: reachable.induct)
  case start
  then show ?case by (simp add: empty_queue_def)
next
  case (step q q')
  then show ?case using queue_step_evolves reachable_inv by (metis evolves_def)
qed

lemma reachable_steps: "queue_step\<^sup>*\<^sup>* q q' \<Longrightarrow> reachable mode q \<Longrightarrow> reachable mode q'"
  by (induction rule: rtranclp_induct) (auto intro: reachable.step)

end
