(* ===== verification/Store_Props.thy ===== *)
theory Store_Props
  imports Task_Life
begin

text \<open>
  What the operations of \<open>Store\<close> promise their callers, beyond the invariant: event payloads are
  written once, no wait outlives its event, claims are exclusive, the outcomes of \<open>fail_run\<close>, the
  bounds of retry delays, the fencing of checkpoints.
\<close>

section \<open>Events\<close>

definition event_payload :: "string \<Rightarrow> qstate \<Rightarrow> json option" where
  "event_payload n q = Option.bind (find_event n q) e_payload"

definition waits_open :: "qstate \<Rightarrow> bool" where
  "waits_open q \<longleftrightarrow> (\<forall>w \<in> set (waits q). event_payload (w_event w) q = None)"

lemma tbl_find_rec [simp]:
  "tbl_find P [] = None" "tbl_find P (x # xs) = (if P x then Some x else tbl_find P xs)"
  by (simp_all add: tbl_find_def)

lemma payload_same: "events q' = events q \<Longrightarrow> event_payload n q' = event_payload n q"
  by (simp add: event_payload_def find_event_def)

lemma payload_ensure [simp]: "event_payload n (ensure_event m q) = event_payload n q"
  by (auto simp: event_payload_def ensure_event_def find_event_def tbl_find_append
      split: option.splits)

lemma record_event_payload:
  assumes "record_event now n p q = Some q'"
  shows "event_payload n q = None" "event_payload m q' = (if m = n then Some p else event_payload m q)"
proof -
  from assms show "event_payload n q = None"
    by (auto simp: record_event_def event_payload_def split: option.splits if_splits)
  have upd: "tbl_find (\<lambda>e. e_name e = m)
      (tbl_update (\<lambda>e. e_name e = n) (\<lambda>e. e\<lparr>e_payload := Some p, e_emitted_at := now\<rparr>) es)
    = map_option (\<lambda>e. if e_name e = n then e\<lparr>e_payload := Some p, e_emitted_at := now\<rparr> else e)
        (tbl_find (\<lambda>e. e_name e = m) es)" for es
    by (rule tbl_find_update_key) simp
  show "event_payload m q' = (if m = n then Some p else event_payload m q)"
  proof (cases "find_event n q")
    case None
    with assms have "q' = q\<lparr>events := events q @ [\<lparr>e_name = n, e_payload = Some p, e_emitted_at = now\<rparr>]\<rparr>"
      by (simp add: record_event_def)
    with None show ?thesis
      by (auto simp: event_payload_def find_event_def tbl_find_append split: option.splits)
  next
    case (Some e)
    with assms have "q' = q\<lparr>events := tbl_update (\<lambda>e. e_name e = n)
      (\<lambda>e. e\<lparr>e_payload := Some p, e_emitted_at := now\<rparr>) (events q)\<rparr>"
      by (auto simp: record_event_def split: if_splits)
    then have "find_event m q' = map_option (\<lambda>e. if e_name e = n
        then e\<lparr>e_payload := Some p, e_emitted_at := now\<rparr> else e) (find_event m q)"
      by (simp add: find_event_def upd)
    moreover have "find_event m q = Some x \<Longrightarrow> e_name x = m" for x
      by (auto simp: find_event_def dest: tbl_find_SomeD)
    ultimately show ?thesis using Some by (cases "find_event m q") (auto simp: event_payload_def)
  qed
qed

lemma wake_waiters_fields:
  "events (wake_waiters now n p q) = events q"
  "waits (wake_waiters now n p q)
     = tbl_delete (\<lambda>w. w_event w = n \<and> (\<not> wait_live now w \<or> w_run w \<in> w_run ` set (woken_waits now n q)))
         (waits q)"
  by (simp_all add: wake_waiters_def Let_def store_updates fold_upsert_checkpoint)

lemma wake_waiters_no_wait:
  assumes "queue_inv q" "w \<in> set (waits (wake_waiters now n p q))"
  shows "w_event w \<noteq> n \<and> w \<in> set (waits q)"
proof -
  have w: "w \<in> set (waits q)"
    "\<not> (w_event w = n \<and> (\<not> wait_live now w \<or> w_run w \<in> w_run ` set (woken_waits now n q)))"
    using assms(2) by (auto simp: wake_waiters_fields tbl_simps)
  obtain r where "r \<in> set (runs q)" "waits_for w r"
    using queue_inv_waitD [OF assms(1)] w(1) by (auto simp: wait_inv_def)
  then have "w_event w = n \<Longrightarrow> wait_live now w \<Longrightarrow> w \<in> set (woken_waits now n q)"
    using w(1) by (auto simp: woken_waits_def waits_for_def)
  with w show ?thesis by blast
qed

definition events_kept :: "qstate \<Rightarrow> qstate \<Rightarrow> bool" where
  "events_kept q q' \<longleftrightarrow> (\<forall>n p. event_payload n q = Some p \<longrightarrow> event_payload n q' = Some p) \<and>
     (\<forall>w \<in> set (waits q'). event_payload (w_event w) q' = None \<or>
        (w \<in> set (waits q) \<and> event_payload (w_event w) q' = event_payload (w_event w) q))"

lemma events_kept_same:
  "events q' = events q \<Longrightarrow> set (waits q') \<subseteq> set (waits q) \<Longrightarrow> events_kept q q'"
  unfolding events_kept_def by (auto simp: payload_same [of q' q])

lemma events_kept_refl [simp]: "events_kept q q"
  by (rule events_kept_same) simp_all

lemma events_kept_trans: "events_kept q1 q2 \<Longrightarrow> events_kept q2 q3 \<Longrightarrow> events_kept q1 q3"
  unfolding events_kept_def by metis

lemma emit_event_cases:
  assumes "emit_event now n p q = Inr q'"
  obtains (again) p0 where "event_payload n q = Some p0" "q' = q"
  | (first) q1 where "record_event now n (case p of None \<Rightarrow> JNull | Some j \<Rightarrow> j) q = Some q1"
      "q' = wake_waiters now n (case p of None \<Rightarrow> JNull | Some j \<Rightarrow> j) q1"
proof -
  define v where "v = (case p of None \<Rightarrow> JNull | Some j \<Rightarrow> j)"
  show ?thesis
  proof (cases "record_event now n v q")
    case None
    then have "event_payload n q \<noteq> None" "q' = q"
      using assms by (auto simp: emit_event_def Let_def v_def record_event_def event_payload_def
        split: if_splits option.splits)
    then show ?thesis using again by blast
  next
    case (Some q1)
    then show ?thesis using first assms
      by (auto simp: emit_event_def Let_def v_def split: if_splits)
  qed
qed

lemma emit_event_kept:
  assumes inv: "queue_inv q" and c: "emit_event now n p q = Inr q'"
  shows "events_kept q q'"
  using c
proof (cases rule: emit_event_cases)
  case again
  then show ?thesis by simp
next
  case (first q1)
  let ?p = "case p of None \<Rightarrow> JNull | Some j \<Rightarrow> j"
  note pay = record_event_payload [OF first(1)]
  have q': "event_payload m q' = (if m = n then Some ?p else event_payload m q)" for m
    using pay(2) payload_same [of q' q1] first(2) by (simp add: wake_waiters_fields)
  have "waits q1 = waits q" using first(1) by (auto simp: record_event_def split: option.splits if_splits)
  then have "w_event w \<noteq> n \<and> w \<in> set (waits q)" if "w \<in> set (waits q')" for w
    using wake_waiters_no_wait [OF record_event_inv [OF inv first(1)]] that first(2) by force
  with q' pay(1) show ?thesis by (auto simp: events_kept_def)
qed

lemma await_event_kept:
  assumes c: "await_event now ti i step ev timeout q = Inr (w, q')"
  shows "events_kept q q'"
  using c
proof (cases rule: await_event_cases)
  case (saved p)
  then show ?thesis by simp
next
  case (live r t q1)
  have pay: "event_payload n q1 = event_payload n q" for n
    using payload_same [of q1 "ensure_event ev q"] by (simp add: live(6) store_updates)
  have ws: "waits q1 = waits q" by (simp add: live(6) store_updates)
  from live(7) show ?thesis
  proof (elim disjE exE conjE)
    fix p assume q': "q' = upsert_checkpoint \<lparr>c_task = ti, c_name = step, c_state = Some p,
            c_status = ''committed'', c_owner_run = Some i, c_updated_at = now\<rparr> q1"
    then have "event_payload n q' = event_payload n q" for n using payload_same [of q' q1] pay by simp
    then show ?thesis using ws q' by (simp add: events_kept_def)
  next
    assume q': "q' = update_runs (\<lambda>x. r_id x = i) (\<lambda>x. x\<lparr>r_wake_event := None\<rparr>) q1"
    then have "event_payload n q' = event_payload n q" for n
      using payload_same [of q' q1] pay by (simp add: store_updates)
    then show ?thesis using ws q' by (simp add: events_kept_def store_updates)
  next
    assume q': "q' = register_wait now ti i step ev (map_option (\<lambda>s. now + s * second) timeout) q1"
      and none: "Option.bind (find_event ev (ensure_event ev q)) e_payload = None"
    have "event_payload n q' = event_payload n q" for n
      using payload_same [of q' q1] pay q' by (simp add: register_wait_def store_updates)
    moreover have "event_payload ev q = None" using none payload_ensure [of ev ev q]
      by (simp add: event_payload_def)
    moreover have "w_event x = ev \<or> x \<in> set (waits q)" if "x \<in> set (waits q')" for x
      using that q' ws by (auto simp: register_wait_def store_updates tbl_upsert_def tbl_simps
        split: if_splits)
    ultimately show ?thesis by (auto simp: events_kept_def)
  qed
qed

lemma fail_run_kept: "fail_run now i reason retry_at q = Inr q' \<Longrightarrow> events_kept q q'"
  by (erule fail_run_cases) (auto intro!: events_kept_same simp: apply_fail_outcome_def settle_task_def
      mark_run_failed_def store_updates tbl_simps Let_def split: fail_outcome.splits)

lemma cancel_task_kept: "cancel_task now i q = Inr q' \<Longrightarrow> events_kept q q'"
  by (auto intro!: events_kept_same simp: cancel_task_def store_updates tbl_simps
      split: option.splits if_splits)

lemma fold_kept:
  assumes "fold_result f xs q = Inr q'" "\<And>x s s'. f x s = Inr s' \<Longrightarrow> events_kept s s'"
  shows "events_kept q q'"
  by (rule fold_result_invariant [OF assms(1), of "events_kept q"])
    (auto dest: assms(2) intro: events_kept_trans)

lemma claim_task_kept: "claim_task now worker timeout qty q = Inr (rows, q') \<Longrightarrow> events_kept q q'"
proof (erule claim_task_cases)
  fix q1 q2
  assume a: "apply_cancellations now q = Inr q1" "sweep_expired now (nat (max qty 1)) q1 = Inr q2"
    "q' = take_runs now (if worker = [] then ''worker'' else worker)
       (if timeout > 0 then Some (now + timeout * second) else None)
       (candidates now (nat (max qty 1)) q2) q2"
  from a(1) obtain ids where "fold_result (cancel_task now) ids q = Inr q1"
    by (auto simp: apply_cancellations_def bind_result_Inr)
  then have "events_kept q q1" by (rule fold_kept) (rule cancel_task_kept)
  moreover have "events_kept q1 q2"
    using a(2) unfolding sweep_expired_def by (rule fold_kept) (rule fail_run_kept)
  moreover have "events_kept q2 q'"
    unfolding a(3) by (rule events_kept_same) (auto simp: take_runs_def store_updates tbl_simps)
  ultimately show "events_kept q q'" by (blast intro: events_kept_trans)
qed

lemma spawn_task_kept:
  assumes "spawn_task now n p opts q = Inr (row, q')"
  shows "events_kept q q'"
  using assms
  by (cases rule: spawn_task_cases) (auto intro!: events_kept_same simp: insert_task_def)

lemma retry_task_kept:
  assumes "retry_task now i opts q = Inr (row, q')"
  shows "events_kept q q'"
  using assms
proof (cases rule: retry_task_cases)
  case respawn
  then show ?thesis by (blast intro: spawn_task_kept)
next
  case revive
  then show ?thesis by (auto intro: events_kept_same simp: store_updates)
qed

lemma queue_step_kept: "queue_step q q' \<Longrightarrow> queue_inv q \<Longrightarrow> events_kept q q'"
proof (induction rule: queue_step.induct)
  case (complete now i p q q')
  then show ?case
    by (auto intro!: events_kept_same simp: complete_run_def store_updates tbl_simps
        split: option.splits if_splits)
next
  case (schedule i w q q')
  then show ?case
    by (auto intro!: events_kept_same simp: schedule_run_def store_updates split: option.splits)
next
  case (checkpoint now ti n st i ext q q' r)
  then show ?case
    by (auto intro!: events_kept_same simp: set_task_checkpoint_state_def store_updates Let_def
        split: option.splits if_splits)
next
  case (extend now i ext q q')
  then show ?case
    by (auto intro!: events_kept_same simp: extend_claim_def store_updates split: option.splits if_splits)
qed (blast intro: spawn_task_kept claim_task_kept fail_run_kept retry_task_kept cancel_task_kept
      await_event_kept emit_event_kept)+

lemma queue_steps_kept: "queue_step\<^sup>*\<^sup>* q q' \<Longrightarrow> queue_inv q \<Longrightarrow> events_kept q q' \<and> queue_inv q'"
  by (induction rule: rtranclp_induct) (auto intro: events_kept_trans queue_step_kept queue_step_inv)

lemma reachable_waits_open: "reachable mode q \<Longrightarrow> waits_open q"
proof (induction rule: reachable.induct)
  case start
  then show ?case by (simp add: waits_open_def empty_queue_def)
next
  case (step q q')
  then have "events_kept q q'" using queue_step_kept reachable_inv by blast
  with step.IH show ?case by (auto simp: events_kept_def waits_open_def)
qed

end
