(* ===== verification/Store_Spec.thy ===== *)
theory Store_Spec
  imports Store_Props
begin

text \<open>
  Claims, failures, checkpoints and wake-ups of the queue store: the lemmas behind the properties of
  \<open>Store\<close>, and those properties, with a concrete queue on which each of them applies.
\<close>

section \<open>Claims\<close>

lemma cancel_task_run:
  assumes "cancel_task now j q = Inr q'" "find_run i q = Some r"
  shows "find_run i q' = Some r \<or> (\<exists>x. find_run i q' = Some x \<and> r_state x = Cancelled)"
proof -
  have *: "find_run i (delete_waits P x) = find_run i x" "find_run i (update_tasks Q g x) = find_run i x"
    for P Q g x by (simp_all add: find_run_def store_updates)
  show ?thesis using assms
    by (auto simp: cancel_task_def * find_run_update_runs split: option.splits if_splits)
qed

lemma fail_run_other:
  assumes "fail_run now j reason retry_at q = Inr q'" "find_run i q = Some r" "i \<noteq> j"
  shows "find_run i q' = Some r"
  using assms(1)
proof (cases rule: fail_run_cases)
  case (1 x outcome)
  have u: "tbl_find (\<lambda>r. r_id r = i) (tbl_update (\<lambda>x. r_id x = j)
      (\<lambda>x. x\<lparr>r_state := Failed, r_wake_event := None, r_failed_at := Some now,
             r_failure_reason := reason\<rparr>) rs) = tbl_find (\<lambda>r. r_id r = i) rs" for rs
    using assms(3) tbl_find_update_key [of r_id "\<lambda>x. x\<lparr>r_state := Failed, r_wake_event := None,
      r_failed_at := Some now, r_failure_reason := reason\<rparr>" i "\<lambda>x. r_id x = j" rs]
    by (cases "tbl_find (\<lambda>r. r_id r = i) rs") (auto dest: tbl_find_SomeD)
  show ?thesis using assms(2) unfolding 1(4)
    by (auto simp: apply_fail_outcome_def settle_task_def mark_run_failed_def store_updates
      find_run_def tbl_find_append u Let_def split: fail_outcome.splits)
qed

definition held :: "int \<Rightarrow> run_row \<Rightarrow> bool" where
  "held now r \<longleftrightarrow> r_state r = Running \<and>
     (case r_claim_expires_at r of None \<Rightarrow> True | Some t \<Rightarrow> now < t)"

lemma held_after_sweep:
  assumes inv: "queue_inv q" and r: "find_run i q = Some r" "held now r"
    and c: "apply_cancellations now q = Inr q1" "sweep_expired now n q1 = Inr q2"
  shows "find_run i q2 = Some r \<or> (\<exists>x. find_run i q2 = Some x \<and> r_state x = Cancelled)"
proof -
  let ?kept = "\<lambda>s. find_run i s = Some r \<or> (\<exists>x. find_run i s = Some x \<and> r_state x = Cancelled)"
  from c(1) obtain ids where f: "fold_result (cancel_task now) ids q = Inr q1"
    by (auto simp: apply_cancellations_def bind_result_Inr)
  have k1: "?kept q1"
    by (rule fold_result_invariant [OF f, of ?kept]) (use r(1) cancel_task_run in \<open>blast+\<close>)
  have inv1: "queue_inv q1" by (rule apply_cancellations_inv [OF inv c(1)])
  have free: "r_id x \<noteq> i" if "x \<in> set (take n (expired_runs now q1))" for x
  proof
    assume x: "r_id x = i"
    have "x \<in> set (runs q1)" "r_state x = Running" "r_claim_expires_at x \<noteq> None"
      "the (r_claim_expires_at x) \<le> now"
      using in_set_takeD [OF that] by (auto simp: expired_runs_def)
    moreover have "find_run i q1 = Some x" using find_run_eq [OF inv1 calculation(1)] x by simp
    ultimately show False using k1 r(2) by (auto simp: held_def)
  qed
  show ?thesis
    by (rule fold_result_invariant [OF c(2) [unfolded sweep_expired_def], of ?kept, OF k1])
      (use fail_run_other free in \<open>metis\<close>)
qed

lemma find_run_candidate:
  "queue_inv q \<Longrightarrow> x \<in> set (candidates now n q) \<Longrightarrow> find_run (r_id x) q = Some x"
  using candidates_claimable find_run_eq by blast

lemma claimed_row_ids [simp]:
  "ct_run_id (claimed_row q r) = r_id r" "ct_task_id (claimed_row q r) = r_task r"
  "ct_attempt (claimed_row q r) = r_attempt r" "ct_wake_event (claimed_row q r) = r_wake_event r"
  "ct_event_payload (claimed_row q r) = r_event_payload r"
  by (simp_all add: claimed_row_def Let_def)

lemma candidates_distinct_task:
  assumes inv: "queue_inv q"
  shows "distinct (map r_task (candidates now n q))"
proof -
  have "x = y" if "x \<in> set (candidates now n q)" "y \<in> set (candidates now n q)" "r_task x = r_task y" for x y
  proof -
    have rs: "x \<in> set (runs q)" "active (r_state x)" "y \<in> set (runs q)" "active (r_state y)"
      using candidates_claimable that(1,2) by (auto simp: claimable_def active_def)
    then obtain t where "t \<in> set (tasks q)" "t_id t = r_task x"
      using core_inv_task [OF queue_inv_coreD [OF inv]] by blast
    then have "r_id x = r_id y" using active_task(3) [OF inv] rs that(3) by (metis option.inject)
    then show ?thesis using queue_inv_run_unique [OF queue_inv_coreD [OF inv]] rs by blast
  qed
  moreover have "distinct (candidates now n q)"
    using candidates_distinct [OF inv] by (simp add: distinct_map)
  ultimately show ?thesis by (simp add: distinct_map inj_on_def)
qed

lemma length_candidates [simp]:
  "length (candidates now n q) = min n (length (filter (claimable now q) (runs q)))"
  by (simp add: candidates_def min.commute)

lemma find_run_take:
  "find_run i (take_runs now worker until cs q) = map_option
     (\<lambda>r. if r_id r \<in> r_id ` set cs
          then r\<lparr>r_state := Running, r_claimed_by := Some worker, r_claim_expires_at := until,
                 r_started_at := Some now, r_available_at := At now\<rparr> else r) (find_run i q)"
proof -
  have *: "find_run i (delete_waits P x) = find_run i x" "find_run i (update_tasks Q g x) = find_run i x"
    for P Q g x by (simp_all add: find_run_def store_updates)
  show ?thesis by (simp add: take_runs_def * find_run_update_runs)
qed

lemma take_all_not_claimable:
  assumes inv: "queue_inv q" and few: "length (candidates now n q) < n"
    and r: "r \<in> set (runs (take_runs now worker until (candidates now n q) q))"
  shows "\<not> claimable now (take_runs now worker until (candidates now n q) q) r"
proof
  let ?cs = "candidates now n q"
  let ?q = "take_runs now worker until ?cs q"
  assume c: "claimable now ?q r"
  have all: "set ?cs = {r \<in> set (runs q). claimable now q r}"
    using few by (auto simp: candidates_def)
  from r obtain x where x: "x \<in> set (runs q)" "r = (if r_id x \<in> r_id ` set ?cs
      then x\<lparr>r_state := Running, r_claimed_by := Some worker, r_claim_expires_at := until,
             r_started_at := Some now, r_available_at := At now\<rparr> else x)"
    by (auto simp: take_runs_def store_updates tbl_simps)
  have rx: "r = x" "x \<notin> set ?cs" using c x by (auto simp: claimable_def split: if_splits)
  obtain t where t: "find_task (r_task x) q = Some t"
    using find_run_same_task [OF inv find_run_eq [OF inv x(1)]] by blast
  have "active (r_state x)" using c rx by (auto simp: claimable_def active_def)
  then have "active (t_state t)"
    using active_task(1) [OF inv x(1)] find_taskD [OF t] by auto
  then have "claimable now q x" using c rx t by (auto simp: claimable_def)
  with all x(1) rx(2) show False by blast
qed

section \<open>Failures\<close>

lemma within_limit_bounds: "within_limit x = Some r \<Longrightarrow> 0 \<le> r \<and> r \<le> retry_limit"
  by (auto simp: within_limit_def split: jsnum.splits if_splits)

lemma float8_check_Some: "float8_check x = Some y \<Longrightarrow> y = x"
  by (auto simp: float8_check_def split: if_splits)

lemma exponential_delay_Some: "exponential_delay b f n = Some d \<Longrightarrow> d = b * f ^ n"
  by (auto simp: exponential_delay_def bind_eq_Some_conv dest: float8_check_Some)

lemma exponential_seconds_bounds:
  assumes "exponential_seconds base n f m = Inr d" "0 \<le> base"
  shows "0 \<le> d \<and> d \<le> retry_limit"
  using assms
  by (auto simp: exponential_seconds_def min_def retry_limit_def
      dest!: within_limit_bounds exponential_delay_Some split: jsnum.splits if_splits option.splits)

lemma retry_delay_bounds:
  assumes "retry_delay_seconds strategy attempt = Inr d"
  shows "0 \<le> d \<and> d \<le> retry_limit"
proof (cases "\<exists>kvs. strategy = Some (JObj kvs)")
  case False
  with assms show ?thesis
    by (cases strategy) (auto simp: retry_delay_seconds_def retry_limit_def split: json.splits)
next
  case True
  then obtain kvs where kvs: "strategy = Some (JObj kvs)" by blast
  show ?thesis
  proof (cases "strategy_kind kvs = Some ''none''")
    case True
    with assms show ?thesis by (simp add: retry_delay_seconds_def kvs retry_limit_def)
  next
    case False
    with assms obtain x base where "within_limit x = Some base"
      "d = base \<or> (\<exists>n f m. exponential_seconds base n f m = Inr d)"
      by (simp add: retry_delay_seconds_def kvs bind_result_Inr Let_def split: if_splits)
        (auto split: option.splits simp: bind_result_Inr; blast)+
    then show ?thesis using within_limit_bounds exponential_seconds_bounds by blast
  qed
qed

section \<open>Wake-ups\<close>

lemma tbl_find_upsert:
  assumes f: "\<And>x. k (f x) = k x"
  shows "tbl_find (\<lambda>x. k x = v) (tbl_upsert (\<lambda>x. k x = k c) f c cs) =
    (if k c = v then Some (case tbl_find (\<lambda>x. k x = v) cs of None \<Rightarrow> c | Some x \<Rightarrow> f x)
     else tbl_find (\<lambda>x. k x = v) cs)"
proof (cases "list_ex (\<lambda>x. k x = k c) cs")
  case True
  then have "tbl_find (\<lambda>x. k x = k c) cs \<noteq> None" by (auto simp: tbl_find_None list_ex_iff)
  moreover have "tbl_find (\<lambda>x. k x = v) cs = Some x \<Longrightarrow> k x = v" for x by (auto dest: tbl_find_SomeD)
  ultimately show ?thesis using True tbl_find_update_key [of k f v "\<lambda>x. k x = k c" cs, OF f]
    by (cases "tbl_find (\<lambda>x. k x = v) cs") (auto simp: tbl_upsert_def)
next
  case False
  then have "tbl_find (\<lambda>x. k x = k c) cs = None" by (auto simp: tbl_find_None list_ex_iff)
  with False show ?thesis by (auto simp: tbl_upsert_def tbl_find_append split: option.splits)
qed

lemma find_checkpoint_upsert:
  "find_checkpoint i n (upsert_checkpoint c q) =
     (if (c_task c, c_name c) = (i, n)
      then Some (case find_checkpoint i n q of
              None \<Rightarrow> c
            | Some x \<Rightarrow> x\<lparr>c_state := c_state c, c_status := c_status c,
                          c_owner_run := c_owner_run c, c_updated_at := c_updated_at c\<rparr>)
      else find_checkpoint i n q)"
  unfolding find_checkpoint_def upsert_checkpoint_def
  using tbl_find_upsert [of "\<lambda>c. (c_task c, c_name c)" "\<lambda>x. x\<lparr>c_state := c_state c,
    c_status := c_status c, c_owner_run := c_owner_run c, c_updated_at := c_updated_at c\<rparr>"
    "(i, n)" c "checkpoints q"]
  by simp

lemma fold_upsert_state:
  assumes "\<And>w. w \<in> set ws \<Longrightarrow> c_state (h w) = Some p"
    and "(i, n) \<in> (\<lambda>w. (c_task (h w), c_name (h w))) ` set ws \<or>
      Option.bind (find_checkpoint i n q) c_state = Some p"
  shows "Option.bind (find_checkpoint i n (fold (\<lambda>w. upsert_checkpoint (h w)) ws q)) c_state = Some p"
  using assms
proof (induction ws arbitrary: q)
  case Nil
  then show ?case by simp
next
  case (Cons w ws)
  show ?case
  proof (simp, rule Cons.IH)
    show "c_state (h v) = Some p" if "v \<in> set ws" for v using Cons.prems(1) that by simp
    show "(i, n) \<in> (\<lambda>w. (c_task (h w), c_name (h w))) ` set ws \<or>
        Option.bind (find_checkpoint i n (upsert_checkpoint (h w) q)) c_state = Some p"
      using Cons.prems by (auto simp: find_checkpoint_upsert split: option.splits)
  qed
qed

lemma await_suspends:
  assumes inv: "queue_inv q" and r: "find_run i q = Some r" "r_task r = ti"
    and c: "await_event now ti i step ev timeout q = Inr (w, q1)" "aw_suspend w"
  shows "\<lparr>w_task = ti, w_run = i, w_step = step, w_event = ev,
      w_timeout_at = map_option (\<lambda>s. now + s * second) timeout, w_created_at = now\<rparr> \<in> set (waits q1)"
  using c(1)
proof (cases rule: await_event_cases)
  case (saved p)
  with c(2) show ?thesis by simp
next
  case (live r0 t qa)
  have "w_run x \<noteq> i" if "x \<in> set (waits q)" for x
    using queue_inv_awake [OF inv live(2) _ that] live(3) by simp
  moreover have "waits qa = waits q" by (simp add: live(6) store_updates)
  ultimately show ?thesis using live(7) c(2)
    by (auto simp: register_wait_def store_updates tbl_upsert_def list_ex_iff)
qed

lemma wake_waiters_wakes:
  assumes inv: "queue_inv q" and w: "w \<in> set (waits q)" "wait_live now w"
    and q': "q' = wake_waiters now (w_event w) v q"
  shows "(\<exists>r. find_run (w_run w) q' = Some r \<and> r_state r = Pending \<and> r_available_at r = At now \<and>
      r_event_payload r = Some v) \<and>
    Option.bind (find_checkpoint (w_task w) (w_step w) q') c_state = Some v \<and>
    (\<forall>x \<in> set (waits q'). w_run x \<noteq> w_run w)"
proof -
  let ?ws = "woken_waits now (w_event w) q"
  let ?cp = "\<lambda>w. \<lparr>c_task = w_task w, c_name = w_step w, c_state = Some v, c_status = ''committed'',
    c_owner_run = Some (w_run w), c_updated_at = now\<rparr>"
  obtain r where r: "r \<in> set (runs q)" "waits_for w r"
    using queue_inv_waitD [OF inv] w(1) by (auto simp: wait_inv_def)
  then have woken: "w \<in> set ?ws" using w by (auto simp: woken_waits_def waits_for_def)
  have "find_run (w_run w) q = Some r" using find_run_eq [OF inv r(1)] r(2) by (simp add: waits_for_def)
  then have "\<exists>x. tbl_find (\<lambda>x. r_id x = w_run w) (tbl_update (\<lambda>x. r_id x \<in> w_run ` set ?ws)
      (\<lambda>x. x\<lparr>r_state := Pending, r_available_at := At now, r_wake_event := None,
           r_event_payload := Some v, r_claimed_by := None, r_claim_expires_at := None\<rparr>) (runs q)) = Some x \<and>
      r_state x = Pending \<and> r_available_at x = At now \<and> r_event_payload x = Some v"
    using tbl_find_update_key [of r_id "\<lambda>x. x\<lparr>r_state := Pending, r_available_at := At now,
      r_wake_event := None, r_event_payload := Some v, r_claimed_by := None, r_claim_expires_at := None\<rparr>"
      "w_run w" "\<lambda>x. r_id x \<in> w_run ` set ?ws" "runs q"] woken r(2)
    by (auto simp: find_run_def waits_for_def)
  then have run: "\<exists>x. find_run (w_run w) q' = Some x \<and> r_state x = Pending \<and> r_available_at x = At now \<and>
      r_event_payload x = Some v"
    by (simp add: q' wake_waiters_def Let_def store_updates find_run_def fold_upsert_checkpoint)
  have "find_checkpoint a b q' = find_checkpoint a b (fold (\<lambda>w. upsert_checkpoint (?cp w)) ?ws q)" for a b
    by (simp add: q' wake_waiters_def Let_def store_updates find_checkpoint_def)
  moreover have "Option.bind (find_checkpoint (w_task w) (w_step w)
      (fold (\<lambda>w. upsert_checkpoint (?cp w)) ?ws q)) c_state = Some v"
    by (rule fold_upsert_state) (use woken in \<open>auto intro!: image_eqI [of _ _ w]\<close>)
  moreover have "w_run x \<noteq> w_run w" if "x \<in> set (waits q')" for x
  proof
    assume "w_run x = w_run w"
    moreover have "x \<in> set (waits q)" "w_event x \<noteq> w_event w"
      using wake_waiters_no_wait [OF inv] that q' by simp_all
    ultimately show False
      using key_inj [OF wait_inv_distinct [OF queue_inv_waitD [OF inv]] _ w(1)] by blast
  qed
  ultimately show ?thesis using run by auto
qed

section \<open>Idempotency keys\<close>

text \<open>The task that a key stands for.\<close>

definition key_task :: "string \<Rightarrow> qstate \<Rightarrow> uuid option" where
  "key_task k q =
     (case q_mode q of
        Partitioned \<Rightarrow> Option.bind (map_of (idempotency q) k) (\<lambda>i. map_option t_id (find_task i q))
      | Unpartitioned \<Rightarrow> map_option t_id (tbl_find (\<lambda>t. t_idempotency_key t = Some k) (tasks q)))"

lemma key_task_evolves:
  assumes "evolves q q'" "key_task k q = Some i"
  shows "key_task k q' = Some i"
proof -
  obtain f new where f: "tasks q' = map f (tasks q) @ new" "\<forall>t \<in> set (tasks q). task_change t (f t)"
    and m: "q_mode q' = q_mode q" using assms(1) by (auto simp: evolves_def)
  obtain zs where zs: "idempotency q' = idempotency q @ zs" using assms(1) by (auto simp: evolves_def)
  show ?thesis
  proof (cases "q_mode q")
    case Unpartitioned
    have "tbl_find (\<lambda>t. t_idempotency_key t = Some k) (map f ts)
        = map_option f (tbl_find (\<lambda>t. t_idempotency_key t = Some k) ts)"
      if "\<forall>t \<in> set ts. task_change t (f t)" for ts
      using that by (induction ts) (auto simp: task_change_def)
    note find = this [OF f(2)]
    from Unpartitioned assms(2) obtain t where t: "tbl_find (\<lambda>t. t_idempotency_key t = Some k) (tasks q) = Some t"
      "t_id t = i" by (auto simp: key_task_def)
    then have "t_id (f t) = i" using f(2) tbl_find_SomeD [OF t(1)] by (simp add: task_change_def)
    with Unpartitioned m t find f(1) show ?thesis by (simp add: key_task_def tbl_find_append)
  next
    case Partitioned
    with assms(2) obtain t where t: "map_of (idempotency q) k = Some i" "find_task i q = Some t"
      by (auto simp: key_task_def bind_eq_Some_conv dest: find_taskD)
    from evolves_find_task [OF assms(1) t(2)] obtain t' where "find_task i q' = Some t'" "t_id t' = i"
      using find_taskD by blast
    with Partitioned m t zs show ?thesis by (simp add: key_task_def map_add_Some_iff)
  qed
qed

lemma spawn_task_key:
  assumes inv: "queue_inv q" and c: "spawn_task now name p opts q = Inr (row, q')"
    and cols: "read_spawn_options opts = Inr cols" "sc_idempotency_key cols = Some k"
  shows "key_task k q' = Some (s_task row)"
proof -
  have fresh: "tbl_find (\<lambda>t. t_id t = uuids q) (tasks q) = None"
    using queue_inv_coreD [OF inv] by (auto simp: core_inv_def tbl_simps)
  show ?thesis
  proof (cases "q_mode q")
    case Unpartitioned
    then show ?thesis using c cols
      by (auto simp: spawn_task_def Let_def key_task_def insert_task_def tbl_find_append
          split: option.splits if_splits)
  next
    case Partitioned
    then show ?thesis using c cols fresh
      by (auto simp: spawn_task_def Let_def key_task_def insert_task_def find_task_def tbl_find_append
          map_add_def split: option.splits if_splits)
  qed
qed

lemma spawn_task_existing:
  assumes "key_task k q = Some i" "\<forall>t \<in> set (tasks q). t_last_attempt_run t \<noteq> None"
    "\<not> is_blank name" "read_spawn_options opts = Inr cols" "sc_idempotency_key cols = Some k"
  shows "\<exists>row. spawn_task now name p opts q = Inr (row, q\<lparr>uuids := Suc (Suc (uuids q))\<rparr>) \<and>
    s_task row = i \<and> \<not> s_created row"
proof (cases "q_mode q")
  case Unpartitioned
  then show ?thesis using assms by (auto simp: spawn_task_def Let_def key_task_def)
next
  case Partitioned
  then obtain t where "map_of (idempotency q) k = Some i" "find_task i q = Some t"
    using assms(1) by (auto simp: key_task_def bind_eq_Some_conv dest: find_taskD)
  moreover have "t_last_attempt_run t \<noteq> None" "t_id t = i"
    using calculation(2) assms(2) find_taskD by blast+
  ultimately show ?thesis using assms(3-5) Partitioned
    by (auto simp: spawn_task_def Let_def find_task_def)
qed

section \<open>A concrete queue\<close>

text \<open>
  Two tasks: \<open>0\<close> is claimed by worker \<open>w\<close> at time 10 with a lease of 30 seconds (run 1) and then waits for
  the event \<open>go\<close>; \<open>2\<close> has an idempotency key and is pending (run 3).
\<close>

definition queue_after :: "'e + 'a \<times> qstate \<Rightarrow> qstate" where
  "queue_after r = (case r of Inr (_, q) \<Rightarrow> q | Inl _ \<Rightarrow> empty_queue Unpartitioned)"

definition demo_claimed :: qstate where
  "demo_claimed = queue_after (claim_task 10 ''w'' 30 1
     (queue_after (spawn_task 0 ''job'' (Some (JNum 1)) None (empty_queue Unpartitioned))))"

definition demo_keyed :: qstate where
  "demo_keyed = queue_after (spawn_task 20 ''job'' None
     (Some (JObj [(''max_attempts'', JNum 1), (''idempotency_key'', JStr ''k'')])) demo_claimed)"

definition demo_waiting :: qstate where
  "demo_waiting = queue_after (await_event 30 0 1 ''$awaitEvent:go'' ''go'' (Some 60) demo_keyed)"

definition demo_done :: qstate where
  "demo_done = (case complete_run 40 1 (Some (JBool True)) demo_keyed of Inr q \<Rightarrow> q | Inl _ \<Rightarrow> demo_keyed)"

lemma demo_claimed_reachable: "reachable Unpartitioned demo_claimed"
proof -
  have s: "spawn_task 0 ''job'' (Some (JNum 1)) None (empty_queue Unpartitioned)
      = Inr (\<lparr>s_task = 0, s_run = Some 1, s_attempt = 1, s_created = True\<rparr>,
          queue_after (spawn_task 0 ''job'' (Some (JNum 1)) None (empty_queue Unpartitioned)))"
    (is "?s = Inr (_, ?q)") by code_simp
  have "claim_task 10 ''w'' 30 1 ?q = Inr (map (claimed_row ?q) (runs ?q), demo_claimed)" by code_simp
  from queue_step.claim [OF this] queue_step.spawn [OF s] show ?thesis
    by (blast intro: reachable.intros)
qed

lemma demo_keyed_spawned:
  "spawn_task 20 ''job'' None (Some (JObj [(''max_attempts'', JNum 1), (''idempotency_key'', JStr ''k'')]))
     demo_claimed = Inr (\<lparr>s_task = 2, s_run = Some 3, s_attempt = 1, s_created = True\<rparr>, demo_keyed)"
  by code_simp

lemma demo_keyed_reachable: "reachable Unpartitioned demo_keyed"
  by (rule reachable.step [OF demo_claimed_reachable queue_step.spawn [OF demo_keyed_spawned]])

lemma demo_waits:
  "await_event 30 0 1 ''$awaitEvent:go'' ''go'' (Some 60) demo_keyed
     = Inr (\<lparr>aw_suspend = True, aw_payload = None\<rparr>, demo_waiting)"
  by code_simp

lemma demo_run: "\<exists>r. find_run 1 demo_keyed = Some r \<and> r_task r = 0 \<and> r_state r = Running \<and>
    r_claim_expires_at r = Some 30000010 \<and> r \<in> set (runs demo_keyed)"
proof -
  have "map_option (\<lambda>r. (r_task r, r_state r, r_claim_expires_at r)) (find_run 1 demo_keyed)
      = Some (0, Running, Some 30000010)" by code_simp
  then show ?thesis by (auto dest: find_runD)
qed

lemma demo_waiting_reachable: "reachable Unpartitioned demo_waiting"
proof -
  obtain r where r: "find_run 1 demo_keyed = Some r" "r_task r = 0" using demo_run by blast
  show ?thesis by (rule reachable.step [OF demo_keyed_reachable queue_step.await [OF demo_waits r]])
qed

lemma demo_completes: "complete_run 40 1 (Some (JBool True)) demo_keyed = Inr demo_done"
  by code_simp

lemma demo_done_reachable: "reachable Unpartitioned demo_done"
  by (rule reachable.step [OF demo_keyed_reachable queue_step.complete [OF demo_completes]])

section \<open>Properties\<close>

text \<open>
  Property C1: in every queue that calls of the stored functions can produce, a task has at most one run
  that is pending, running or sleeping, that run is the task's newest attempt, and the task's state is
  the state of that run.
\<close>

theorem single_active_run:
  assumes "reachable mode q" "r \<in> set (runs q)" "active (r_state r)"
  shows "\<exists>t. find_task (r_task r) q = Some t \<and> t_state t = r_state r \<and>
      t_last_attempt_run t = Some (r_id r) \<and> t_attempts t = r_attempt r \<and>
      (\<forall>x \<in> set (runs q). r_task x = r_task r \<longrightarrow> active (r_state x) \<longrightarrow> x = r)"
proof -
  note inv = reachable_inv [OF assms(1)]
  obtain t where t: "find_task (r_task r) q = Some t" "t \<in> set (tasks q)" "t_id t = r_task r"
    using find_run_same_task [OF inv find_run_eq [OF inv assms(2)]] by blast
  have "x = r" if "x \<in> set (runs q)" "r_task x = r_task r" "active (r_state x)" for x
    using active_task(3) [OF inv that(1,3) t(2)] active_task(3) [OF inv assms(2,3) t(2)] t(3) that
      queue_inv_run_unique [OF queue_inv_coreD [OF inv] that(1) assms(2)] by simp
  with t active_task [OF inv assms(2,3) t(2,3)] show ?thesis by blast
qed

theorem single_active_run_witness:
  "\<exists>r. find_run 1 demo_keyed = Some r \<and> (\<exists>t. find_task (r_task r) demo_keyed = Some t \<and> t_state t = Running)"
proof -
  obtain r where r: "find_run 1 demo_keyed = Some r" "r \<in> set (runs demo_keyed)" "r_state r = Running"
    using demo_run by blast
  have "active (r_state r)" using r(3) by (simp add: active_def)
  from single_active_run [OF demo_keyed_reachable r(2) this] show ?thesis
    unfolding r(3) using r(1) by blast
qed

text \<open>
  Property C25: results are final. Once a task is completed or cancelled, no sequence of later calls, by
  any client, changes its row; the task result that clients fetch stays the same.
\<close>

theorem results_final:
  assumes "reachable mode q" "queue_step\<^sup>*\<^sup>* q q'" "find_task i q = Some t"
    "t_state t = Completed \<or> t_state t = Cancelled"
  shows "find_task i q' = Some t \<and> get_task_result i q' = get_task_result i q"
proof -
  have "evolves q q'" using queue_steps_evolve [OF assms(2) reachable_inv [OF assms(1)]] by simp
  from evolves_find_task [OF this assms(3)] obtain t' where "find_task i q' = Some t'" "task_change t t'"
    by blast
  with assms(4) have "find_task i q' = Some t" by (auto simp: task_change_def)
  with assms(3,4) show ?thesis by (auto simp: get_task_result_def)
qed

theorem results_final_witness:
  "\<exists>q'. emit_event 50 ''go'' None demo_done = Inr q' \<and>
     get_task_result 0 q' = Some \<lparr>tr_state = Completed, tr_result = Some (JBool True), tr_failure_reason = None\<rparr>"
proof -
  obtain q' where q': "emit_event 50 ''go'' None demo_done = Inr q'"
  proof -
    have "isl (emit_event 50 ''go'' None demo_done) = False" by code_simp
    then show ?thesis using that by (cases "emit_event 50 ''go'' None demo_done") auto
  qed
  have r: "get_task_result 0 demo_done
      = Some \<lparr>tr_state = Completed, tr_result = Some (JBool True), tr_failure_reason = None\<rparr>" by code_simp
  have "map_option t_state (find_task 0 demo_done) = Some Completed" by code_simp
  then obtain t where t: "find_task 0 demo_done = Some t" "t_state t = Completed" by auto
  have "queue_step\<^sup>*\<^sup>* demo_done q'" using queue_step.emit [OF q'] by blast
  from results_final [OF demo_done_reachable this t(1) disjI1 [OF t(2)]] r q' show ?thesis by simp
qed

text \<open>
  Property C36: the attempt counter of a task never exceeds its \<open>max_attempts\<close>, whatever sequence of spawns,
  claims, failures, lease expiries, retries and cancellations led to the queue, and no run has an attempt
  number above it.
\<close>

theorem attempts_bounded:
  assumes "reachable mode q" "find_task i q = Some t" "t_max_attempts t = Some m"
  shows "t_attempts t \<le> m \<and> (\<forall>r \<in> set (runs q). r_task r = i \<longrightarrow> r_attempt r \<le> m)"
proof -
  have t: "t \<in> set (tasks q)" "t_id t = i" using find_taskD [OF assms(2)] by simp_all
  have "t_attempts t \<le> m" using reachable_bounded [OF assms(1) t(1)] assms(3) by (simp add: bounded_def)
  moreover have "r_attempt r \<le> t_attempts t" if "r \<in> set (runs q)" "r_task r = i" for r
    using queue_inv_coreD [OF reachable_inv [OF assms(1)]] t that by (simp add: core_inv_def)
  ultimately show ?thesis by fastforce
qed

theorem attempts_bounded_witness:
  "\<exists>t. find_task 2 demo_keyed = Some t \<and> t_attempts t \<le> 1"
proof -
  have "map_option t_max_attempts (find_task 2 demo_keyed) = Some (Some 1)" by code_simp
  then obtain t where t: "find_task 2 demo_keyed = Some t" "t_max_attempts t = Some 1" by auto
  from attempts_bounded [OF demo_keyed_reachable t] t(1) show ?thesis by blast
qed

text \<open>
  Property C19: a claim hands out each run at most once. It returns at most \<open>qty\<close> runs (one, for a smaller
  \<open>qty\<close>) of distinct tasks, every one of them running afterwards under the worker's name with the lease
  asked for, and none of them was running with an unexpired (or no) lease before.
\<close>

theorem claim_exclusive:
  assumes "reachable mode q" "claim_task now worker timeout qty q = Inr (rows, q')"
  shows "int (length rows) \<le> max qty 1 \<and> distinct (map ct_task_id rows) \<and>
    (\<forall>row \<in> set rows.
       (\<forall>r. find_run (ct_run_id row) q = Some r \<longrightarrow> \<not> held now r) \<and>
       (\<exists>r. find_run (ct_run_id row) q' = Some r \<and> r_state r = Running \<and> r_task r = ct_task_id row \<and>
          r_attempt r = ct_attempt row \<and>
          r_claimed_by r = Some (if worker = [] then ''worker'' else worker) \<and>
          r_claim_expires_at r = (if timeout > 0 then Some (now + timeout * second) else None)))"
  using assms(2)
proof (cases rule: claim_task_cases)
  case (1 q1 q2)
  note inv = reachable_inv [OF assms(1)]
  have inv2: "queue_inv q2" using inv 1 apply_cancellations_inv sweep_expired_inv by blast
  let ?cs = "candidates now (nat (max qty 1)) q2"
  have "map ct_task_id rows = map r_task ?cs" using 1(3) by simp
  then have "distinct (map ct_task_id rows)" using candidates_distinct_task [OF inv2] by simp
  moreover have "int (length rows) \<le> max qty 1" using 1(3) by simp
  moreover have "\<not> held now r" if "x \<in> set ?cs" "find_run (r_id x) q = Some r" for x r
  proof
    assume "held now r"
    from held_after_sweep [OF inv that(2) this 1(1,2)] find_run_candidate [OF inv2 that(1)]
    have "x = r \<or> r_state x = Cancelled" by auto
    with candidates_claimable [OF that(1)] \<open>held now r\<close> show False
      by (auto simp: claimable_def held_def)
  qed
  moreover have "\<exists>r. find_run (r_id x) q' = Some r \<and> r_state r = Running \<and> r_task r = r_task x \<and>
      r_attempt r = r_attempt x \<and> r_claimed_by r = Some (if worker = [] then ''worker'' else worker) \<and>
      r_claim_expires_at r = (if timeout > 0 then Some (now + timeout * second) else None)"
    if "x \<in> set ?cs" for x
    using that find_run_candidate [OF inv2 that] by (simp add: 1(4) find_run_take)
  ultimately show ?thesis by (auto simp: 1(3))
qed

theorem claim_exclusive_witness:
  "\<exists>row q'. claim_task 40 ''v'' 30 5 demo_keyed = Inr ([row], q') \<and> ct_task_id row = 2 \<and>
     (\<exists>r. find_run (ct_run_id row) q' = Some r \<and> r_claimed_by r = Some ''v'' \<and>
        r_claim_expires_at r = Some 30000040)"
proof -
  have "(case claim_task 40 ''v'' 30 5 demo_keyed of Inr (rows, q') \<Rightarrow> map ct_task_id rows = [2]
      | _ \<Rightarrow> False)"
    by code_simp
  then obtain row q' where c: "claim_task 40 ''v'' 30 5 demo_keyed = Inr ([row], q')" "ct_task_id row = 2"
    by (auto split: sum.splits)
  from claim_exclusive [OF demo_keyed_reachable c(1)] c show ?thesis by (auto simp: second_def)
qed

text \<open>
  A claim leaves no due work behind. When it returns fewer runs than it was allowed to, no run of
  the queue can be claimed at that time any more: every pending or sleeping run of an active task is still
  waiting for its time.
\<close>

lemma claim_takes_all_due:
  assumes "reachable mode q" "claim_task now worker timeout qty q = Inr (rows, q')"
    "int (length rows) < max qty 1" "r \<in> set (runs q')"
  shows "\<not> claimable now q' r"
  using assms(2)
proof (cases rule: claim_task_cases)
  case (1 q1 q2)
  have "queue_inv q2" using reachable_inv [OF assms(1)] 1 apply_cancellations_inv sweep_expired_inv by blast
  moreover have "length (candidates now (nat (max qty 1)) q2) < nat (max qty 1)"
    using assms(3) 1(3) by auto
  ultimately show ?thesis
    using take_all_not_claimable [of q2 now "nat (max qty 1)"] assms(4) 1(4) by blast
qed

text \<open>
  Property C29: an idempotency key identifies one task for ever. After a spawn with key \<open>k\<close>, whatever calls
  follow, another valid spawn with that key succeeds, creates nothing, and returns the task of the first.
\<close>

theorem spawn_idempotent:
  assumes "reachable mode q" "spawn_task now name p opts q = Inr (row, q1)"
    "read_spawn_options opts = Inr cols" "sc_idempotency_key cols = Some k"
    "queue_step\<^sup>*\<^sup>* q1 q2" "\<not> is_blank name2"
    "read_spawn_options opts2 = Inr cols2" "sc_idempotency_key cols2 = Some k"
  shows "\<exists>row2 q3. spawn_task now2 name2 p2 opts2 q2 = Inr (row2, q3) \<and> s_task row2 = s_task row \<and>
     \<not> s_created row2 \<and> tasks q3 = tasks q2 \<and> runs q3 = runs q2"
proof -
  have r1: "reachable mode q1" using assms(1,2) by (blast intro: reachable.step queue_step.spawn)
  have "key_task k q2 = Some (s_task row)"
    using key_task_evolves spawn_task_key [OF reachable_inv [OF assms(1)] assms(2-4)]
      queue_steps_evolve [OF assms(5) reachable_inv [OF r1]] by blast
  from spawn_task_existing [OF this _ assms(6-8)]
    reachable_bounded [OF reachable_steps [OF assms(5) r1]]
  obtain row2 where "spawn_task now2 name2 p2 opts2 q2 = Inr (row2, q2\<lparr>uuids := Suc (Suc (uuids q2))\<rparr>)"
    "s_task row2 = s_task row" "\<not> s_created row2" by blast
  then show ?thesis by fastforce
qed

theorem spawn_idempotent_witness:
  "\<exists>row q3. spawn_task 60 ''other'' None (Some (JObj [(''idempotency_key'', JStr ''k'')])) demo_waiting
     = Inr (row, q3) \<and> s_task row = 2"
proof -
  let ?o = "Some (JObj [(''max_attempts'', JNum 1), (''idempotency_key'', JStr ''k'')])"
  let ?o2 = "Some (JObj [(''idempotency_key'', JStr ''k'')])"
  obtain r where r: "find_run 1 demo_keyed = Some r" "r_task r = 0" using demo_run by blast
  have steps: "queue_step\<^sup>*\<^sup>* demo_keyed demo_waiting" using queue_step.await [OF demo_waits r] by blast
  have o1: "read_spawn_options ?o = Inr \<lparr>sc_headers = None, sc_retry_strategy = None,
      sc_max_attempts = Some 1, sc_cancellation = None, sc_idempotency_key = Some ''k''\<rparr>" by code_simp
  have o2: "read_spawn_options ?o2 = Inr \<lparr>sc_headers = None, sc_retry_strategy = None,
      sc_max_attempts = None, sc_cancellation = None, sc_idempotency_key = Some ''k''\<rparr>" by code_simp
  have n: "\<not> is_blank ''other''" by code_simp
  obtain row q3 where "spawn_task 60 ''other'' None ?o2 demo_waiting = Inr (row, q3)" "s_task row = 2"
    using spawn_idempotent [OF demo_claimed_reachable demo_keyed_spawned o1 _ steps n o2,
      where ?now2.0 = 60 and ?p2.0 = None] by fastforce
  then show ?thesis by blast
qed

text \<open>
  Property C26: event payloads are immutable and no wake-up is lost. A payload once emitted stays through all
  later calls, emits of the same event included, and no run is left waiting for an event that has one.
\<close>

theorem events_first_write:
  assumes "reachable mode q" "queue_step\<^sup>*\<^sup>* q q'"
  shows "(\<forall>n p. event_payload n q = Some p \<longrightarrow> event_payload n q' = Some p) \<and>
     (\<forall>w \<in> set (waits q'). event_payload (w_event w) q' = None)"
  using queue_steps_kept [OF assms(2) reachable_inv [OF assms(1)]]
    reachable_waits_open [OF reachable_steps [OF assms(2,1)]]
  by (auto simp: events_kept_def waits_open_def)

theorem events_first_write_witness:
  "\<exists>w ws. waits demo_waiting = w # ws \<and> event_payload (w_event w) demo_waiting = None"
proof -
  have "waits demo_waiting \<noteq> []" by code_simp
  then obtain w ws where "waits demo_waiting = w # ws" by (cases "waits demo_waiting") auto
  with events_first_write [OF demo_waiting_reachable, of demo_waiting] show ?thesis by auto
qed

text \<open>
  Property C27: an emit wakes a waiting run. When \<open>await_event\<close> put a run to sleep, an emit of that event before
  the wait's timeout makes the run pending at once with the payload, stores the payload as the wait's checkpoint,
  and removes the wait.
\<close>

theorem emit_wakes:
  assumes "reachable mode q" "find_run i q = Some r" "r_task r = ti"
    "await_event now ti i step ev timeout q = Inr (w, q1)" "aw_suspend w"
    "emit_event now2 ev p q1 = Inr q2" "(case timeout of None \<Rightarrow> True | Some s \<Rightarrow> now2 < now + s * second)"
  shows "\<exists>r2. find_run i q2 = Some r2 \<and> r_state r2 = Pending \<and> r_available_at r2 = At now2 \<and>
     r_event_payload r2 = Some (case p of None \<Rightarrow> JNull | Some j \<Rightarrow> j) \<and>
     Option.bind (find_checkpoint ti step q2) c_state = Some (case p of None \<Rightarrow> JNull | Some j \<Rightarrow> j) \<and>
     (\<forall>x \<in> set (waits q2). w_run x \<noteq> i)"
proof -
  let ?v = "case p of None \<Rightarrow> JNull | Some j \<Rightarrow> j"
  let ?w = "\<lparr>w_task = ti, w_run = i, w_step = step, w_event = ev,
    w_timeout_at = map_option (\<lambda>s. now + s * second) timeout, w_created_at = now\<rparr>"
  have r1: "reachable mode q1" by (rule reachable.step [OF assms(1) queue_step.await [OF assms(4,2,3)]])
  have w: "?w \<in> set (waits q1)" by (rule await_suspends [OF reachable_inv [OF assms(1)] assms(2-5)])
  have "event_payload ev q1 = None" using reachable_waits_open [OF r1] w by (fastforce simp: waits_open_def)
  with assms(6) obtain q1a where f: "record_event now2 ev ?v q1 = Some q1a" "q2 = wake_waiters now2 ev ?v q1a"
    by (cases rule: emit_event_cases) auto
  have "waits q1a = waits q1" using f(1) by (auto simp: record_event_def split: option.splits if_splits)
  moreover have "wait_live now2 ?w" using assms(7) by (simp add: wait_live_def split: option.splits)
  ultimately show ?thesis
    using wake_waiters_wakes [OF record_event_inv [OF reachable_inv [OF r1] f(1)], of ?w now2 q2 ?v] w f(2)
    by auto
qed

theorem emit_wakes_witness:
  "\<exists>q2 r2. emit_event 40 ''go'' (Some (JNum 7)) demo_waiting = Inr q2 \<and>
     find_run 1 q2 = Some r2 \<and> r_state r2 = Pending \<and> r_event_payload r2 = Some (JNum 7)"
proof -
  obtain r where r: "find_run 1 demo_keyed = Some r" "r_task r = 0" using demo_run by blast
  have "\<not> isl (emit_event 40 ''go'' (Some (JNum 7)) demo_waiting)" by code_simp
  then obtain q2 where q2: "emit_event 40 ''go'' (Some (JNum 7)) demo_waiting = Inr q2"
    by (cases "emit_event 40 ''go'' (Some (JNum 7)) demo_waiting") auto
  from emit_wakes [OF demo_keyed_reachable r demo_waits _ q2] q2 show ?thesis
    by (auto simp: second_def)
qed

end
