(* ===== verification/Run_Spec.thy ===== *)
theory Run_Spec
  imports Store_Spec
begin

text \<open>
  Properties of single runs of a queue: what a failed attempt leads to, when the next one may start, how
  checkpoints of concurrent attempts are fenced, what a cancellation stops, what a respawn copies.
\<close>

section \<open>Looking rows up after an operation\<close>

lemma find_fields [simp]:
  "find_run i (delete_waits P q) = find_run i q" "find_task i (delete_waits P q) = find_task i q"
  "find_run i (update_tasks Q g q) = find_run i q" "find_task i (update_runs R f q) = find_task i q"
  "find_run i (upsert_checkpoint c q) = find_run i q" "find_task i (upsert_checkpoint c q) = find_task i q"
  by (simp_all add: find_run_def find_task_def store_updates)

lemma find_run_fresh: "queue_inv q \<Longrightarrow> find_run (uuids q) q = None"
  using queue_inv_coreD by (fastforce simp: find_run_def core_inv_def tbl_simps)

lemma find_mark [simp]:
  "find_run i (mark_run_failed now j reason q) = map_option (\<lambda>r. if r_id r = j
     then r\<lparr>r_state := Failed, r_wake_event := None, r_failed_at := Some now, r_failure_reason := reason\<rparr>
     else r) (find_run i q)"
  "find_task i (mark_run_failed now j reason q) = find_task i q"
  "uuids (mark_run_failed now j reason q) = uuids q"
  "tasks (mark_run_failed now j reason q) = tasks q"
  by (simp_all add: mark_run_failed_def find_run_update_runs) (simp_all add: store_updates)

lemma find_settle [simp]:
  "find_task i (settle_task ti st n l c q) = map_option (\<lambda>t. if t_id t = ti
     then t\<lparr>t_state := st, t_attempts := max (t_attempts t) n, t_last_attempt_run := Some l,
            t_cancelled_at := (case t_cancelled_at t of None \<Rightarrow> c | x \<Rightarrow> x)\<rparr> else t) (find_task i q)"
  "find_run i (settle_task ti st n l c q) = find_run i q"
  by (simp_all add: settle_task_def find_task_update_tasks)

lemma find_run_add [simp]:
  "find_run i (q\<lparr>runs := runs q @ [r], uuids := n\<rparr>)
     = (case find_run i q of None \<Rightarrow> if r_id r = i then Some r else None | x \<Rightarrow> x)"
  "find_task i (q\<lparr>runs := rs, uuids := n\<rparr>) = find_task i q"
  by (auto simp: find_run_def find_task_def tbl_find_append split: option.splits)

section \<open>Failed attempts\<close>

text \<open>
  Property C28: a failed attempt is retried after exactly its delay. When attempts are left, the retry strategy gives a
  delay, and the task may still run by then, since it has no \<open>max_duration\<close> or that will not have passed at the time of
  the next attempt, \<open>fail_run\<close> of a running or suspended run succeeds, keeps the failure on the run, and creates the
  next attempt, which no claim can take before the delay has passed and any claim can from then on.
\<close>

theorem retry_scheduled:
  assumes "reachable mode q" "find_run i q = Some r" "r_state r = Running \<or> r_state r = Sleeping"
    "find_task (r_task r) q = Some t" "may_retry (t_max_attempts t) (r_attempt r)"
    "retry_delay_seconds (t_retry_strategy t) (r_attempt r) = Inr d"
    "past_max_duration (t_cancellation t) (t_first_started_at t) (Some (now + interval_secs d)) = Inr False"
  shows "\<exists>q' r0 r'. fail_run now i reason None q = Inr q' \<and>
     find_run i q' = Some r0 \<and> r_state r0 = Failed \<and> r_failure_reason r0 = reason \<and>
     find_run (uuids q) q' = Some r' \<and> r_task r' = r_task r \<and> r_attempt r' = r_attempt r + 1 \<and>
     (\<forall>later. claimable later q' r' \<longleftrightarrow> now + interval_secs d \<le> later)"
proof -
  let ?due = "now + interval_secs d"
  have ri: "r_id r = i" "find_task (r_task r) q = Some t" using find_runD [OF assms(2)] assms(4) by simp_all
  have "0 \<le> interval_secs d"
    using retry_delay_bounds [OF assms(6)] by (simp add: interval_secs_def second_def round_def)
  then have dec: "fail_decision now (Some t) r None = Inr (Retry_at ?due)"
    by (simp add: fail_decision_def next_available_def assms(5-7) max_def)
  define q' where "q' = delete_waits (\<lambda>w. w_run w = i)
    (apply_fail_outcome now r (Retry_at ?due) (mark_run_failed now i reason q))"
  have f: "fail_run now i reason None q = Inr q'"
    using assms(2,3) by (auto simp: fail_run_def ri(2) dec q'_def)
  define st where "st = (if ?due > now then Sleeping else Pending)"
  have old: "find_run i q' = Some (r\<lparr>r_state := Failed, r_wake_event := None, r_failed_at := Some now,
      r_failure_reason := reason\<rparr>)"
    by (simp add: q'_def apply_fail_outcome_def Let_def assms(2) ri(1))
  have new: "find_run (uuids q) q' = Some (new_run (uuids q) (r_task r) (r_attempt r + 1) st ?due now)"
    by (simp add: q'_def apply_fail_outcome_def Let_def find_run_fresh [OF reachable_inv [OF assms(1)]]
        st_def) (simp add: new_run_def)
  have task: "map_option t_state (find_task (r_task r) q') = Some st"
    using find_taskD [OF ri(2)] by (simp add: q'_def apply_fail_outcome_def Let_def ri(2) st_def)
  then obtain t' where t': "find_task (r_task r) q' = Some t'" "t_state t' = st" by auto
  have "claimable later q' (new_run (uuids q) (r_task r) (r_attempt r + 1) st ?due now)
      \<longleftrightarrow> ?due \<le> later" for later
    using t' by (auto simp: claimable_def new_run_def st_def active_def)
  note cl = this
  show ?thesis
    by (rule exI [of _ q'], rule exI, rule exI, intro conjI, rule f, rule old, simp, simp, rule new)
      (simp_all add: cl, simp_all add: new_run_def)
qed

theorem retry_scheduled_witness:
  "\<exists>q' r'. fail_run 50 1 (Some (JStr ''boom'')) None demo_keyed = Inr q' \<and>
     find_run (uuids demo_keyed) q' = Some r' \<and> r_attempt r' = 2 \<and> claimable 50 q' r'"
proof -
  have "map_option (\<lambda>r. (r_task r, r_state r, r_attempt r)) (find_run 1 demo_keyed) = Some (0, Running, 1)"
    by code_simp
  then obtain r where r: "find_run 1 demo_keyed = Some r" "r_task r = 0" "r_state r = Running" "r_attempt r = 1"
    by auto
  have "map_option (\<lambda>t. (t_max_attempts t, t_retry_strategy t, t_cancellation t)) (find_task 0 demo_keyed)
      = Some (None, None, None)" by code_simp
  then obtain t where t: "find_task (r_task r) demo_keyed = Some t" "t_max_attempts t = None"
    "t_retry_strategy t = None" "t_cancellation t = None" using r(2) by auto
  have "may_retry (t_max_attempts t) (r_attempt r)" by (simp add: t(2) may_retry_def)
  moreover have "retry_delay_seconds (t_retry_strategy t) (r_attempt r) = Inr 0"
    by (simp add: t(3) retry_delay_seconds_def)
  ultimately show ?thesis
    using retry_scheduled [OF demo_keyed_reachable r(1) disjI1 [OF r(3)] t(1), of 0 50 "Some (JStr ''boom'')"]
    by (auto simp: interval_secs_def r(4) t(4) past_max_duration_def)
qed

text \<open>
  Property C37: the last attempt's failure is the task's. When no attempt is left, \<open>fail_run\<close> makes the task
  failed for good: its result is the failure reason of that run and it has no run that could still be claimed
  or completed.
\<close>

theorem retry_exhausted:
  assumes "reachable mode q" "find_run i q = Some r" "r_state r = Running \<or> r_state r = Sleeping"
    "find_task (r_task r) q = Some t" "\<not> may_retry (t_max_attempts t) (r_attempt r)"
  shows "\<exists>q'. fail_run now i reason retry_at q = Inr q' \<and>
     get_task_result (r_task r) q' = Some \<lparr>tr_state = Failed, tr_result = None, tr_failure_reason = reason\<rparr> \<and>
     (\<forall>x \<in> set (runs q'). r_task x = r_task r \<longrightarrow> \<not> active (r_state x))"
proof -
  have ri: "r_id r = i" using find_runD [OF assms(2)] by simp
  define q' where "q' = delete_waits (\<lambda>w. w_run w = i)
    (apply_fail_outcome now r Give_up (mark_run_failed now i reason q))"
  have f: "fail_run now i reason retry_at q = Inr q'"
    using assms(2-5) by (auto simp: fail_run_def fail_decision_def q'_def)
  have task: "\<exists>t'. find_task (r_task r) q' = Some t' \<and> t_state t' = Failed \<and> t_last_attempt_run t' = Some i"
    using find_taskD [OF assms(4)] by (simp add: q'_def apply_fail_outcome_def assms(4) ri)
  have run: "find_run i q' = Some (r\<lparr>r_state := Failed, r_wake_event := None, r_failed_at := Some now,
      r_failure_reason := reason\<rparr>)"
    by (simp add: q'_def apply_fail_outcome_def assms(2) ri)
  have "queue_inv q'" by (rule fail_run_inv [OF reachable_inv [OF assms(1)] f])
  moreover obtain t' where t': "t' \<in> set (tasks q')" "t_id t' = r_task r" "t_state t' = Failed"
    using task find_taskD by blast
  ultimately have "\<not> active (r_state x)" if "x \<in> set (runs q')" "r_task x = r_task r" for x
    using active_task(1) [of q' x t'] that by (auto simp: active_def)
  with f task run show ?thesis by (auto simp: get_task_result_def)
qed

theorem retry_exhausted_witness:
  "\<exists>q' q''. claim_task 40 ''v'' 30 1 demo_keyed = Inr q' \<and>
     fail_run 50 3 (Some (JStr ''boom'')) None (snd q') = Inr q'' \<and>
     get_task_result 2 q'' = Some \<lparr>tr_state = Failed, tr_result = None, tr_failure_reason = Some (JStr ''boom'')\<rparr>"
proof -
  let ?q = "queue_after (claim_task 40 ''v'' 30 1 demo_keyed)"
  have "\<not> isl (claim_task 40 ''v'' 30 1 demo_keyed)" by code_simp
  then obtain rows where c: "claim_task 40 ''v'' 30 1 demo_keyed = Inr (rows, ?q)"
    by (cases "claim_task 40 ''v'' 30 1 demo_keyed") (auto simp: queue_after_def)
  have reach: "reachable Unpartitioned ?q"
    by (rule reachable.step [OF demo_keyed_reachable queue_step.claim [OF c]])
  have "map_option (\<lambda>r. (r_task r, r_state r, r_attempt r)) (find_run 3 ?q) = Some (2, Running, 1)"
    by code_simp
  then obtain r where r: "find_run 3 ?q = Some r" "r_task r = 2" "r_state r = Running" "r_attempt r = 1"
    by auto
  have "map_option t_max_attempts (find_task 2 ?q) = Some (Some 1)" by code_simp
  then obtain t where t: "find_task (r_task r) ?q = Some t" "t_max_attempts t = Some 1" using r(2) by auto
  have "\<not> may_retry (t_max_attempts t) (r_attempt r)" by (simp add: t(2) r(4) may_retry_def)
  from retry_exhausted [OF reach r(1) disjI1 [OF r(3)] t(1) this, where now = 50 and retry_at = None
      and reason = "Some (JStr ''boom'')"]
  obtain q'' where "fail_run 50 3 (Some (JStr ''boom'')) None ?q = Inr q''"
    "get_task_result 2 q'' = Some \<lparr>tr_state = Failed, tr_result = None, tr_failure_reason = Some (JStr ''boom'')\<rparr>"
    unfolding r(2) by blast
  with c show ?thesis by (intro exI [of _ "(rows, ?q)"] exI [of _ q'']) simp
qed

text \<open>
  Every retry strategy that the store accepts delays an attempt by at most a day, for any attempt
  number, however the exponential grows.
\<close>

lemma retry_delay_bounded:
  assumes "retry_delay_seconds strategy attempt = Inr d"
  shows "0 \<le> d \<and> d \<le> 86400"
  using retry_delay_bounds [OF assms] by (simp add: retry_limit_def)

section \<open>Checkpoints\<close>

lemma set_checkpoint_effect:
  assumes "set_task_checkpoint_state now ti n st i ext q = Inr q'" "find_run i q = Some r"
  shows "(case Option.bind (find_checkpoint ti n q) (\<lambda>c. Option.bind (c_owner_run c) (\<lambda>j. find_run j q)) of
       Some w \<Rightarrow> if r_attempt r < r_attempt w
         then get_task_checkpoint_state ti n q' = get_task_checkpoint_state ti n q
         else map_option c_state (get_task_checkpoint_state ti n q') = Some st
     | None \<Rightarrow> map_option c_state (get_task_checkpoint_state ti n q') = Some st) \<and>
     (\<forall>tj m. (tj, m) \<noteq> (ti, n) \<longrightarrow> get_task_checkpoint_state tj m q' = get_task_checkpoint_state tj m q)"
proof -
  define q1 where "q1 = (if ext \<noteq> None \<and> the ext > 0
    then update_runs (\<lambda>x. r_id x = i \<and> r_state x = Running \<and> r_claim_expires_at x \<noteq> None)
      (\<lambda>x. x\<lparr>r_claim_expires_at := Some (now + the ext * second)\<rparr>) q else q)"
  define ex where "ex = Option.bind (find_checkpoint ti n q) (\<lambda>c.
    Option.bind (c_owner_run c) (\<lambda>j. map_option r_attempt (find_run j q)))"
  define row where "row = \<lparr>c_task = ti, c_name = n, c_state = st, c_status = ''committed'',
    c_owner_run = Some i, c_updated_at = now\<rparr>"
  have q': "q' = (if ex = None \<or> r_attempt r \<ge> the ex then upsert_checkpoint row q1 else q1)"
    using assms by (auto simp: set_task_checkpoint_state_def Let_def ex_def q1_def row_def
        split: option.splits if_splits)
  have same: "find_checkpoint j m q1 = find_checkpoint j m q" for j m
    by (simp add: q1_def find_checkpoint_def store_updates)
  have ex: "ex = map_option r_attempt (Option.bind (find_checkpoint ti n q)
      (\<lambda>c. Option.bind (c_owner_run c) (\<lambda>j. find_run j q)))"
    by (auto simp: ex_def split: option.splits bind_splits)
  show ?thesis unfolding q'
    by (auto simp: get_task_checkpoint_state_def ex find_checkpoint_upsert same row_def
        split: option.splits)
qed

lemma set_checkpoint_run:
  "set_task_checkpoint_state now ti n st i ext q = Inr q' \<Longrightarrow> \<exists>r. find_run i q = Some r"
  by (auto simp: set_task_checkpoint_state_def split: if_splits option.splits)

lemma set_checkpoint_frame:
  "set_task_checkpoint_state now ti n st i ext q = Inr q' \<Longrightarrow>
    q'\<lparr>runs := [], checkpoints := []\<rparr> = q\<lparr>runs := [], checkpoints := []\<rparr>"
  by (auto simp: set_task_checkpoint_state_def Let_def store_updates upsert_checkpoint_def
      split: if_splits option.splits)

section \<open>Completing, scheduling and checkpointing a run\<close>

lemma complete_run_result:
  assumes "find_run i q = Some r" "r_state r = Running" "find_task (r_task r) q = Some t"
  shows "\<exists>q'. complete_run now i p q = Inr q' \<and>
    get_task_result (r_task r) q' = Some \<lparr>tr_state = Completed, tr_result = p, tr_failure_reason = None\<rparr> \<and>
    checkpoints q' = checkpoints q"
proof -
  have "t_id t = r_task r" using assms(3) tbl_find_SomeD by (fastforce simp: find_task_def)
  then show ?thesis
    using assms
    by (auto simp: complete_run_def get_task_result_def store_updates find_task_def tbl_find_update_key [of t_id])
qed

lemma schedule_run_find:
  assumes "find_run i q = Some r" "r_state r = Running" "find_task (r_task r) q = Some t"
  shows "\<exists>q'. schedule_run i at_time q = Inr q' \<and> find_run i q' = Some (r\<lparr>r_state := Sleeping, r_claimed_by := None,
      r_claim_expires_at := None, r_available_at := At at_time, r_wake_event := None\<rparr>) \<and>
    find_task (r_task r) q' = Some (t\<lparr>t_state := Sleeping\<rparr>) \<and> checkpoints q' = checkpoints q"
proof -
  have "tbl_find (\<lambda>x. r_id x = i) rs = Some r \<Longrightarrow> tbl_find (\<lambda>x. r_id x = i \<and> r_state x = Running) rs = Some r" for rs
    using assms(2) by (induction rs) (auto split: if_splits)
  then have "tbl_find (\<lambda>x. r_id x = i \<and> r_state x = Running) (runs q) = Some r"
    using assms(1) by (simp add: find_run_def)
  moreover have "t_id t = r_task r" "r_id r = i"
    using assms(1,3) tbl_find_SomeD by (fastforce simp: find_task_def find_run_def)+
  ultimately show ?thesis
    using assms(1,3)
    by (auto simp: schedule_run_def find_run_def find_task_def store_updates tbl_find_update_key [of t_id]
        tbl_find_update_key [of r_id])
qed

text \<open>
  No checkpoint of the task was written by an attempt after run \<open>i\<close>, as is the case while that run holds the lease;
  then a checkpoint that the run writes takes effect.
\<close>

definition unfenced_run :: "uuid \<Rightarrow> uuid \<Rightarrow> qstate \<Rightarrow> bool" where
  "unfenced_run ti i q \<longleftrightarrow>
     (case find_run i q of
        None \<Rightarrow> True
      | Some r \<Rightarrow> \<forall>c \<in> set (checkpoints q). c_task c = ti \<longrightarrow>
          (case Option.bind (c_owner_run c) (\<lambda>j. find_run j q) of
             None \<Rightarrow> True | Some w \<Rightarrow> r_attempt w \<le> r_attempt r))"

abbreviation unfenced :: "claimed_task \<Rightarrow> qstate \<Rightarrow> bool" where
  "unfenced task q \<equiv> unfenced_run (ct_task_id task) (ct_run_id task) q"

lemma set_checkpoint_form:
  assumes "set_task_checkpoint_state now ti n st i ext q = Inr q'"
  shows "map_option r_attempt (find_run j q') = map_option r_attempt (find_run j q)"
    "c \<in> set (checkpoints q') \<Longrightarrow> c \<in> set (checkpoints q) \<or> c_owner_run c = Some i"
proof -
  define q1 where "q1 = (if ext \<noteq> None \<and> the ext > 0
    then update_runs (\<lambda>x. r_id x = i \<and> r_state x = Running \<and> r_claim_expires_at x \<noteq> None)
      (\<lambda>x. x\<lparr>r_claim_expires_at := Some (now + the ext * second)\<rparr>) q else q)"
  have "q' = q1 \<or> q' = upsert_checkpoint \<lparr>c_task = ti, c_name = n, c_state = st, c_status = ''committed'',
    c_owner_run = Some i, c_updated_at = now\<rparr> q1"
    using assms by (auto simp: set_task_checkpoint_state_def Let_def q1_def split: option.splits if_splits)
  moreover have "map_option r_attempt (find_run j q1) = map_option r_attempt (find_run j q)"
    by (auto simp: q1_def find_run_update_runs option.map_comp comp_def intro!: option.map_cong)
  moreover have "checkpoints q1 = checkpoints q" by (simp add: q1_def store_updates)
  ultimately show "map_option r_attempt (find_run j q') = map_option r_attempt (find_run j q)" by auto
  show "c \<in> set (checkpoints q') \<Longrightarrow> c \<in> set (checkpoints q) \<or> c_owner_run c = Some i"
    using \<open>q' = q1 \<or> _\<close> \<open>checkpoints q1 = checkpoints q\<close>
    by (auto simp: upsert_checkpoint_def tbl_upsert_def tbl_simps split: if_splits)
qed

lemma set_checkpoint_unfenced:
  assumes "unfenced_run ti i q" "set_task_checkpoint_state now ti n st i ext q = Inr q'"
  shows "unfenced_run ti i q'" "map_option c_state (get_task_checkpoint_state ti n q') = Some st"
proof -
  obtain r where r: "find_run i q = Some r" using set_checkpoint_run [OF assms(2)] by blast
  have fence: "r_attempt w \<le> r_attempt r"
    if "c \<in> set (checkpoints q)" "c_task c = ti" "c_owner_run c = Some j" "find_run j q = Some w"
    for c j w
    using assms(1) r that by (fastforce simp: unfenced_run_def)
  note att = set_checkpoint_form(1) [OF assms(2)]
  obtain r' where r': "find_run i q' = Some r'" "r_attempt r' = r_attempt r"
    using att [of i] r by (cases "find_run i q'") auto
  have "r_attempt w \<le> r_attempt r'"
    if c: "c \<in> set (checkpoints q')" "c_task c = ti" "c_owner_run c = Some j" "find_run j q' = Some w"
    for c j w
    using set_checkpoint_form(2) [OF assms(2) c(1)]
  proof
    assume "c \<in> set (checkpoints q)"
    moreover obtain w0 where "find_run j q = Some w0" "r_attempt w0 = r_attempt w"
      using att [of j] c(4) by (cases "find_run j q") auto
    ultimately show ?thesis using fence c(2,3) r'(2) by fastforce
  next
    assume "c_owner_run c = Some i"
    then show ?thesis using c(3,4) r' by simp
  qed
  then show "unfenced_run ti i q'"
    using r' by (auto simp: unfenced_run_def split: option.splits bind_splits)
  have "\<not> r_attempt r < r_attempt w"
    if "Option.bind (find_checkpoint ti n q) (\<lambda>c. Option.bind (c_owner_run c) (\<lambda>j. find_run j q))
      = Some w" for w
    using that fence by (fastforce simp: bind_eq_Some_conv find_checkpoint_def dest: tbl_find_SomeD)
  then show "map_option c_state (get_task_checkpoint_state ti n q') = Some st"
    using set_checkpoint_effect [OF assms(2) r] by (auto split: option.splits)
qed

text \<open>
  Property C38: checkpoint writes are fenced by attempt. A write that returns leaves the checkpoint of a later
  attempt as it is and otherwise replaces the checkpoint's state; every other checkpoint of the queue is
  untouched.
\<close>

theorem checkpoint_fencing:
  assumes "set_task_checkpoint_state now ti n st i ext q = Inr q'" "find_run i q = Some r"
  shows "(case Option.bind (find_checkpoint ti n q) (\<lambda>c. Option.bind (c_owner_run c) (\<lambda>j. find_run j q)) of
       Some w \<Rightarrow> if r_attempt r < r_attempt w
         then get_task_checkpoint_state ti n q' = get_task_checkpoint_state ti n q
         else map_option c_state (get_task_checkpoint_state ti n q') = Some st
     | None \<Rightarrow> map_option c_state (get_task_checkpoint_state ti n q') = Some st) \<and>
     (\<forall>tj m. (tj, m) \<noteq> (ti, n) \<longrightarrow> get_task_checkpoint_state tj m q' = get_task_checkpoint_state tj m q)"
  using set_checkpoint_effect [OF assms] by blast

theorem checkpoint_fencing_witness:
  "\<exists>q'. set_task_checkpoint_state 20 0 ''s'' (Some (JNum 5)) 1 None demo_claimed = Inr q' \<and>
     map_option c_state (get_task_checkpoint_state 0 ''s'' q') = Some (Some (JNum 5))"
proof -
  have "\<not> isl (set_task_checkpoint_state 20 0 ''s'' (Some (JNum 5)) 1 None demo_claimed)" by code_simp
  then obtain q' where q': "set_task_checkpoint_state 20 0 ''s'' (Some (JNum 5)) 1 None demo_claimed = Inr q'"
    by (cases "set_task_checkpoint_state 20 0 ''s'' (Some (JNum 5)) 1 None demo_claimed") auto
  have "find_run 1 demo_claimed \<noteq> None" "find_checkpoint 0 ''s'' demo_claimed = None" by code_simp+
  then obtain r where r: "find_run 1 demo_claimed = Some r" "find_checkpoint 0 ''s'' demo_claimed = None" by auto
  from checkpoint_fencing [OF q' r(1)] q' r(2) show ?thesis by auto
qed

section \<open>Cancellation\<close>



section \<open>Respawning a failed task\<close>

definition demo_failed :: qstate where
  "demo_failed =
     (let q1 = queue_after (spawn_task 0 ''job'' None (Some (JObj [(''max_attempts'', JNum 1),
                 (''headers'', JObj [(''a'', JNull), (''b'', JNum 1)])])) (empty_queue Unpartitioned));
          q2 = queue_after (claim_task 1 ''w'' 30 1 q1)
      in case fail_run 2 1 None None q2 of Inr q \<Rightarrow> q | Inl _ \<Rightarrow> q2)"

text \<open>
  Retrying a failed task as a new one copies its name and parameters, but not its headers as they
  are: fields of the headers that are JSON \<open>null\<close>, at any depth, are lost.
\<close>

lemma respawn_strips_headers:
  assumes "reachable mode q" "find_task i q = Some t" "t_state t = Failed" "t_headers t = Some h" "h \<noteq> JNull"
    "retry_task now i (Some (JObj [(''spawn_new'', JBool True)])) q = Inr (row, q')"
  shows "\<exists>t'. find_task (s_task row) q' = Some t' \<and> s_task row \<noteq> i \<and> t_name t' = t_name t \<and>
     t_params t' = t_params t \<and> t_headers t' = Some (strip_nulls h)"
  using assms(6)
proof (cases rule: retry_task_cases)
  case (revive t1 requested m)
  then have False by (auto simp: read_retry_options_def bind_result_Inr split: if_splits)
  then show ?thesis ..
next
  case (respawn t1 requested)
  have tt: "t1 = t" using respawn(1) assms(2) by simp
  let ?o = "respawn_options t requested"
  have heads: "json_get ''headers'' ?o = Some (strip_nulls h)"
    using assms(4,5) by (simp add: respawn_options_def Let_def)
  have key: "json_get ''idempotency_key'' ?o = None"
    by (auto simp: respawn_options_def Let_def split: option.splits)
  show ?thesis using respawn(4) unfolding tt
  proof (cases rule: spawn_task_cases)
    case (existing cols t2 k)
    then have False using key by (auto simp: read_spawn_options_def bind_result_Inr split: if_splits)
    then show ?thesis ..
  next
    case (created cols xs)
    have cols: "sc_headers cols = Some (strip_nulls h)"
      using created(1) heads by (auto simp: read_spawn_options_def bind_result_Inr split: if_splits)
    have fresh: "find_task (uuids q) q = None"
      using queue_inv_coreD [OF reachable_inv [OF assms(1)]]
      by (fastforce simp: find_task_def core_inv_def tbl_simps)
    moreover have "i \<noteq> uuids q" using fresh assms(2) by auto
    ultimately show ?thesis using created(3,4) cols
      by (auto simp: find_task_def insert_task_def tbl_find_append)
  qed
qed

lemma queue_after_spawn:
  "\<not> isl (spawn_task now n p opts q) \<Longrightarrow> queue_step q (queue_after (spawn_task now n p opts q))"
  by (cases "spawn_task now n p opts q") (auto simp: queue_after_def intro: queue_step.spawn)

lemma queue_after_claim:
  "\<not> isl (claim_task now w t n q) \<Longrightarrow> queue_step q (queue_after (claim_task now w t n q))"
  by (cases "claim_task now w t n q") (auto simp: queue_after_def intro: queue_step.claim)

lemma demo_failed_reachable: "reachable Unpartitioned demo_failed"
proof -
  let ?s = "spawn_task 0 ''job'' None (Some (JObj [(''max_attempts'', JNum 1),
                 (''headers'', JObj [(''a'', JNull), (''b'', JNum 1)])])) (empty_queue Unpartitioned)"
  let ?c = "claim_task 1 ''w'' 30 1 (queue_after ?s)"
  have "\<not> isl ?s" "\<not> isl ?c" by code_simp+
  then have r: "reachable Unpartitioned (queue_after ?c)"
    by (blast intro: reachable.intros queue_after_spawn queue_after_claim)
  have "fail_run 2 1 None None (queue_after ?c) = Inr demo_failed" by code_simp
  from reachable.step [OF r queue_step.fail [OF this]] show ?thesis .
qed

end
