(* ===== verification/Client.thy ===== *)
theory Client
  imports Client_Types Run_Spec "HOL-Library.AList" "HOL-Library.List_Lexorder" "HOL-Library.Char_ord"
begin

text \<open>
  The class \<open>Absurd\<close> of \<open>sdks/typescript/src/index.ts\<close>: the database of named queues that its SQL reaches, the
  registry, and every operation of a client that needs no running worker. Workers are in \<open>Executor\<close>.
\<close>

section \<open>The database behind a connection\<close>

text \<open>
  The queues by name, the database clock (\<open>absurd.current_time()\<close>, microseconds) and the clock of the JavaScript
  process (\<open>Date.now()\<close>, milliseconds). Records that extend \<open>world\<close> add the state of a running task.
\<close>

record world =
  w_queues :: "(string \<times> qstate) list"
  w_db_now :: int
  w_js_now :: int

definition set_queue :: "string \<Rightarrow> qstate \<Rightarrow> 'w world_scheme \<Rightarrow> 'w world_scheme" where
  "set_queue n q w = w\<lparr>w_queues := AList.update n q (w_queues w)\<rparr>"

text \<open>
  A query that calls one stored function of a queue. The tables of a queue that was not created do not
  exist; a function that raises rejects the query and rolls back.
\<close>

definition sql :: "string \<Rightarrow> (int \<Rightarrow> qstate \<Rightarrow> pg_error + 'a \<times> qstate) \<Rightarrow> ('w world_scheme, 'a) ts" where
  "sql n f = (\<lambda>w.
     case map_of (w_queues w) n of
       None \<Rightarrow> (Inl (DbError undefined_table), w)
     | Some q \<Rightarrow> (case f (w_db_now w) q of
                   Inl e \<Rightarrow> (Inl (DbError e), w)
                 | Inr (a, q') \<Rightarrow> (Inr a, set_queue n q' w)))"

definition sql_void :: "string \<Rightarrow> (int \<Rightarrow> qstate \<Rightarrow> pg_error + qstate) \<Rightarrow> ('w world_scheme, unit) ts" where
  "sql_void n f = sql n (\<lambda>now q. bind_result (f now q) (\<lambda>q'. Inr ((), q')))"

definition sql_rows :: "string \<Rightarrow> (qstate \<Rightarrow> pg_error + 'a) \<Rightarrow> ('w world_scheme, 'a) ts" where
  "sql_rows n f = sql n (\<lambda>_ q. bind_result (f q) (\<lambda>a. Inr (a, q)))"

definition js_now :: "('w world_scheme, int) ts" where
  "js_now = (\<lambda>w. (Inr (w_js_now w), w))"

text \<open>Lifting a check that does not touch the state.\<close>

definition check :: "exn + 'a \<Rightarrow> ('s, 'a) ts" where
  "check r = (case r of Inl e \<Rightarrow> throw e | Inr a \<Rightarrow> ret a)"

lemma check_simps [simp]: "check (Inl e) s = (Inl e, s)" "check (Inr a) s = (Inr a, s)"
  by (simp_all add: check_def)

text \<open>\<open>absurd.create_queue\<close>, \<open>drop_queue\<close> and \<open>list_queues\<close>.\<close>

definition sql_create_queue :: "string \<Rightarrow> storage_mode \<Rightarrow> ('w world_scheme, unit) ts" where
  "sql_create_queue n mode = (\<lambda>w.
     case validate_queue_name n of
       Inl e \<Rightarrow> (Inl (DbError e), w)
     | Inr _ \<Rightarrow>
         (case map_of (w_queues w) n of
            None \<Rightarrow> (Inr (), set_queue n (empty_queue mode) w)
          | Some q \<Rightarrow>
              if q_mode q \<noteq> mode
              then (Inl (DbError (raise_exception ''Queue already exists with storage mode'')), w)
              else (Inr (), w)))"

definition sql_drop_queue :: "string \<Rightarrow> ('w world_scheme, unit) ts" where
  "sql_drop_queue n = (\<lambda>w. (Inr (), w\<lparr>w_queues := AList.delete n (w_queues w)\<rparr>))"

definition sql_list_queues :: "('w world_scheme, string list) ts" where
  "sql_list_queues = (\<lambda>w. (Inr (sort (map fst (w_queues w))), w))"

lemma sql_simps:
  "sql n f w = (r, w') \<longleftrightarrow>
     (case map_of (w_queues w) n of
        None \<Rightarrow> r = Inl (DbError undefined_table) \<and> w' = w
      | Some q \<Rightarrow> (case f (w_db_now w) q of
                    Inl e \<Rightarrow> r = Inl (DbError e) \<and> w' = w
                  | Inr (a, q') \<Rightarrow> r = Inr a \<and> w' = set_queue n q' w))"
  by (auto simp: sql_def split: option.splits sum.splits)

lemma sql_Inr:
  assumes "sql n f w = (Inr a, w')"
  obtains q q' where "map_of (w_queues w) n = Some q" "f (w_db_now w) q = Inr (a, q')" "w' = set_queue n q' w"
  using assms by (auto simp: sql_def split: option.splits sum.splits)

lemma sql_void_eq:
  "sql_void n f w = (case map_of (w_queues w) n of
     None \<Rightarrow> (Inl (DbError undefined_table), w)
   | Some q \<Rightarrow> (case f (w_db_now w) q of
        Inl e \<Rightarrow> (Inl (DbError e), w)
      | Inr q' \<Rightarrow> (Inr (), set_queue n q' w)))"
  by (auto simp: sql_void_def sql_def split: option.splits sum.splits)

lemma map_of_set_queue [simp]:
  "map_of (w_queues (set_queue n q w)) m = (if m = n then Some q else map_of (w_queues w) m)"
  by (simp add: set_queue_def update_conv)

lemma set_queue_fields [simp]:
  "w_db_now (set_queue n q w) = w_db_now w" "w_js_now (set_queue n q w) = w_js_now w"
  by (simp_all add: set_queue_def)

section \<open>The client\<close>

record 'h RegisteredTask =
  rg_name :: string
  rg_queue :: string
  rg_defaultMaxAttempts :: "jsnum option"
  rg_defaultCancellation :: "CancellationPolicy option"
  rg_handler :: 'h

text \<open>
  The hook \<open>beforeSpawn\<close> is asynchronous code of the application; \<open>wrapTaskExecution\<close> gets the execution of the
  task as a function. Both may throw.
\<close>

record 's AbsurdHooks =
  hk_beforeSpawn :: "(string \<Rightarrow> json option \<Rightarrow> SpawnOptions \<Rightarrow> ('s, SpawnOptions) ts) option"
  hk_wrapTaskExecution :: "(('s, unit) ts \<Rightarrow> ('s, unit) ts) option"

record ('s, 'h) Absurd =
  ab_queueName :: string
  ab_defaultMaxAttempts :: jsnum
  ab_registry :: "string \<Rightarrow> 'h RegisteredTask option"
  ab_hooks :: "'s AbsurdHooks"
  ab_ownedPool :: bool

record 's AbsurdOptions =
  ao_owned :: bool
  ao_queueName :: "string option"
  ao_defaultMaxAttempts :: "jsnum option"
  ao_hooks :: "'s AbsurdHooks option"

definition no_hooks :: "'s AbsurdHooks" where
  "no_hooks = \<lparr>hk_beforeSpawn = None, hk_wrapTaskExecution = None\<rparr>"

text \<open>The constructor; \<open>ao_owned\<close> says whether it was given a connection string and makes its own pool.\<close>

definition new_Absurd :: "'s AbsurdOptions \<Rightarrow> exn + ('s, 'h) Absurd" where
  "new_Absurd options =
     bind_result (validateQueueName (case ao_queueName options of None \<Rightarrow> ''default'' | Some n \<Rightarrow> n)) (\<lambda>n.
       Inr \<lparr>ab_queueName = n,
            ab_defaultMaxAttempts = (case ao_defaultMaxAttempts options of None \<Rightarrow> Fin 5 | Some m \<Rightarrow> m),
            ab_registry = (\<lambda>_. None),
            ab_hooks = (case ao_hooks options of None \<Rightarrow> no_hooks | Some h \<Rightarrow> h),
            ab_ownedPool = ao_owned options\<rparr>)"

definition bindToConnection :: "('s, 'h) Absurd \<Rightarrow> bool \<Rightarrow> exn + ('s, 'h) Absurd" where
  "bindToConnection this owned =
     bind_result (new_Absurd \<lparr>ao_owned = False, ao_queueName = Some (ab_queueName this),
         ao_defaultMaxAttempts = Some (ab_defaultMaxAttempts this), ao_hooks = Some (ab_hooks this)\<rparr>)
       (\<lambda>bound. Inr (bound\<lparr>ab_registry := ab_registry this, ab_ownedPool := owned\<rparr>))"

definition or_own_queue :: "('s, 'h) Absurd \<Rightarrow> string option \<Rightarrow> exn + string" where
  "or_own_queue this q = validateQueueName (case q of None \<Rightarrow> ab_queueName this | Some n \<Rightarrow> n)"

fun below_one :: "jsnum \<Rightarrow> bool" where
  "below_one (Fin r) = (r < 1)"
| "below_one NegInf = True"
| "below_one _ = False"

definition registerTask :: "('s, 'h) Absurd \<Rightarrow> TaskRegistrationOptions \<Rightarrow> 'h \<Rightarrow> exn + ('s, 'h) Absurd" where
  "registerTask this options handler =
     (if ro_name options = [] then Inl (throw_error ''Task registration requires a name'')
      else if ro_defaultMaxAttempts options \<noteq> None \<and> below_one (the (ro_defaultMaxAttempts options))
      then Inl (throw_error ''defaultMaxAttempts must be at least 1'')
      else bind_result (or_own_queue this (ro_queue options)) (\<lambda>queue.
        Inr (this\<lparr>ab_registry := (ab_registry this)(ro_name options \<mapsto>
          \<lparr>rg_name = ro_name options, rg_queue = queue,
           rg_defaultMaxAttempts = ro_defaultMaxAttempts options,
           rg_defaultCancellation = ro_defaultCancellation options, rg_handler = handler\<rparr>)\<rparr>)))"

text \<open>
  Queues. The stored functions \<open>set_queue_policy\<close> and \<open>get_queue_policy\<close> are the parameters
  \<open>set_policy\<close> and \<open>get_policy\<close>: a query with the queue's name and the payload.
\<close>

definition setQueuePolicy ::
    "(string \<Rightarrow> json \<Rightarrow> ('w world_scheme, unit) ts) \<Rightarrow> ('s, 'h) Absurd \<Rightarrow> string option \<Rightarrow>
     'o QueuePolicyOptions_scheme \<Rightarrow> ('w world_scheme, unit) ts" where
  "setQueuePolicy set_policy this queueName options =
     bind_ts (check (or_own_queue this queueName)) (\<lambda>queue.
       let policy = buildQueuePolicyPayload options
       in if policy = [] then ret () else set_policy queue (JObj policy))"

definition createQueue ::
    "(string \<Rightarrow> json \<Rightarrow> ('w world_scheme, unit) ts) \<Rightarrow> ('s, 'h) Absurd \<Rightarrow> string option \<Rightarrow>
     CreateQueueOptions \<Rightarrow> ('w world_scheme, unit) ts" where
  "createQueue set_policy this queueName options =
     bind_ts (check (or_own_queue this queueName)) (\<lambda>queue.
     bind_ts (sql_create_queue queue (case co_storageMode options of None \<Rightarrow> Unpartitioned | Some m \<Rightarrow> m)) (\<lambda>_.
       setQueuePolicy set_policy this (Some queue) options))"

definition getQueuePolicy ::
    "(string \<Rightarrow> ('w world_scheme, 'row list) ts) \<Rightarrow> ('row \<Rightarrow> 'policy) \<Rightarrow> ('s, 'h) Absurd \<Rightarrow> string option \<Rightarrow>
     ('w world_scheme, 'policy option) ts" where
  "getQueuePolicy get_policy to_policy this queueName =
     bind_ts (check (or_own_queue this queueName)) (\<lambda>queue.
     bind_ts (get_policy queue) (\<lambda>rows.
       ret (case rows of [] \<Rightarrow> None | row # _ \<Rightarrow> Some (to_policy row))))"

definition dropQueue :: "('s, 'h) Absurd \<Rightarrow> string option \<Rightarrow> ('w world_scheme, unit) ts" where
  "dropQueue this queueName = bind_ts (check (or_own_queue this queueName)) sql_drop_queue"

definition listQueues :: "('w world_scheme, string list) ts" where
  "listQueues = sql_list_queues"

section \<open>Spawning\<close>

text \<open>
  The queue and the options that a spawn uses: the registration's queue, which a queue in the options
  must repeat, or the queue of the options; options first, then the registration's defaults, then the
  client's.
\<close>

definition spawn_queue :: "('s, 'h) Absurd \<Rightarrow> string \<Rightarrow> SpawnOptions \<Rightarrow> exn + string" where
  "spawn_queue this taskName options =
     (case ab_registry this taskName of
        Some registration \<Rightarrow>
          (case so_queue options of
             None \<Rightarrow> Inr (rg_queue registration)
           | Some q \<Rightarrow> bind_result (validateQueueName q) (\<lambda>requested.
               if requested \<noteq> rg_queue registration
               then Inl (throw_error ''Task is registered for another queue than the spawn requested'')
               else Inr (rg_queue registration)))
      | None \<Rightarrow>
          (case so_queue options of
             None \<Rightarrow> Inl (throw_error ''Task is not registered'')
           | Some q \<Rightarrow> validateQueueName q))"

definition effective_options :: "('s, 'h) Absurd \<Rightarrow> string \<Rightarrow> SpawnOptions \<Rightarrow> SpawnOptions" where
  "effective_options this taskName options =
     options\<lparr>
       so_maxAttempts := (case so_maxAttempts options of
           Some m \<Rightarrow> Some m
         | None \<Rightarrow> (case Option.bind (ab_registry this taskName) rg_defaultMaxAttempts of
                      Some m \<Rightarrow> Some m | None \<Rightarrow> Some (ab_defaultMaxAttempts this))),
       so_cancellation := (case so_cancellation options of
           Some c \<Rightarrow> Some c
         | None \<Rightarrow> Option.bind (ab_registry this taskName) rg_defaultCancellation)\<rparr>"

definition spawn_result :: "spawn_row \<Rightarrow> SpawnResult" where
  "spawn_result row = \<lparr>sr_taskID = s_task row, sr_runID = s_run row, sr_attempt = s_attempt row,
     sr_created = s_created row\<rparr>"

definition spawn ::
    "('w world_scheme, 'h) Absurd \<Rightarrow> string \<Rightarrow> json option \<Rightarrow> SpawnOptions \<Rightarrow>
     ('w world_scheme, SpawnResult) ts" where
  "spawn this taskName params options =
     bind_ts (check (spawn_queue this taskName options)) (\<lambda>queue.
     bind_ts (case hk_beforeSpawn (ab_hooks this) of
                None \<Rightarrow> ret (effective_options this taskName options)
              | Some hook \<Rightarrow> hook taskName params (effective_options this taskName options)) (\<lambda>effectiveOptions.
     bind_ts (sql queue (\<lambda>now. spawn_task now taskName params (Some (normalizeSpawnOptions effectiveOptions))))
       (\<lambda>row. ret (spawn_result row))))"

section \<open>Events, results, retries, cancellation, claims\<close>

definition emitEvent ::
    "('s, 'h) Absurd \<Rightarrow> string \<Rightarrow> json option \<Rightarrow> string option \<Rightarrow> ('w world_scheme, unit) ts" where
  "emitEvent this eventName payload queueName =
     (if eventName = [] then throw (throw_error ''eventName must be a non-empty string'')
      else bind_ts (check (or_own_queue this queueName)) (\<lambda>queue.
        sql_void queue (\<lambda>now. emit_event now eventName
          (Some (case payload of None \<Rightarrow> JNull | Some j \<Rightarrow> j)))))"

definition fetchTaskResultSnapshot ::
    "string \<Rightarrow> uuid \<Rightarrow> ('w world_scheme, TaskResultSnapshot option) ts" where
  "fetchTaskResultSnapshot queueName taskID =
     bind_ts (sql_rows queueName (\<lambda>q. Inr (get_task_result taskID q)))
       (\<lambda>row. ret (map_option snapshot_of_row row))"

definition fetchTaskResult ::
    "('s, 'h) Absurd \<Rightarrow> uuid \<Rightarrow> string option \<Rightarrow> ('w world_scheme, TaskResultSnapshot option) ts" where
  "fetchTaskResult this taskID queueName =
     bind_ts (check (or_own_queue this queueName)) (\<lambda>queue. fetchTaskResultSnapshot queue taskID)"

definition retry_payload :: "RetryTaskOptions \<Rightarrow> json" where
  "retry_payload options =
     JObj (num_field ''max_attempts'' (rt_maxAttempts options) @
           (if rt_spawnNewTask options = Some True then [(''spawn_new'', JBool True)] else []))"

definition retryTask ::
    "('s, 'h) Absurd \<Rightarrow> uuid \<Rightarrow> RetryTaskOptions \<Rightarrow> ('w world_scheme, SpawnResult) ts" where
  "retryTask this taskID options =
     bind_ts (check (or_own_queue this (rt_queue options))) (\<lambda>queue.
     bind_ts (sql queue (\<lambda>now. retry_task now taskID (Some (retry_payload options))))
       (\<lambda>row. ret (spawn_result row)))"

definition cancelTask :: "('s, 'h) Absurd \<Rightarrow> uuid \<Rightarrow> string option \<Rightarrow> ('w world_scheme, unit) ts" where
  "cancelTask this taskID queueName =
     bind_ts (check (or_own_queue this queueName)) (\<lambda>queue. sql_void queue (\<lambda>now. cancel_task now taskID))"

definition claimTasks ::
    "('s, 'h) Absurd \<Rightarrow> int option \<Rightarrow> int option \<Rightarrow> string option \<Rightarrow> ('w world_scheme, claimed_task list) ts" where
  "claimTasks this batchSize claimTimeout workerId =
     sql (ab_queueName this) (\<lambda>now. claim_task now
       (case workerId of None \<Rightarrow> ''worker'' | Some w \<Rightarrow> w)
       (case claimTimeout of None \<Rightarrow> 120 | Some t \<Rightarrow> t)
       (case batchSize of None \<Rightarrow> 1 | Some n \<Rightarrow> n))"

text \<open>The run-ending queries, with the errors \<open>AB001\<close> and \<open>AB002\<close> mapped.\<close>

definition with_state_check :: "('s, 'a) ts \<Rightarrow> ('s, 'a) ts" where
  "with_state_check m = catch_ts m (\<lambda>err. throw (mapTaskStateError err))"

definition completeTaskRun :: "string \<Rightarrow> uuid \<Rightarrow> json option \<Rightarrow> ('w world_scheme, unit) ts" where
  "completeTaskRun queueName runID result =
     with_state_check (sql_void queueName (\<lambda>now.
       complete_run now runID (Some (case result of None \<Rightarrow> JNull | Some j \<Rightarrow> j))))"

definition failTaskRun ::
    "(exn \<Rightarrow> string) \<Rightarrow> (json \<Rightarrow> string) \<Rightarrow> string \<Rightarrow> uuid \<Rightarrow> exn \<Rightarrow> ('w world_scheme, unit) ts" where
  "failTaskRun stack_of string_of queueName runID err =
     with_state_check (sql_void queueName (\<lambda>now.
       fail_run now runID (Some (serializeError stack_of string_of err)) None))"

definition deferClaimedRun :: "string \<Rightarrow> uuid \<Rightarrow> string \<Rightarrow> ('w world_scheme, int) ts" where
  "deferClaimedRun queueName runID jitterSeed =
     (let deferSeconds = UNKNOWN_TASK_DEFER_BASE_SECONDS +
            deterministicJitterSeconds jitterSeed UNKNOWN_TASK_DEFER_JITTER_SECONDS
      in bind_ts (sql_void queueName (\<lambda>now. schedule_run runID (now + deferSeconds * second)))
           (\<lambda>_. ret deferSeconds))"

section \<open>Awaiting a result\<close>

text \<open>
  \<open>awaitTaskResultWithBackoff\<close>. The surroundings are arguments: \<open>fetch\<close> and \<open>before\<close> are the two callbacks,
  \<open>clock\<close> reads \<open>Date.now()\<close>, and \<open>sleep ms\<close> is the world after a timer of \<open>ms\<close> milliseconds has fired, in
  which other processes may have acted. Not returning is \<open>None\<close>.
\<close>

partial_function (option) await_result_loop ::
    "('s \<Rightarrow> (exn + TaskResultSnapshot option) \<times> 's) \<Rightarrow> ('s \<Rightarrow> (exn + unit) \<times> 's) \<Rightarrow> ('s \<Rightarrow> int) \<Rightarrow>
     (int \<Rightarrow> 's \<Rightarrow> 's) \<Rightarrow> int option \<Rightarrow> int \<Rightarrow> int \<Rightarrow> 's \<Rightarrow> ((exn + TaskResultSnapshot) \<times> 's) option" where
  "await_result_loop fetch before clock sleep timeoutMs startedAt delayMs s =
     (case fetch s of
        (Inl e, s1) \<Rightarrow> Some (Inl e, s1)
      | (Inr None, s1) \<Rightarrow> Some (Inl (throw_error ''Task not found''), s1)
      | (Inr (Some snapshot), s1) \<Rightarrow>
          if isTerminalTaskState (snapshot_state snapshot) then Some (Inr snapshot, s1)
          else
           (let remaining = map_option (\<lambda>t. t - (clock s1 - startedAt)) timeoutMs
            in if remaining \<noteq> None \<and> the remaining \<le> 0
               then Some (Inl (TimeoutError ''Timed out waiting for task''), s1)
               else
                (let delay = (case remaining of None \<Rightarrow> delayMs | Some r \<Rightarrow> min delayMs r)
                 in case before s1 of
                      (Inl e, s2) \<Rightarrow> Some (Inl e, s2)
                    | (Inr _, s2) \<Rightarrow>
                        await_result_loop fetch before clock sleep timeoutMs startedAt
                          (min (delay * 2) 1000) (sleep (max 0 delay) s2))))"

definition awaitTaskResultWithBackoff ::
    "('s \<Rightarrow> (exn + TaskResultSnapshot option) \<times> 's) \<Rightarrow> ('s \<Rightarrow> (exn + unit) \<times> 's) \<Rightarrow> ('s \<Rightarrow> int) \<Rightarrow>
     (int \<Rightarrow> 's \<Rightarrow> 's) \<Rightarrow> jsnum option \<Rightarrow> 's \<Rightarrow> ((exn + TaskResultSnapshot) \<times> 's) option" where
  "awaitTaskResultWithBackoff fetch before clock sleep timeoutSeconds s =
     (case normalizeTimeoutSecondsToMs timeoutSeconds of
        Inl e \<Rightarrow> Some (Inl e, s)
      | Inr timeoutMs \<Rightarrow> await_result_loop fetch before clock sleep timeoutMs (clock s) 50 s)"

definition awaitTaskResult ::
    "(int \<Rightarrow> 'w world_scheme \<Rightarrow> 'w world_scheme) \<Rightarrow> ('s, 'h) Absurd \<Rightarrow> uuid \<Rightarrow> string option \<Rightarrow>
     jsnum option \<Rightarrow> 'w world_scheme \<Rightarrow> ((exn + TaskResultSnapshot) \<times> 'w world_scheme) option" where
  "awaitTaskResult sleep this taskID queueName timeout w =
     (case or_own_queue this queueName of
        Inl e \<Rightarrow> Some (Inl e, w)
      | Inr queue \<Rightarrow>
          awaitTaskResultWithBackoff (fetchTaskResultSnapshot queue taskID) (ret ()) w_js_now sleep timeout w)"

end
