(* ===== verification/Client_Spec.thy ===== *)
theory Client_Spec
  imports Client
begin

text \<open>
  Properties of the client: the queue name check and the one of the database agree, the jitter stays in its
  range, a spawn writes the task that was asked for, polling for a result ends and is right.
\<close>

section \<open>Queue names and jitter\<close>

text \<open>
  The client accepts a queue name exactly when the database does, so a name that passes the
  client's check is never refused by \<open>create_queue\<close>.
\<close>

lemma queue_name_checks_agree:
  "(validateQueueName n = Inr n) = (validate_queue_name n = Inr n) \<and>
   (isl (validateQueueName n) = isl (validate_queue_name n))"
  by (simp add: validateQueueName_def validate_queue_name_def MAX_QUEUE_NAME_LENGTH_def)

lemma jitter_bounds:
  "0 \<le> m \<Longrightarrow> 0 \<le> deterministicJitterSeconds seed m \<and> deterministicJitterSeconds seed m \<le> m"
  using pos_mod_bound [of "m + 1" "\<bar>foldl hash_step 2166136261 seed\<bar>"]
  by (auto simp: deterministicJitterSeconds_def)

lemma defer_bounds:
  assumes "deferClaimedRun queue i seed w = (Inr secs, w')"
  shows "15 \<le> secs \<and> secs \<le> 30 \<and>
    (\<exists>q'. map_of (w_queues w') queue = Some q' \<and> (\<exists>r \<in> set (runs q'). r_id r = i \<and> r_state r = Sleeping \<and>
       r_available_at r = At (w_db_now w + secs * second)))"
proof -
  let ?d = "15 + deterministicJitterSeconds seed 15"
  from assms obtain u where s: "sql_void queue (\<lambda>now. schedule_run i (now + ?d * second)) w = (Inr u, w')"
    and d: "secs = ?d"
    by (auto simp: deferClaimedRun_def bind_ts_def Let_def UNKNOWN_TASK_DEFER_BASE_SECONDS_def
        UNKNOWN_TASK_DEFER_JITTER_SECONDS_def split: prod.splits sum.splits)
  from s obtain q q' where q: "schedule_run i (w_db_now w + ?d * second) q = Inr q'" "w' = set_queue queue q' w"
    unfolding sql_void_def by (auto elim!: sql_Inr simp: bind_result_Inr)
  from q(1) obtain r where r: "tbl_find (\<lambda>r. r_id r = i \<and> r_state r = Running) (runs q) = Some r"
    by (auto simp: schedule_run_def split: option.splits)
  let ?f = "\<lambda>x. x\<lparr>r_state := Sleeping, r_claimed_by := None, r_claim_expires_at := None,
    r_available_at := At (w_db_now w + ?d * second), r_wake_event := None\<rparr>"
  have "?f r \<in> set (runs q')"
    using q(1) r tbl_find_SomeD [OF r] by (auto simp: schedule_run_def store_updates tbl_simps)
  then have "\<exists>x \<in> set (runs q'). r_id x = i \<and> r_state x = Sleeping \<and>
      r_available_at x = At (w_db_now w + ?d * second)"
    using tbl_find_SomeD [OF r] by (intro bexI [of _ "?f r"]) auto
  then show ?thesis using jitter_bounds [of 15 seed] d q(2) by simp
qed

section \<open>Spawning\<close>

lemma json_get_append [simp]:
  "json_get k (JObj (xs @ ys)) = (case json_get k (JObj xs) of None \<Rightarrow> json_get k (JObj ys) | v \<Rightarrow> v)"
  by (simp add: map_add_def split: option.splits)

lemma json_get_opt_field [simp]: "json_get k (JObj (opt_field k' v)) = (if k' = k then v else None)"
  by simp

lemma json_get_num_field [simp]:
  "json_get k (JObj (num_field k' v)) = (if k' = k then map_option json_of_num v else None)"
  by (simp add: num_field_def)

lemma normalizeSpawnOptions_get:
  "json_get ''headers'' (normalizeSpawnOptions opts) = so_headers opts"
  "json_get ''max_attempts'' (normalizeSpawnOptions opts) = map_option json_of_num (so_maxAttempts opts)"
  "json_get ''retry_strategy'' (normalizeSpawnOptions opts)
     = map_option serializeRetryStrategy (so_retryStrategy opts)"
  "json_get ''cancellation'' (normalizeSpawnOptions opts) = normalizeCancellation (so_cancellation opts)"
  "json_get ''idempotency_key'' (normalizeSpawnOptions opts) = map_option JStr (so_idempotencyKey opts)"
  unfolding normalizeSpawnOptions_def by (simp_all del: json_get.simps split: option.splits)

lemma read_normalized:
  assumes "read_spawn_options (Some (normalizeSpawnOptions opts)) = Inr cols"
  shows "sc_headers cols = so_headers opts"
    "sc_retry_strategy cols = map_option serializeRetryStrategy (so_retryStrategy opts)"
    "sc_cancellation cols = normalizeCancellation (so_cancellation opts)"
    "sc_idempotency_key cols = so_idempotencyKey opts"
    "so_maxAttempts opts = Some (Fin (of_int n)) \<Longrightarrow> sc_max_attempts cols = Some n"
    "so_maxAttempts opts = None \<Longrightarrow> sc_max_attempts cols = None"
  using assms
  by (auto simp: read_spawn_options_def bind_result_Inr normalizeSpawnOptions_get json_has_key_def
      cast_int4_def cast_int_def Let_def split: if_splits option.splits)

text \<open>
  A spawn enqueues the task that was asked for. When the client's \<open>spawn\<close> (with no \<open>beforeSpawn\<close> hook)
  reports a created task, the queue it resolved has that task, pending, with one run that can be claimed at
  once, under the given name, parameters and headers, with the attempts of the options or else the defaults of
  the registration or of the client, and no other queue has changed.
\<close>

lemma spawn_enqueues:
  assumes "spawn this name params opts w = (Inr res, w')" "sr_created res" "hk_beforeSpawn (ab_hooks this) = None"
    "\<And>n q. map_of (w_queues w) n = Some q \<Longrightarrow> queue_inv q"
  shows "\<exists>queue q' t r. spawn_queue this name opts = Inr queue \<and> map_of (w_queues w') queue = Some q' \<and>
     find_task (sr_taskID res) q' = Some t \<and> t_name t = name \<and> t_state t = Pending \<and>
     t_params t = (case params of None \<Rightarrow> JNull | Some j \<Rightarrow> j) \<and> t_headers t = so_headers opts \<and>
     (\<forall>n. so_maxAttempts (effective_options this name opts) = Some (Fin (of_int n)) \<longrightarrow> t_max_attempts t = Some n) \<and>
     t_cancellation t = normalizeCancellation (so_cancellation (effective_options this name opts)) \<and>
     sr_runID res = Some (r_id r) \<and> find_run (r_id r) q' = Some r \<and> claimable (w_db_now w) q' r \<and>
     (\<forall>m. m \<noteq> queue \<longrightarrow> map_of (w_queues w') m = map_of (w_queues w) m)"
proof -
  let ?eff = "effective_options this name opts"
  let ?call = "\<lambda>now. spawn_task now name params (Some (normalizeSpawnOptions ?eff))"
  from assms(1,3) obtain queue row where s: "spawn_queue this name opts = Inr queue"
    "sql queue ?call w = (Inr row, w')" "res = spawn_result row"
    by (cases "spawn_queue this name opts") (auto simp: spawn_def bind_ts_def split: prod.splits sum.splits)
  from s(2) obtain q q' where q: "map_of (w_queues w) queue = Some q" "?call (w_db_now w) q = Inr (row, q')"
    "w' = set_queue queue q' w" by (rule sql_Inr)
  have created: "s_created row" using assms(2) s(3) by (simp add: spawn_result_def)
  note inv = assms(4) [OF q(1)]
  from q(2) show ?thesis
  proof (cases rule: spawn_task_cases)
    case (existing cols t k)
    with created show ?thesis by simp
  next
    case (created cols xs)
    note cols = read_normalized [OF created(1)]
    have fresh: "find_task (uuids q) q = None" "find_run (Suc (uuids q)) q = None"
      using queue_inv_coreD [OF inv] by (fastforce simp: find_task_def find_run_def core_inv_def tbl_simps)+
    define t where "t = \<lparr>t_id = uuids q, t_name = name,
            t_params = (case params of None \<Rightarrow> JNull | Some j \<Rightarrow> j), t_headers = sc_headers cols,
            t_retry_strategy = sc_retry_strategy cols, t_max_attempts = sc_max_attempts cols,
            t_cancellation = sc_cancellation cols, t_enqueue_at = w_db_now w, t_first_started_at = None,
            t_state = Pending, t_attempts = 1, t_last_attempt_run = Some (Suc (uuids q)),
            t_completed_payload = None, t_cancelled_at = None,
            t_idempotency_key = sc_idempotency_key cols\<rparr>"
    define r where "r = new_run (Suc (uuids q)) (uuids q) 1 Pending (w_db_now w) (w_db_now w)"
    have t: "find_task (uuids q) q' = Some t"
      using fresh(1) created(4) by (simp add: find_task_def insert_task_def tbl_find_append t_def)
    have "tasks q' = tasks q @ [t]" "runs q' = runs q @ [r]"
      using created(4) by (simp_all add: insert_task_def t_def r_def)
    then have r: "find_run (Suc (uuids q)) q' = Some r"
      using fresh(2) by (simp add: find_run_def tbl_find_append r_def new_run_def)
    have "claimable (w_db_now w) q' r"
      using t by (simp add: claimable_def r_def new_run_def t_def active_def)
    moreover have "so_headers ?eff = so_headers opts" by (simp add: effective_options_def)
    ultimately show ?thesis
      using s q t r cols created(3)
      by (intro exI [of _ queue] exI [of _ q'] exI [of _ t] exI [of _ r])
        (auto simp: spawn_result_def t_def r_def new_run_def)
  qed
qed

definition demo_world :: "qstate \<Rightarrow> world" where
  "demo_world q = \<lparr>w_queues = [(''default'', q)], w_db_now = 100, w_js_now = 0\<rparr>"

definition demo_client :: "(world, unit) Absurd" where
  "demo_client = \<lparr>ab_queueName = ''default'', ab_defaultMaxAttempts = Fin 5,
     ab_registry = [''job'' \<mapsto> \<lparr>rg_name = ''job'', rg_queue = ''default'', rg_defaultMaxAttempts = None,
       rg_defaultCancellation = None, rg_handler = ()\<rparr>],
     ab_hooks = no_hooks, ab_ownedPool = False\<rparr>"

lemma filter_result_Inl: "x \<in> set xs \<Longrightarrow> isl (f x) \<Longrightarrow> isl (filter_result f xs)"
proof (induction xs)
  case (Cons a xs)
  then show ?case by (cases "f a"; cases "filter_result f xs") (auto simp: isl_def)
qed simp

text \<open>
  A fractional \<open>maxDuration\<close> stops the whole queue. The client passes the number on as it is, the
  store accepts the spawn, and from then on every claim on the queue fails with a cast error for as long as the
  task is active, so that no worker gets any task of that queue.
\<close>

lemma fractional_policy_blocks_claims:
  assumes "so_cancellation opts = Some \<lparr>cp_maxDuration = Some (Fin d), cp_maxDelay = None\<rparr>"
    "d \<noteq> of_int \<lfloor>d\<rfloor>" "t \<in> set (tasks q)" "active (t_state t)"
    "t_cancellation t = json_get ''cancellation'' (normalizeSpawnOptions opts)"
  shows "isl (claim_task now worker timeout qty q)"
proof -
  have "json_get ''cancellation'' (normalizeSpawnOptions opts) = Some (JObj [(''max_duration'', JNum d)])"
    unfolding normalizeSpawnOptions_get by (simp add: assms(1) normalizeCancellation_def num_field_def)
  then have "isl (cancellation_due now t)"
    using assms(2,5) by (simp add: cancellation_due_def cast_bigint_def cast_int_def isl_def)
  then have "isl (filter_result (cancellation_due now) (filter (\<lambda>t. active (t_state t)) (tasks q)))"
    using assms(3,4) by (intro filter_result_Inl [of t]) auto
  then show ?thesis by (auto simp: claim_task_def apply_cancellations_def Let_def isl_def)
qed

section \<open>Polling for a result\<close>

text \<open>What the loop needs of its surroundings: the clock does not go back, and a timer of \<open>n\<close> ms takes \<open>n\<close> ms.\<close>

definition clock_ok ::
    "('s \<Rightarrow> (exn + TaskResultSnapshot option) \<times> 's) \<Rightarrow> ('s \<Rightarrow> (exn + unit) \<times> 's) \<Rightarrow> ('s \<Rightarrow> int) \<Rightarrow>
     (int \<Rightarrow> 's \<Rightarrow> 's) \<Rightarrow> bool" where
  "clock_ok fetch before clock sleep \<longleftrightarrow>
     (\<forall>s. clock s \<le> clock (snd (fetch s))) \<and> (\<forall>s. clock s \<le> clock (snd (before s))) \<and>
     (\<forall>s n. 0 \<le> n \<longrightarrow> clock s + n \<le> clock (sleep n s))"

lemma await_loop_ends:
  assumes ok: "clock_ok fetch before clock sleep"
  shows "0 < delay \<Longrightarrow>
    \<exists>r s'. await_result_loop fetch before clock sleep (Some limit) start delay s = Some (r, s') \<and>
      (case r of
         Inr snapshot \<Rightarrow> isTerminalTaskState (snapshot_state snapshot) \<and>
           (\<exists>sf. fetch sf = (Inr (Some snapshot), s'))
       | Inl e \<Rightarrow> (\<exists>sf. fetch sf = (Inl e, s')) \<or> (\<exists>sf. before sf = (Inl e, s')) \<or>
           (e = throw_error ''Task not found'' \<and> (\<exists>sf. fetch sf = (Inr None, s'))) \<or>
           (e = TimeoutError ''Timed out waiting for task'' \<and> limit \<le> clock s' - start \<and>
              (\<exists>sf snap. fetch sf = (Inr (Some snap), s') \<and> \<not> isTerminalTaskState (snapshot_state snap))))"
proof (induction "nat (limit - (clock s - start))" arbitrary: s delay rule: less_induct)
  case (less s delay)
  note simps = await_result_loop.simps [of fetch before clock sleep "Some limit" start delay s]
  obtain f s1 where f: "fetch s = (f, s1)" by (cases "fetch s")
  have t1: "clock s \<le> clock s1" using ok f unfolding clock_ok_def by (metis snd_conv)
  show ?case
  proof (cases f)
    case (Inl e)
    then show ?thesis using f by (auto simp: simps)
  next
    case (Inr snap)
    note fi = f [unfolded Inr]
    show ?thesis
    proof (cases snap)
      case None
      then show ?thesis using fi by (auto simp: simps)
    next
      case (Some snapshot)
      let ?rem = "limit - (clock s1 - start)"
      consider "isTerminalTaskState (snapshot_state snapshot)"
        | "\<not> isTerminalTaskState (snapshot_state snapshot)" "?rem \<le> 0"
        | "\<not> isTerminalTaskState (snapshot_state snapshot)" "0 < ?rem" by linarith
      then show ?thesis
      proof cases
        case 1
        then show ?thesis using fi Some by (auto simp: simps)
      next
        case 2
        then show ?thesis using fi Some by (auto simp: simps Let_def)
      next
        case 3
        obtain b s2 where b: "before s1 = (b, s2)" by (cases "before s1")
        show ?thesis
        proof (cases b)
          case (Inl e)
          then show ?thesis using fi Some 3 b by (auto simp: simps Let_def)
        next
          case (Inr u)
          let ?d = "min delay ?rem"
          have d: "0 < ?d" using less.prems 3(2) by simp
          have "clock s1 \<le> clock s2" using ok b unfolding clock_ok_def by (metis snd_conv)
          moreover have "clock s2 + ?d \<le> clock (sleep (max 0 ?d) s2)"
            using ok d unfolding clock_ok_def by (metis less_le max_def)
          ultimately have "nat (limit - (clock (sleep (max 0 ?d) s2) - start)) < nat (limit - (clock s - start))"
            using t1 d 3(2) by linarith
          from less.hyps [OF this, of "min (?d * 2) 1000"] d show ?thesis
            using fi Some 3 b Inr by (simp add: simps Let_def)
        qed
      qed
    qed
  qed
qed

text \<open>
  Property C31: waiting for a task's result with a timeout ends, and ends right. \<open>awaitTaskResult\<close> of a client, for
  a finite timeout, always returns; a snapshot it returns is terminal and is the result that the queue has at
  that moment, and it gives up with \<open>TimeoutError\<close> only when the timeout has passed and the task was still not
  finished.
\<close>

theorem await_result_ends:
  assumes "clock_ok (fetchTaskResultSnapshot queue i) (ret ()) w_js_now sleep"
    "or_own_queue this qn = Inr queue" "0 \<le> secs"
  shows "\<exists>r w'. awaitTaskResult sleep this i qn (Some (Fin secs)) w = Some (r, w') \<and>
     (case r of
        Inr snapshot \<Rightarrow> isTerminalTaskState (snapshot_state snapshot) \<and>
          (\<exists>q row. map_of (w_queues w') queue = Some q \<and> get_task_result i q = Some row \<and>
             snapshot = snapshot_of_row row)
      | Inl (TimeoutError m) \<Rightarrow> \<lfloor>secs * 1000\<rfloor> \<le> w_js_now w' - w_js_now w \<and>
          (\<exists>q row. map_of (w_queues w') queue = Some q \<and> get_task_result i q = Some row \<and>
             \<not> terminal (tr_state row))
      | Inl _ \<Rightarrow> map_of (w_queues w') queue = None \<or>
          (\<exists>q. map_of (w_queues w') queue = Some q \<and> get_task_result i q = None))"
proof -
  let ?f = "fetchTaskResultSnapshot queue i :: ('w world_scheme, TaskResultSnapshot option) ts"
  have fetch_ok: "\<exists>q. map_of (w_queues s') queue = Some q \<and> map_option snapshot_of_row (get_task_result i q) = x"
    if "?f sf = (Inr x, s')" for sf s' x
    using that
    by (auto simp: fetchTaskResultSnapshot_def sql_rows_def bind_ts_def sql_def split: option.splits)
  have fetch_err: "e = DbError undefined_table \<and> map_of (w_queues s') queue = None"
    if "?f sf = (Inl e, s')" for sf s' e
    using that
    by (auto simp: fetchTaskResultSnapshot_def sql_rows_def bind_ts_def sql_def split: option.splits)
  have "normalizeTimeoutSecondsToMs (Some (Fin secs)) = Inr (Some \<lfloor>secs * 1000\<rfloor>)"
    using assms(3) by (simp add: normalizeTimeoutSecondsToMs_def)
  then have run: "awaitTaskResult sleep this i qn (Some (Fin secs)) w
      = await_result_loop ?f (ret ()) w_js_now sleep (Some \<lfloor>secs * 1000\<rfloor>) (w_js_now w) 50 w"
    by (simp add: awaitTaskResult_def assms(2) awaitTaskResultWithBackoff_def)
  obtain r s' where r: "await_result_loop ?f (ret ()) w_js_now sleep (Some \<lfloor>secs * 1000\<rfloor>) (w_js_now w) 50 w
      = Some (r, s')" and post: "case r of
         Inr snapshot \<Rightarrow> isTerminalTaskState (snapshot_state snapshot) \<and> (\<exists>sf. ?f sf = (Inr (Some snapshot), s'))
       | Inl e \<Rightarrow> (\<exists>sf. ?f sf = (Inl e, s')) \<or> (\<exists>sf. ret () sf = (Inl e, s')) \<or>
           (e = throw_error ''Task not found'' \<and> (\<exists>sf. ?f sf = (Inr None, s'))) \<or>
           (e = TimeoutError ''Timed out waiting for task'' \<and> \<lfloor>secs * 1000\<rfloor> \<le> w_js_now s' - w_js_now w \<and>
              (\<exists>sf snap. ?f sf = (Inr (Some snap), s') \<and> \<not> isTerminalTaskState (snapshot_state snap)))"
    using await_loop_ends [OF assms(1), of 50 "\<lfloor>secs * 1000\<rfloor>" "w_js_now w" w] by auto
  have live: "\<not> isTerminalTaskState (snapshot_state (snapshot_of_row row)) \<Longrightarrow> \<not> terminal (tr_state row)" for row
    by (auto simp: isTerminalTaskState_def snapshot_of_row_def terminal_def split: if_splits)
  show ?thesis
  proof (cases r)
    case (Inr snapshot)
    with post show ?thesis unfolding run r by (auto dest!: fetch_ok)
  next
    case (Inl e)
    with post show ?thesis unfolding run r
      by (auto simp: throw_error_def dest!: fetch_ok fetch_err live)
  qed
qed

theorem await_result_ends_witness:
  "\<exists>w'. awaitTaskResult (\<lambda>n w. w\<lparr>w_js_now := w_js_now w + n\<rparr>) demo_client 0 None (Some (Fin 0))
     (demo_world demo_done) = Some (Inr (SnapCompleted (Some (JBool True))), w')"
proof -
  let ?sleep = "\<lambda>n w. w\<lparr>w_js_now := w_js_now w + n\<rparr> :: world"
  let ?w = "demo_world demo_done"
  have ok: "clock_ok (fetchTaskResultSnapshot ''default'' 0) (ret ()) w_js_now ?sleep"
    by (auto simp: clock_ok_def fetchTaskResultSnapshot_def sql_rows_def bind_ts_def sql_def
        split: option.splits)
  have own: "or_own_queue demo_client None = Inr ''default''" by code_simp
  obtain r w' where r: "awaitTaskResult ?sleep demo_client 0 None (Some (Fin 0)) ?w = Some (r, w')" and
    post: "case r of
        Inr snapshot \<Rightarrow> isTerminalTaskState (snapshot_state snapshot) \<and>
          (\<exists>q row. map_of (w_queues w') ''default'' = Some q \<and> get_task_result 0 q = Some row \<and>
             snapshot = snapshot_of_row row)
      | Inl (TimeoutError m) \<Rightarrow> \<lfloor>0 * 1000 :: rat\<rfloor> \<le> w_js_now w' - w_js_now ?w \<and>
          (\<exists>q row. map_of (w_queues w') ''default'' = Some q \<and> get_task_result 0 q = Some row \<and>
             \<not> terminal (tr_state row))
      | Inl _ \<Rightarrow> map_of (w_queues w') ''default'' = None \<or>
          (\<exists>q. map_of (w_queues w') ''default'' = Some q \<and> get_task_result 0 q = None)"
    using await_result_ends [OF ok own, of 0 ?w] by auto
  have f: "fst (fetchTaskResultSnapshot ''default'' 0 ?w) = Inr (Some (SnapCompleted (Some (JBool True))))"
    by code_simp
  then obtain w1 where "fetchTaskResultSnapshot ''default'' 0 ?w = (Inr (Some (SnapCompleted (Some (JBool True)))), w1)"
    by (cases "fetchTaskResultSnapshot ''default'' 0 ?w") auto
  then have "awaitTaskResult ?sleep demo_client 0 None (Some (Fin 0)) ?w
      = Some (Inr (SnapCompleted (Some (JBool True))), w1)"
    by (simp add: awaitTaskResult_def own awaitTaskResultWithBackoff_def normalizeTimeoutSecondsToMs_def
        await_result_loop.simps isTerminalTaskState_def)
  then show ?thesis by blast
qed

end
