(* ===== verification/Durable.thy ===== *)
theory Durable
  imports Client_Types
begin

text \<open>
  Durable steps, shared by both SDKs: \<open>makeStep\<close> of \<open>sdks/effect/src/internal/Checkpoint.ts\<close> over a begin and a
  complete operation, handlers as programs of steps, and the interface \<open>step_backend\<close> of the stores that can
  carry them. What a handler gains from any such store is proved here once: its committed steps keep their
  values, and running it again over them gives the same result without executing any step.
\<close>

section \<open>Steps\<close>

text \<open>
  The name of the \<open>k\<close>-th use of a step name in one execution: the name itself, then with \<open>#2\<close>, \<open>#3\<close>, \<dots>
\<close>

definition checkpoint_name :: "string \<Rightarrow> nat \<Rightarrow> string" where
  "checkpoint_name name occurrence =
     (if occurrence = 1 then name else name @ CHR ''#'' # nat_dec occurrence)"

text \<open>
  \<open>begin_step name\<close> gives the checkpoint's name and the stored value; the closure \<open>complete\<close> of the code, which keeps
  both names, is \<open>commit name checkpoint\<close>. The schema of a step is a pair of an encoder and a decoder, which may fail.
\<close>

definition makeStep ::
    "(string \<Rightarrow> ('s, string \<times> json option) ts) \<Rightarrow> (string \<Rightarrow> string \<Rightarrow> json \<Rightarrow> ('s, unit) ts) \<Rightarrow>
     string \<Rightarrow> ('a \<Rightarrow> exn + json) \<Rightarrow> (json \<Rightarrow> exn + 'a) \<Rightarrow> ('s, 'a) ts \<Rightarrow> ('s, 'a) ts" where
  "makeStep begin_step commit name encode decode body =
     bind_ts (begin_step name) (\<lambda>(checkpoint, stored).
       case stored of
         Some v \<Rightarrow> (\<lambda>s. (decode v, s))
       | None \<Rightarrow>
           bind_ts body (\<lambda>value.
           bind_ts (\<lambda>s. (encode value, s)) (\<lambda>encoded.
           bind_ts (commit name checkpoint encoded) (\<lambda>_. ret value))))"

text \<open>
  A task handler as far as its steps go: it computes on the values of earlier steps, and everything else it
  does is the body of a step.
\<close>

datatype ('s, 'a) prog =
    Return 'a
  | Throw exn
  | Step string "'a \<Rightarrow> exn + json" "json \<Rightarrow> exn + 'a" "('s, 'a) ts" "'a \<Rightarrow> ('s, 'a) prog"

primrec exec_prog ::
    "(string \<Rightarrow> ('s, string \<times> json option) ts) \<Rightarrow> (string \<Rightarrow> string \<Rightarrow> json \<Rightarrow> ('s, unit) ts) \<Rightarrow>
     ('s, 'a) prog \<Rightarrow> ('s, 'a) ts" where
  "exec_prog bs c (Return a) = ret a"
| "exec_prog bs c (Throw e) = throw e"
| "exec_prog bs c (Step n enc dec body k) = bind_ts (makeStep bs c n enc dec body) (\<lambda>a. exec_prog bs c (k a))"

text \<open>
  A body is quiet when it leaves the checkpoints and the step counters alone; a codec round-trips when what it
  encodes decodes to the same value.
\<close>

definition quiet :: "('s \<Rightarrow> bool) \<Rightarrow> ('s \<Rightarrow> 'v) \<Rightarrow> ('s, 'a) ts \<Rightarrow> bool" where
  "quiet ok obs body \<longleftrightarrow> (\<forall>s r s'. ok s \<longrightarrow> body s = (r, s') \<longrightarrow> ok s' \<and> obs s' = obs s)"

definition round_trips :: "('a \<Rightarrow> exn + json) \<Rightarrow> (json \<Rightarrow> exn + 'a) \<Rightarrow> bool" where
  "round_trips enc dec \<longleftrightarrow> (\<forall>a j. enc a = Inr j \<longrightarrow> dec j = Inr a)"

primrec quiet_prog :: "('s \<Rightarrow> bool) \<Rightarrow> ('s \<Rightarrow> 'v) \<Rightarrow> ('s, 'a) prog \<Rightarrow> bool" where
  "quiet_prog ok obs (Return a) = True"
| "quiet_prog ok obs (Throw e) = True"
| "quiet_prog ok obs (Step n enc dec body k) =
     (quiet ok obs body \<and> round_trips enc dec \<and> (\<forall>a. quiet_prog ok obs (k a)))"

lemma bind_ts_Inr:
  "bind_ts m f s = (Inr b, s'') \<longleftrightarrow> (\<exists>a s'. m s = (Inr a, s') \<and> f a s' = (Inr b, s''))"
  by (auto simp: bind_ts_def split: prod.splits sum.splits)

lemma bind_ts_eq:
  "bind_ts m f s = (r, s'') \<longleftrightarrow> (\<exists>e. m s = (Inl e, s'') \<and> r = Inl e) \<or>
     (\<exists>a s'. m s = (Inr a, s') \<and> f a s' = (r, s''))"
  by (auto simp: bind_ts_def split: prod.splits sum.splits)

section \<open>The interface of a checkpoint store\<close>

text \<open>
  \<open>view\<close> are the checkpoints that an execution sees, \<open>count\<close> its step counters, \<open>outside\<close> everything that
  looking a step up must leave alone. A \<open>commit\<close> that fails has stored nothing.
\<close>

locale step_backend =
  fixes begin_step :: "string \<Rightarrow> ('s, string \<times> json option) ts"
    and commit :: "string \<Rightarrow> string \<Rightarrow> json \<Rightarrow> ('s, unit) ts"
    and view :: "'s \<Rightarrow> string \<Rightarrow> json option"
    and count :: "'s \<Rightarrow> string \<Rightarrow> nat"
    and outside :: "'s \<Rightarrow> 'e"
    and ok :: "'s \<Rightarrow> bool"
  assumes begins: "ok s \<Longrightarrow> \<exists>s'. begin_step n s =
        (Inr (checkpoint_name n (count s n + 1), view s (checkpoint_name n (count s n + 1))), s') \<and>
      ok s' \<and> view s' = view s \<and> count s' = (count s)(n := count s n + 1) \<and> outside s' = outside s"
    and commits: "ok s \<Longrightarrow> commit n c v s = (r, s') \<Longrightarrow> ok s' \<and> count s' = count s \<and>
      view s' = (case r of Inr _ \<Rightarrow> (view s)(c \<mapsto> v) | Inl _ \<Rightarrow> view s)"
begin

abbreviation obs :: "'s \<Rightarrow> (string \<Rightarrow> json option) \<times> (string \<Rightarrow> nat)" where
  "obs s \<equiv> (view s, count s)"

lemma step_stored:
  assumes "ok s" "view s (checkpoint_name n (count s n + 1)) = Some v"
  shows "\<exists>s'. makeStep begin_step commit n enc dec body s = (dec v, s') \<and> ok s' \<and> view s' = view s \<and>
    count s' = (count s)(n := count s n + 1) \<and> outside s' = outside s"
proof -
  from begins [OF assms(1), of n] obtain s' where "begin_step n s =
      (Inr (checkpoint_name n (count s n + 1), view s (checkpoint_name n (count s n + 1))), s')"
    "ok s'" "view s' = view s" "count s' = (count s)(n := count s n + 1)" "outside s' = outside s" by blast
  with assms(2) show ?thesis by (simp add: makeStep_def)
qed

lemma step_fresh:
  assumes "ok s" "view s (checkpoint_name n (count s n + 1)) = None" "quiet ok obs body"
    "makeStep begin_step commit n enc dec body s = (r, s')"
  shows "ok s' \<and> count s' = (count s)(n := count s n + 1) \<and>
    (case r of
       Inr a \<Rightarrow> (\<exists>j. enc a = Inr j \<and> view s' = (view s)(checkpoint_name n (count s n + 1) \<mapsto> j))
     | Inl _ \<Rightarrow> view s' = view s)"
proof -
  let ?c = "checkpoint_name n (count s n + 1)"
  from begins [OF assms(1), of n] obtain s1 where s1: "begin_step n s = (Inr (?c, view s ?c), s1)"
    "ok s1" "view s1 = view s" "count s1 = (count s)(n := count s n + 1)" by blast
  obtain b s2 where b: "body s1 = (b, s2)" by (cases "body s1")
  have s2: "ok s2" "view s2 = view s" "count s2 = (count s)(n := count s n + 1)"
    using assms(3) s1(2-4) b by (auto simp: quiet_def)
  show ?thesis
  proof (cases b)
    case (Inl e)
    then show ?thesis using assms(2,4) s1(1) b s2 by (auto simp: makeStep_def)
  next
    case (Inr a)
    show ?thesis
    proof (cases "enc a")
      case (Inl e)
      then show ?thesis using assms(2,4) s1(1) b s2 Inr by (auto simp: makeStep_def)
    next
      case e: (Inr j)
      obtain d s3 where d: "commit n ?c j s2 = (d, s3)" by (cases "commit n ?c j s2")
      show ?thesis using assms(2,4) s1(1) b Inr e d commits [OF s2(1) d] s2
        by (cases d) (auto simp: makeStep_def)
    qed
  qed
qed

lemma step_mono:
  assumes "ok s" "quiet ok obs body" "makeStep begin_step commit n enc dec body s = (r, s')"
  shows "ok s' \<and> view s \<subseteq>\<^sub>m view s' \<and> count s' = (count s)(n := count s n + 1)"
proof (cases "view s (checkpoint_name n (count s n + 1))")
  case None
  from step_fresh [OF assms(1) None assms(2,3)] None show ?thesis
    by (cases r) (auto simp: map_le_def)
next
  case (Some v)
  from step_stored [OF assms(1) Some, of enc dec body] assms(3) show ?thesis by auto
qed

text \<open>Checkpoints once committed keep their values, whether the handler returns or fails.\<close>

lemma exec_mono:
  "ok s \<Longrightarrow> quiet_prog ok obs p \<Longrightarrow> exec_prog begin_step commit p s = (r, s') \<Longrightarrow>
    ok s' \<and> view s \<subseteq>\<^sub>m view s'"
proof (induction p arbitrary: s)
  case (Step n enc dec body k)
  from Step.prems(3) consider e where "makeStep begin_step commit n enc dec body s = (Inl e, s')"
    | a s1 where "makeStep begin_step commit n enc dec body s = (Inr a, s1)"
        "exec_prog begin_step commit (k a) s1 = (r, s')"
    by (auto simp: bind_ts_eq)
  then show ?case
  proof cases
    case (1 e)
    from step_mono [OF Step.prems(1) _ 1] Step.prems(2) show ?thesis by simp
  next
    case (2 a s1)
    have "ok s1 \<and> view s \<subseteq>\<^sub>m view s1" using step_mono [OF Step.prems(1) _ 2(1)] Step.prems(2) by simp
    moreover have "ok s' \<and> view s1 \<subseteq>\<^sub>m view s'"
      using Step.IH [OF _ _ _ 2(2)] calculation Step.prems(2) by auto
    ultimately show ?thesis by (auto intro: map_le_trans)
  qed
qed auto

text \<open>A handler run again over the checkpoints of a run that returned gives the same, executing nothing.\<close>

lemma exec_replay:
  "ok s \<Longrightarrow> quiet_prog ok obs p \<Longrightarrow> exec_prog begin_step commit p s = (Inr a, s') \<Longrightarrow>
    ok s2 \<Longrightarrow> view s' \<subseteq>\<^sub>m view s2 \<Longrightarrow> count s2 = count s \<Longrightarrow>
    \<exists>s2'. exec_prog begin_step commit p s2 = (Inr a, s2') \<and> outside s2' = outside s2 \<and>
      view s2' = view s2 \<and> ok s2'"
proof (induction p arbitrary: s s2)
  case (Step n enc dec body k)
  let ?c = "checkpoint_name n (count s n + 1)"
  from Step.prems(3) obtain b s1 where s1: "makeStep begin_step commit n enc dec body s = (Inr b, s1)"
    "exec_prog begin_step commit (k b) s1 = (Inr a, s')"
    by (auto simp: bind_ts_eq)
  have q: "quiet ok obs body" "round_trips enc dec" "quiet_prog ok obs (k b)" using Step.prems(2) by simp_all
  have m: "ok s1" "count s1 = (count s)(n := count s n + 1)" using step_mono [OF Step.prems(1) q(1) s1(1)] by auto
  have later: "view s1 \<subseteq>\<^sub>m view s'" using exec_mono [OF m(1) q(3) s1(2)] by simp
  have "\<exists>v. view s1 ?c = Some v \<and> dec v = Inr b"
  proof (cases "view s ?c")
    case None
    from step_fresh [OF Step.prems(1) None q(1) s1(1)] q(2) show ?thesis by (auto simp: round_trips_def)
  next
    case (Some v)
    from step_stored [OF Step.prems(1) Some, of enc dec body] s1(1) Some show ?thesis by auto
  qed
  then obtain v where v: "view s1 ?c = Some v" "dec v = Inr b" by blast
  then have "view s2 ?c = Some v"
    using later Step.prems(5) unfolding map_le_def by (metis domI)
  then have "view s2 (checkpoint_name n (count s2 n + 1)) = Some v" using Step.prems(6) by simp
  from step_stored [OF Step.prems(4) this, of enc dec body] v(2) obtain s3 where s3:
    "makeStep begin_step commit n enc dec body s2 = (Inr b, s3)" "ok s3" "view s3 = view s2"
    "count s3 = count s1" "outside s3 = outside s2" using m(2) Step.prems(6) by auto
  have "view s' \<subseteq>\<^sub>m view s3" using Step.prems(5) s3(3) by simp
  from Step.IH [OF _ m(1) q(3) s1(2) s3(2) this s3(4)] s3 show ?case by auto
qed auto

end

section \<open>Test doubles\<close>

text \<open>A handler whose step bodies have fixed outcomes, which runs on any store.\<close>

datatype 'a script =
    Script_return 'a
  | Script_throw exn
  | Script_step string "'a \<Rightarrow> exn + json" "json \<Rightarrow> exn + 'a" "exn + 'a" "'a \<Rightarrow> 'a script"

primrec on_state :: "'a script \<Rightarrow> ('s, 'a) prog" where
  "on_state (Script_return a) = Return a"
| "on_state (Script_throw e) = Throw e"
| "on_state (Script_step n enc dec b k) = Step n enc dec (\<lambda>s. (b, s)) (\<lambda>a. on_state (k a))"

text \<open>
  A store in memory, whose commits always succeed, beside a real one whose commits may fail. A script over the same
  visible checkpoints has the same outcome on both, except for a commit that the real store refuses.
\<close>

locale test_double =
  mem: step_backend begin1 commit1 view1 count1 outside1 ok1 +
  real: step_backend begin2 commit2 view2 count2 outside2 ok2
  for begin1 :: "string \<Rightarrow> ('s, string \<times> json option) ts" and commit1 view1 count1 and outside1 :: "'s \<Rightarrow> 'e"
    and ok1 and begin2 :: "string \<Rightarrow> ('t, string \<times> json option) ts" and commit2 view2 count2
    and outside2 :: "'t \<Rightarrow> 'f" and ok2 +
  assumes accepts: "fst (commit1 n c v s) = Inr ()"
begin

definition agree :: "'s \<Rightarrow> 't \<Rightarrow> bool" where
  "agree s t \<longleftrightarrow> ok1 s \<and> ok2 t \<and> view1 s = view2 t \<and> count1 s = count2 t"

definition refused :: "exn \<Rightarrow> bool" where
  "refused e \<longleftrightarrow> (\<exists>n c v t t'. commit2 n c v t = (Inl e, t'))"

lemma step_agrees:
  assumes ag: "agree s t"
    and m1: "makeStep begin1 commit1 n enc dec (\<lambda>s. (b, s)) s = (r, s')"
    and m2: "makeStep begin2 commit2 n enc dec (\<lambda>t. (b, t)) t = (x, t')"
  shows "x = r \<and> agree s' t' \<or> (\<exists>e. x = Inl e \<and> refused e)"
proof -
  have q1: "quiet ok1 mem.obs (\<lambda>s. (b, s))" and q2: "quiet ok2 real.obs (\<lambda>t. (b, t))"
    by (auto simp: quiet_def)
  let ?c = "checkpoint_name n (count1 s n + 1)"
  show ?thesis
  proof (cases "view1 s ?c")
    case (Some v)
    from mem.step_stored [OF _ Some, of enc dec "\<lambda>s. (b, s)"]
      real.step_stored [of t n v enc dec "\<lambda>t. (b, t)"] ag Some m1 m2
    show ?thesis by (auto simp: agree_def)
  next
    case None
    then have none: "view2 t (checkpoint_name n (count2 t n + 1)) = None" using ag by (simp add: agree_def)
    from ag have ok: "ok1 s" "ok2 t" by (simp_all add: agree_def)
    note f1 = mem.step_fresh [OF ok(1) None q1 m1]
    note f2 = real.step_fresh [OF ok(2) none q2 m2]
    from mem.begins [OF ok(1), of n] None obtain s1 where b1: "begin1 n s = (Inr (?c, None), s1)" by auto
    from real.begins [OF ok(2), of n] none obtain t1 where
      b2: "begin2 n t = (Inr (checkpoint_name n (count2 t n + 1), None), t1)" by auto
    consider e where "b = Inl e" | a e where "b = Inr a" "enc a = Inl e" | a j where "b = Inr a" "enc a = Inr j"
      by (cases b; cases "enc (projr b)") auto
    then show ?thesis
    proof cases
      case 1
      then have "r = Inl e" "x = Inl e" using m1 [unfolded 1] m2 [unfolded 1] b1 b2 by (auto simp: makeStep_def)
      then show ?thesis using f1 f2 ag by (simp add: agree_def)
    next
      case (2 a e)
      then have "r = Inl e" "x = Inl e" using 2 m1 m2 b1 b2 by (simp_all add: makeStep_def bind_ts_def)
      then show ?thesis using f1 f2 ag by (simp add: agree_def)
    next
      case (3 a j)
      obtain s2 where c1: "commit1 n ?c j s1 = (Inr (), s2)" using accepts by (metis prod.collapse)
      obtain y t2 where c2: "commit2 n (checkpoint_name n (count2 t n + 1)) j t1 = (y, t2)" by fastforce
      have r: "r = Inr a" using m1 3 b1 c1 by (simp add: makeStep_def bind_ts_def)
      show ?thesis
      proof (cases y)
        case (Inl e)
        then have "x = Inl e" using Inl m2 3 b2 c2 by (simp add: makeStep_def bind_ts_def)
        then show ?thesis using c2 Inl by (auto simp: refused_def)
      next
        case (Inr u)
        then have x: "x = Inr a" using Inr m2 3 b2 c2 by (simp add: makeStep_def bind_ts_def)
        then show ?thesis using f1 f2 r ag by (auto simp: agree_def)
      qed
    qed
  qed
qed

lemma script_agrees:
  "agree s t \<Longrightarrow> exec_prog begin1 commit1 (on_state p) s = (r, s') \<Longrightarrow>
    exec_prog begin2 commit2 (on_state p) t = (x, t') \<Longrightarrow>
    x = r \<and> agree s' t' \<or> (\<exists>e. x = Inl e \<and> refused e)"
proof (induction p arbitrary: s t)
  case (Script_step n enc dec b k)
  obtain r1 s1 where 1: "makeStep begin1 commit1 n enc dec (\<lambda>s. (b, s)) s = (r1, s1)" by fastforce
  obtain x1 t1 where 2: "makeStep begin2 commit2 n enc dec (\<lambda>t. (b, t)) t = (x1, t1)" by fastforce
  from step_agrees [OF Script_step.prems(1) 1 2] show ?case
  proof
    assume a: "x1 = r1 \<and> agree s1 t1"
    show ?case
    proof (cases r1)
      case (Inl e)
      show ?thesis using Script_step.prems(2,3) 1 2 a unfolding Inl by (auto simp: bind_ts_def)
    next
      case (Inr v)
      have "exec_prog begin1 commit1 (on_state (k v)) s1 = (r, s')"
        "exec_prog begin2 commit2 (on_state (k v)) t1 = (x, t')"
        using Script_step.prems(2,3) 1 2 a Inr by (simp_all add: bind_ts_def)
      from Script_step.IH [OF _ _ this] a show ?thesis by blast
    qed
  next
    assume "\<exists>e. x1 = Inl e \<and> refused e"
    then show ?case using Script_step.prems(3) 2 by (auto simp: bind_ts_def)
  qed
qed auto

end

section \<open>Names of repeated steps\<close>

text \<open>
  Within one step name the occurrences never collide, and two names collide only when one of them ends in
  \<open>#\<close> and the decimal of an occurrence.
\<close>

lemma checkpoint_name_inj:
  assumes "checkpoint_name n j = checkpoint_name n k" "0 < j" "0 < k"
  shows "j = k"
  using assms by (auto simp: checkpoint_name_def split: if_splits)

end
