(* ===== verification/Task_Context.thy ===== *)
theory Task_Context
  imports Client_Spec Durable
begin

text \<open>
  The class \<open>TaskContext\<close> of \<open>sdks/typescript/src/index.ts\<close>, through which a running handler reaches the queue:
  steps, sleeps, events, results of other tasks, heartbeats. Its state is the record \<open>session\<close>, an extension of
  the world; the timers of \<open>executeTask\<close> that the context resets are part of it.
\<close>

section \<open>The session of a claimed task\<close>

record session = world +
  cx_queue :: string
  cx_task :: claimed_task
  cx_claimTimeout :: int
  cx_counter :: "string \<Rightarrow> nat"
  cx_cache :: "string \<Rightarrow> json option"
  cx_fatal :: bool
  cx_warn_at :: "int option"
  cx_fatal_at :: "int option"

definition headers :: "session \<Rightarrow> json" where
  "headers s = (case ct_headers (cx_task s) of None \<Rightarrow> JObj [] | Some JNull \<Rightarrow> JObj [] | Some h \<Rightarrow> h)"

text \<open>\<open>clearLeaseTimers\<close> and \<open>scheduleLeaseTimers\<close> of \<open>executeTask\<close>: when the timers fire, in milliseconds.\<close>

definition clearLeaseTimers :: "session \<Rightarrow> session" where
  "clearLeaseTimers s = s\<lparr>cx_warn_at := None, cx_fatal_at := None\<rparr>"

definition scheduleLeaseTimers :: "int \<Rightarrow> session \<Rightarrow> session" where
  "scheduleLeaseTimers leaseSeconds s =
     (if leaseSeconds \<le> 0 then clearLeaseTimers s
      else (clearLeaseTimers s)\<lparr>cx_warn_at := Some (w_js_now s + leaseSeconds * 1000),
        cx_fatal_at := (if cx_fatal s then Some (w_js_now s + leaseSeconds * 1000 * 2) else None)\<rparr>)"

definition onLeaseExtended :: "int \<Rightarrow> (session, unit) ts" where
  "onLeaseExtended leaseSeconds = (\<lambda>s. (Inr (), scheduleLeaseTimers leaseSeconds s))"

text \<open>A query of the task's queue.\<close>

definition task_sql ::
    "(claimed_task \<Rightarrow> int \<Rightarrow> int \<Rightarrow> qstate \<Rightarrow> pg_error + 'a \<times> qstate) \<Rightarrow> (session, 'a) ts" where
  "task_sql f = (\<lambda>s. sql (cx_queue s) (f (cx_task s) (cx_claimTimeout s)) s)"

definition void :: "(int \<Rightarrow> qstate \<Rightarrow> pg_error + qstate) \<Rightarrow> int \<Rightarrow> qstate \<Rightarrow> pg_error + unit \<times> qstate" where
  "void f now q = bind_result (f now q) (\<lambda>q'. Inr ((), q'))"

text \<open>\<open>TaskContext.create\<close>: the cache starts with the checkpoints that the run may see.\<close>

definition create :: "string \<Rightarrow> claimed_task \<Rightarrow> int \<Rightarrow> bool \<Rightarrow> world \<Rightarrow> exn + session" where
  "create queueName task claimTimeout fatal w =
     (case sql_rows queueName (get_task_checkpoint_states (ct_task_id task) (ct_run_id task)) w of
        (Inl e, _) \<Rightarrow> Inl e
      | (Inr rows, _) \<Rightarrow>
          Inr (world.extend w \<lparr>cx_queue = queueName, cx_task = task, cx_claimTimeout = claimTimeout,
            cx_counter = (\<lambda>_. 0),
            cx_cache = fold (\<lambda>row cache. cache(c_name row \<mapsto> or_null (c_state row))) rows (\<lambda>_. None),
            cx_fatal = fatal, cx_warn_at = None, cx_fatal_at = None\<rparr>))"

section \<open>Checkpoints and steps\<close>

definition getCheckpointName :: "string \<Rightarrow> (session, string) ts" where
  "getCheckpointName name = (\<lambda>s.
     let count = cx_counter s name + 1
     in (Inr (checkpoint_name name count), s\<lparr>cx_counter := (cx_counter s)(name := count)\<rparr>))"

definition cache_set :: "string \<Rightarrow> json option \<Rightarrow> (session, unit) ts" where
  "cache_set n v = (\<lambda>s. (Inr (), s\<lparr>cx_cache := (cx_cache s)(n := v)\<rparr>))"

definition lookupCheckpoint :: "string \<Rightarrow> (session, json option) ts" where
  "lookupCheckpoint checkpointName = (\<lambda>s.
     case cx_cache s checkpointName of
       Some cached \<Rightarrow> (Inr (Some cached), s)
     | None \<Rightarrow>
         bind_ts (task_sql (\<lambda>task _ _ q.
             Inr (get_task_checkpoint_state (ct_task_id task) checkpointName q, q))) (\<lambda>row.
           case row of
             None \<Rightarrow> ret None
           | Some r \<Rightarrow>
               bind_ts (cache_set checkpointName (Some (or_null (c_state r))))
                 (\<lambda>_. ret (Some (or_null (c_state r))))) s)"

definition persistCheckpoint :: "string \<Rightarrow> json option \<Rightarrow> (session, unit) ts" where
  "persistCheckpoint checkpointName v =
     bind_ts (with_state_check (task_sql (\<lambda>task claimTimeout. void (\<lambda>now.
         set_task_checkpoint_state now (ct_task_id task) checkpointName v (ct_run_id task)
           (Some claimTimeout))))) (\<lambda>_.
     bind_ts (cache_set checkpointName v) (\<lambda>_.
       (\<lambda>s. onLeaseExtended (cx_claimTimeout s) s)))"

record StepHandle =
  sh_name :: string
  sh_checkpointName :: string
  sh_done :: "json option"

definition beginStep :: "string \<Rightarrow> (session, StepHandle) ts" where
  "beginStep name =
     bind_ts (getCheckpointName name) (\<lambda>checkpointName.
     bind_ts (lookupCheckpoint checkpointName) (\<lambda>state.
       ret \<lparr>sh_name = name, sh_checkpointName = checkpointName, sh_done = state\<rparr>))"

text \<open>The value of a step may be \<open>undefined\<close>, \<open>None\<close>.\<close>

definition completeStep :: "StepHandle \<Rightarrow> json option \<Rightarrow> (session, json option) ts" where
  "completeStep handle v =
     (case sh_done handle of
        Some state \<Rightarrow> ret (Some state)
      | None \<Rightarrow> bind_ts (persistCheckpoint (sh_checkpointName handle) v) (\<lambda>_. ret v))"

definition step :: "string \<Rightarrow> (session, json option) ts \<Rightarrow> (session, json option) ts" where
  "step name fn =
     bind_ts (beginStep name) (\<lambda>handle.
       case sh_done handle of
         Some state \<Rightarrow> ret (Some state)
       | None \<Rightarrow> bind_ts fn (\<lambda>rv. completeStep handle rv))"

section \<open>Sleeping\<close>

text \<open>\<open>SELECT schedule_run(\<dots>, now + make_interval(secs => seconds))\<close>.\<close>

definition scheduleRunAfter :: "rat \<Rightarrow> (session, unit) ts" where
  "scheduleRunAfter seconds =
     task_sql (\<lambda>task _. void (\<lambda>now. schedule_run (ct_run_id task) (now + interval_secs seconds)))"

text \<open>
  A \<open>Date\<close> is its milliseconds, \<open>None\<close> when invalid. \<open>toISOString\<close> of an invalid date throws a
  \<open>RangeError\<close>, comparisons with \<open>NaN\<close> are false.
\<close>

definition to_iso :: "int option \<Rightarrow> exn + string" where
  "to_iso d = (case Option.bind d to_iso_string of
     None \<Rightarrow> Inl (JsError ''RangeError'' ''Invalid time value'') | Some s \<Rightarrow> Inr s)"

definition stored_date :: "json option \<Rightarrow> int option \<Rightarrow> int option" where
  "stored_date state wakeAt = (case state of Some (JStr s) \<Rightarrow> date_parse s | _ \<Rightarrow> wakeAt)"

definition sleepUntil :: "string \<Rightarrow> int option \<Rightarrow> (session, unit) ts" where
  "sleepUntil stepName wakeAt =
     bind_ts (getCheckpointName stepName) (\<lambda>checkpointName.
     bind_ts (lookupCheckpoint checkpointName) (\<lambda>state.
     bind_ts (if js_truthy state then ret ()
              else bind_ts (check (to_iso wakeAt)) (\<lambda>iso. persistCheckpoint checkpointName (Some (JStr iso)))) (\<lambda>_.
     bind_ts js_now (\<lambda>now.
       case stored_date state wakeAt of
         None \<Rightarrow> ret ()
       | Some actualWakeAt \<Rightarrow>
           (let remainingMs = actualWakeAt - now
            in if remainingMs > 0
               then bind_ts (scheduleRunAfter (of_int remainingMs / 1000)) (\<lambda>_. throw SuspendTask)
               else ret ())))))"

text \<open>\<open>new Date(x)\<close> drops the fraction of a number and is invalid out of the date range.\<close>

definition new_Date :: "rat \<Rightarrow> int option" where
  "new_Date x =
     (let t = (if 0 \<le> x then \<lfloor>x\<rfloor> else - \<lfloor>- x\<rfloor>) in if \<bar>t\<bar> \<le> max_time_ms then Some t else None)"

definition sleepFor :: "string \<Rightarrow> rat \<Rightarrow> (session, unit) ts" where
  "sleepFor stepName duration =
     bind_ts js_now (\<lambda>now. sleepUntil stepName (new_Date (of_int now + duration * 1000)))"

section \<open>Events, heartbeats, other tasks\<close>

definition default_name :: "string \<Rightarrow> string \<Rightarrow> string option \<Rightarrow> string" where
  "default_name prefix suffix stepName =
     (case stepName of None \<Rightarrow> prefix @ suffix | Some n \<Rightarrow> n)"

definition whole_timeout :: "jsnum option \<Rightarrow> int option" where
  "whole_timeout timeout = (case timeout of Some (Fin t) \<Rightarrow> if t \<ge> 0 then Some \<lfloor>t\<rfloor> else None | _ \<Rightarrow> None)"

definition absent :: "json option \<Rightarrow> bool" where
  "absent j \<longleftrightarrow> j = None \<or> j = Some JNull"

text \<open>
  The part of \<open>awaitEvent\<close> that runs without a stored payload: the timeout that resumed the run, or the query.
\<close>

definition awaitEvent_query :: "string \<Rightarrow> string \<Rightarrow> int option \<Rightarrow> (session, json) ts" where
  "awaitEvent_query checkpointName eventName timeout = (\<lambda>s.
     if ct_wake_event (cx_task s) = Some eventName \<and> absent (ct_event_payload (cx_task s))
     then throw (TimeoutError ''Timed out waiting for event'')
            (s\<lparr>cx_task := (cx_task s)\<lparr>ct_wake_event := None, ct_event_payload := None\<rparr>\<rparr>)
     else bind_ts (with_state_check (task_sql (\<lambda>task _ now.
            await_event now (ct_task_id task) (ct_run_id task) checkpointName eventName timeout))) (\<lambda>row.
          if aw_suspend row then throw SuspendTask
          else bind_ts (cache_set checkpointName (Some (or_null (aw_payload row)))) (\<lambda>_.
            (\<lambda>s. (Inr (or_null (aw_payload row)),
                  s\<lparr>cx_task := (cx_task s)\<lparr>ct_event_payload := None\<rparr>\<rparr>)))) s)"

definition event_step_name :: "string \<Rightarrow> string option \<Rightarrow> string" where
  "event_step_name eventName stepName =
     default_name ''$awaitEvent:'' eventName (if stepName = Some [] then None else stepName)"

definition awaitEvent :: "string \<Rightarrow> string option \<Rightarrow> jsnum option \<Rightarrow> (session, json) ts" where
  "awaitEvent eventName stepName timeout =
     bind_ts (getCheckpointName (event_step_name eventName stepName)) (\<lambda>checkpointName.
     bind_ts (lookupCheckpoint checkpointName) (\<lambda>cached.
       case cached of
         Some v \<Rightarrow> ret v
       | None \<Rightarrow> awaitEvent_query checkpointName eventName (whole_timeout timeout)))"

definition heartbeat :: "int option \<Rightarrow> (session, unit) ts" where
  "heartbeat seconds = (\<lambda>s.
     let leaseSeconds = (case seconds of None \<Rightarrow> cx_claimTimeout s | Some n \<Rightarrow> n)
     in bind_ts (with_state_check (task_sql (\<lambda>task _. void (\<lambda>now.
            extend_claim now (ct_run_id task) leaseSeconds))))
          (\<lambda>_. onLeaseExtended leaseSeconds) s)"

definition ctx_emitEvent :: "string \<Rightarrow> json option \<Rightarrow> (session, unit) ts" where
  "ctx_emitEvent eventName payload =
     (if eventName = [] then throw (throw_error ''eventName must be a non-empty string'')
      else task_sql (\<lambda>_ _. void (\<lambda>now. emit_event now eventName (Some (or_null payload)))))"

text \<open>
  \<open>awaitTaskResult\<close> of a context: a step whose body polls, sending a heartbeat before a pause when half the
  claim timeout has gone since the last one. \<open>nextHeartbeatAt\<close> is the second component of the loop's state. The
  snapshot is checkpointed as JSON.
\<close>

fun state_text :: "task_state \<Rightarrow> string" where
  "state_text Pending = ''pending''"
| "state_text Running = ''running''"
| "state_text Sleeping = ''sleeping''"
| "state_text Completed = ''completed''"
| "state_text Failed = ''failed''"
| "state_text Cancelled = ''cancelled''"

fun snapshot_json :: "TaskResultSnapshot \<Rightarrow> json" where
  "snapshot_json (InProgress s) = JObj [(''state'', JStr (state_text s))]"
| "snapshot_json (SnapCompleted r) = JObj [(''state'', JStr ''completed''), (''result'', or_null r)]"
| "snapshot_json (SnapFailed f) = JObj [(''state'', JStr ''failed''), (''failure'', or_null f)]"
| "snapshot_json SnapCancelled = JObj [(''state'', JStr ''cancelled'')]"

definition heartbeatIntervalMs :: "int \<Rightarrow> int" where
  "heartbeatIntervalMs claimTimeout = max 500 (claimTimeout * 1000 div 2)"

definition with_snd :: "(session, 'a) ts \<Rightarrow> (session \<times> int, 'a) ts" where
  "with_snd m = (\<lambda>(s, n). case m s of (r, s') \<Rightarrow> (r, (s', n)))"

definition heartbeat_if_due :: "int \<Rightarrow> (session \<times> int, unit) ts" where
  "heartbeat_if_due interval = (\<lambda>(s, nextHeartbeatAt).
     if w_js_now s \<ge> nextHeartbeatAt
     then (case heartbeat None s of
             (Inl e, s') \<Rightarrow> (Inl e, (s', nextHeartbeatAt))
           | (Inr _, s') \<Rightarrow> (Inr (), (s', w_js_now s' + interval)))
     else (Inr (), (s, nextHeartbeatAt)))"

definition ctx_awaitTaskResult ::
    "(int \<Rightarrow> session \<Rightarrow> session) \<Rightarrow> uuid \<Rightarrow> string option \<Rightarrow> jsnum option \<Rightarrow> string option \<Rightarrow>
     session \<Rightarrow> ((exn + json) \<times> session) option" where
  "ctx_awaitTaskResult sleep taskID queueName timeout stepName s =
     (case validateQueueName (case queueName of None \<Rightarrow> cx_queue s | Some n \<Rightarrow> n) of
        Inl e \<Rightarrow> Some (Inl e, s)
      | Inr queue \<Rightarrow>
          if queue = cx_queue s
          then Some (Inl (throw_error ''TaskContext.awaitTaskResult cannot wait on tasks in the same queue''), s)
          else
           (case beginStep (default_name ''$awaitTaskResult:'' (uuid_text taskID) stepName) s of
              (Inl e, s1) \<Rightarrow> Some (Inl e, s1)
            | (Inr handle, s1) \<Rightarrow>
                (case sh_done handle of
                   Some v \<Rightarrow> Some (Inr v, s1)
                 | None \<Rightarrow>
                    (let interval = heartbeatIntervalMs (cx_claimTimeout s1)
                     in case awaitTaskResultWithBackoff
                               (with_snd (fetchTaskResultSnapshot queue taskID)) (heartbeat_if_due interval)
                               (\<lambda>(s, _). w_js_now s) (\<lambda>ms (s, n). (sleep ms s, n)) timeout
                               (s1, w_js_now s1 + interval) of
                          None \<Rightarrow> None
                        | Some (Inl e, (s2, _)) \<Rightarrow> Some (Inl e, s2)
                        | Some (Inr snapshot, (s2, _)) \<Rightarrow>
                            (case completeStep handle (Some (snapshot_json snapshot)) s2 of
                               (Inl e, s3) \<Rightarrow> Some (Inl e, s3)
                             | (Inr v, s3) \<Rightarrow> Some (Inr (or_null v), s3))))))"

end
