(* ===== verification/Context_Spec.thy ===== *)
theory Context_Spec
  imports Task_Context
begin

text \<open>
  \<open>TaskContext\<close> is a checkpoint store in the sense of \<open>Durable\<close>, with what follows for handlers, and the properties
  of its sleeps, events and heartbeats.
\<close>

section \<open>Queries of a task\<close>

definition own_queue :: "session \<Rightarrow> qstate option" where
  "own_queue s = map_of (w_queues s) (cx_queue s)"

lemma task_sql_eq:
  "task_sql f s = (case own_queue s of
     None \<Rightarrow> (Inl (DbError undefined_table), s)
   | Some q \<Rightarrow> (case f (cx_task s) (cx_claimTimeout s) (w_db_now s) q of
        Inl e \<Rightarrow> (Inl (DbError e), s)
      | Inr (a, q') \<Rightarrow> (Inr a, set_queue (cx_queue s) q' s)))"
  by (simp add: task_sql_def sql_def own_queue_def)

lemma set_queue_session [simp]:
  "cx_queue (set_queue n q s) = cx_queue s" "cx_task (set_queue n q s) = cx_task s"
  "cx_claimTimeout (set_queue n q s) = cx_claimTimeout s" "cx_counter (set_queue n q s) = cx_counter s"
  "cx_cache (set_queue n q s) = cx_cache s" "cx_fatal (set_queue n q s) = cx_fatal s"
  "cx_warn_at (set_queue n q s) = cx_warn_at s" "cx_fatal_at (set_queue n q s) = cx_fatal_at s"
  by (simp_all add: set_queue_def)

lemma own_queue_set [simp]: "own_queue (set_queue (cx_queue s) q s) = Some q"
  by (simp add: own_queue_def)

lemma own_queue_fields [simp]:
  "own_queue (s\<lparr>cx_counter := c\<rparr>) = own_queue s" "own_queue (s\<lparr>cx_cache := ca\<rparr>) = own_queue s"
  "own_queue (s\<lparr>cx_warn_at := a\<rparr>) = own_queue s" "own_queue (s\<lparr>cx_fatal_at := a\<rparr>) = own_queue s"
  "own_queue (s\<lparr>cx_task := t\<rparr>) = own_queue s"
  by (simp_all add: own_queue_def)

lemma lease_timers_fields [simp]:
  "cx_queue (scheduleLeaseTimers l s) = cx_queue s" "cx_task (scheduleLeaseTimers l s) = cx_task s"
  "cx_counter (scheduleLeaseTimers l s) = cx_counter s" "cx_cache (scheduleLeaseTimers l s) = cx_cache s"
  "w_queues (scheduleLeaseTimers l s) = w_queues s" "w_db_now (scheduleLeaseTimers l s) = w_db_now s"
  "w_js_now (scheduleLeaseTimers l s) = w_js_now s" "own_queue (scheduleLeaseTimers l s) = own_queue s"
  by (simp_all add: scheduleLeaseTimers_def clearLeaseTimers_def own_queue_def)

section \<open>The checkpoint store\<close>

text \<open>What a context sees of a checkpoint: its cache, then the row in the database.\<close>

definition db_checkpoint :: "session \<Rightarrow> string \<Rightarrow> json option" where
  "db_checkpoint s n = Option.bind (own_queue s) (\<lambda>q.
     map_option (\<lambda>c. or_null (c_state c)) (get_task_checkpoint_state (ct_task_id (cx_task s)) n q))"

definition ctx_view :: "session \<Rightarrow> string \<Rightarrow> json option" where
  "ctx_view s n = (case cx_cache s n of Some v \<Rightarrow> Some v | None \<Rightarrow> db_checkpoint s n)"

text \<open>
  A context is in order when its queue exists, its cache agrees with the database, and no checkpoint of its task was
  written by a later attempt (\<open>unfenced\<close>), as is the case while its run holds the lease.
\<close>

definition ctx_ok :: "session \<Rightarrow> bool" where
  "ctx_ok s \<longleftrightarrow>
     (case own_queue s of
        None \<Rightarrow> False
      | Some q \<Rightarrow> unfenced (cx_task s) q \<and> (\<forall>n v. cx_cache s n = Some v \<longrightarrow> db_checkpoint s n = Some v))"

lemma ctx_ok_view: "ctx_ok s \<Longrightarrow> ctx_view s = db_checkpoint s"
  by (auto simp: ctx_ok_def ctx_view_def fun_eq_iff split: option.splits)

text \<open>The whole database, the clocks and the task: all that a context has beside its cache, counters and timers.\<close>

definition ctx_outside :: "session \<Rightarrow> (string \<Rightarrow> qstate option) \<times> int \<times> int \<times> string \<times> claimed_task" where
  "ctx_outside s = (map_of (w_queues s), w_db_now s, w_js_now s, cx_queue s, cx_task s)"

lemma ctx_outside_queue: "ctx_outside s' = ctx_outside s \<Longrightarrow> own_queue s' = own_queue s"
  by (simp add: ctx_outside_def own_queue_def)

definition ctx_begin :: "string \<Rightarrow> (session, string \<times> json option) ts" where
  "ctx_begin name = bind_ts (beginStep name) (\<lambda>h. ret (sh_checkpointName h, sh_done h))"

definition ctx_commit :: "string \<Rightarrow> string \<Rightarrow> json \<Rightarrow> (session, unit) ts" where
  "ctx_commit name n v = persistCheckpoint n (Some v)"

lemma ctx_view_same:
  assumes "cx_cache s' = cx_cache s" "own_queue s' = own_queue s" "cx_task s' = cx_task s"
  shows "ctx_view s' = ctx_view s"
  using assms by (auto simp: ctx_view_def db_checkpoint_def fun_eq_iff split: option.split)

lemma db_checkpoint_same:
  assumes "own_queue s' = own_queue s" "cx_task s' = cx_task s"
  shows "db_checkpoint s' = db_checkpoint s"
  using assms by (simp add: db_checkpoint_def fun_eq_iff)

lemma ctx_ok_same:
  assumes "cx_cache s' = cx_cache s" "own_queue s' = own_queue s" "cx_task s' = cx_task s"
  shows "ctx_ok s' = ctx_ok s"
  using assms db_checkpoint_same [OF assms(2,3)] by (simp add: ctx_ok_def split: option.split)

lemma lookup_view:
  assumes "ctx_ok s"
  shows "\<exists>s'. lookupCheckpoint n s = (Inr (ctx_view s n), s') \<and> ctx_ok s' \<and> ctx_view s' = ctx_view s \<and>
    cx_counter s' = cx_counter s \<and> ctx_outside s' = ctx_outside s \<and> own_queue s' = own_queue s"
proof (cases "cx_cache s n")
  case (Some v)
  then show ?thesis using assms by (simp add: lookupCheckpoint_def ctx_view_def)
next
  case None
  obtain q where q: "own_queue s = Some q" using assms by (auto simp: ctx_ok_def split: option.splits)
  let ?s = "set_queue (cx_queue s) q s"
  have same: "ctx_view ?s = ctx_view s" "ctx_ok ?s = ctx_ok s" "db_checkpoint ?s = db_checkpoint s"
    by (rule ctx_view_same ctx_ok_same db_checkpoint_same; simp add: q)+
  have out: "ctx_outside (?s\<lparr>cx_cache := c\<rparr>) = ctx_outside s" "ctx_outside ?s = ctx_outside s" for c
    using q by (auto simp: ctx_outside_def own_queue_def fun_eq_iff)
  show ?thesis
  proof (cases "get_task_checkpoint_state (ct_task_id (cx_task s)) n q")
    case r: None
    have "lookupCheckpoint n s = (Inr None, ?s)"
      by (simp add: lookupCheckpoint_def None bind_ts_def task_sql_eq q r)
    moreover have "ctx_view s n = None" by (simp add: ctx_view_def None db_checkpoint_def q r)
    ultimately show ?thesis using assms same out q by simp
  next
    case (Some c)
    let ?v = "or_null (c_state c)"
    let ?s' = "?s\<lparr>cx_cache := (cx_cache s)(n := Some ?v)\<rparr>"
    have l: "lookupCheckpoint n s = (Inr (Some ?v), ?s')"
      by (simp add: lookupCheckpoint_def None bind_ts_def task_sql_eq q Some cache_set_def)
    have d: "db_checkpoint s n = Some ?v" by (simp add: db_checkpoint_def q Some)
    then have v: "ctx_view s n = Some ?v" by (simp add: ctx_view_def None)
    have db: "db_checkpoint ?s' = db_checkpoint s" by (rule db_checkpoint_same) (simp_all add: q)
    have "own_queue ?s' = Some q" "cx_task ?s' = cx_task s" by simp_all
    with db have ok: "ctx_ok ?s'" using assms d q unfolding ctx_ok_def by simp
    then have "ctx_view ?s' = ctx_view s" using ctx_ok_view assms db by metis
    with l v ok out q show ?thesis by simp
  qed
qed

lemma persist_cases:
  assumes "persistCheckpoint n v s = (r, s')"
  obtains (fails) e where "r = Inl e" "s' = s" "e \<noteq> SuspendTask"
  | (stored) q q' where "r = Inr ()" "own_queue s = Some q"
      "set_task_checkpoint_state (w_db_now s) (ct_task_id (cx_task s)) n v (ct_run_id (cx_task s))
         (Some (cx_claimTimeout s)) q = Inr q'"
      "s' = scheduleLeaseTimers (cx_claimTimeout s)
         ((set_queue (cx_queue s) q' s)\<lparr>cx_cache := (cx_cache s)(n := v)\<rparr>)"
proof -
  let ?f = "\<lambda>now. set_task_checkpoint_state now (ct_task_id (cx_task s)) n v (ct_run_id (cx_task s))
    (Some (cx_claimTimeout s))"
  let ?m = "with_state_check (task_sql (\<lambda>task claimTimeout. void (\<lambda>now.
         set_task_checkpoint_state now (ct_task_id task) n v (ct_run_id task) (Some claimTimeout))))"
  have p: "persistCheckpoint n v s = (case ?m s of
      (Inl e, s1) \<Rightarrow> (Inl e, s1)
    | (Inr _, s1) \<Rightarrow> (Inr (), scheduleLeaseTimers (cx_claimTimeout s1) (s1\<lparr>cx_cache := (cx_cache s1)(n := v)\<rparr>)))"
    by (simp add: persistCheckpoint_def bind_ts_def cache_set_def onLeaseExtended_def)
  show ?thesis
  proof (cases "own_queue s")
    case None
    then have "?m s = (Inl (DbError undefined_table), s)"
      by (simp add: with_state_check_def catch_ts_def task_sql_eq throw_def mapTaskStateError_def undefined_table_def)
    with p assms show ?thesis by (intro fails [of "DbError undefined_table"]) simp_all
  next
    case (Some q)
    show ?thesis
    proof (cases "?f (w_db_now s) q")
      case (Inl e)
      with Some have "?m s = (Inl (mapTaskStateError (DbError e)), s)"
        by (simp add: with_state_check_def catch_ts_def task_sql_eq throw_def void_def)
      with p assms show ?thesis
        by (intro fails [of "mapTaskStateError (DbError e)"]) (simp_all add: mapTaskStateError_def)
    next
      case (Inr q')
      with Some have "?m s = (Inr (), set_queue (cx_queue s) q' s)"
        by (simp add: with_state_check_def catch_ts_def task_sql_eq throw_def void_def)
      with p assms Some Inr show ?thesis by (intro stored [of q q']) simp_all
    qed
  qed
qed

lemma persist_view:
  assumes "ctx_ok s" "ctx_commit name n v s = (r, s')"
  shows "ctx_ok s' \<and> cx_counter s' = cx_counter s \<and> w_db_now s' = w_db_now s \<and> w_js_now s' = w_js_now s \<and>
    cx_queue s' = cx_queue s \<and> cx_task s' = cx_task s \<and> ctx_view s' = (case r of Inr _ \<Rightarrow> (ctx_view s)(n \<mapsto> v) | Inl _ \<Rightarrow> ctx_view s)"
  using assms(2) [unfolded ctx_commit_def]
proof (cases rule: persist_cases)
  case fails
  with assms(1) show ?thesis by simp
next
  case (stored q q')
  have ok: "unfenced (cx_task s) q" "\<And>n v. cx_cache s n = Some v \<Longrightarrow> db_checkpoint s n = Some v"
    using assms(1) stored(2) by (simp_all add: ctx_ok_def)
  note new = set_checkpoint_unfenced [OF ok(1) stored(3)]
  obtain x where "find_run (ct_run_id (cx_task s)) q = Some x" using set_checkpoint_run [OF stored(3)] by blast
  from set_checkpoint_effect [OF stored(3) this]
  have other: "m \<noteq> n \<Longrightarrow> get_task_checkpoint_state (ct_task_id (cx_task s)) m q'
      = get_task_checkpoint_state (ct_task_id (cx_task s)) m q" for m by simp
  have oq: "own_queue s' = Some q'" and ts: "cx_task s' = cx_task s" by (simp_all add: stored(4))
  have db: "db_checkpoint s' = (db_checkpoint s)(n \<mapsto> v)"
  proof
    fix m
    show "db_checkpoint s' m = ((db_checkpoint s)(n \<mapsto> v)) m"
    proof (cases "m = n")
      case True
      then show ?thesis using new(2) by (auto simp: db_checkpoint_def oq ts or_null_def)
    next
      case False
      then show ?thesis using other by (simp add: db_checkpoint_def oq ts stored(2))
    qed
  qed
  have "ctx_ok s'" using ok(2) new(1) by (auto simp: ctx_ok_def oq ts db) (auto simp: stored(4))
  then show ?thesis
    using db ctx_ok_view assms(1) by (simp add: stored(1)) (simp add: stored(4))
qed

lemma begin_view:
  assumes "ctx_ok s"
  shows "\<exists>s'. ctx_begin n s = (Inr (checkpoint_name n (cx_counter s n + 1),
      ctx_view s (checkpoint_name n (cx_counter s n + 1))), s') \<and> ctx_ok s' \<and> ctx_view s' = ctx_view s \<and>
    cx_counter s' = (cx_counter s)(n := cx_counter s n + 1) \<and> ctx_outside s' = ctx_outside s"
proof -
  let ?s = "s\<lparr>cx_counter := (cx_counter s)(n := cx_counter s n + 1)\<rparr>"
  have v: "ctx_view ?s = ctx_view s"
    by (rule ctx_view_same) simp_all
  have "ctx_ok ?s" using assms ctx_ok_same [of ?s s] by simp
  from lookup_view [OF this, of "checkpoint_name n (cx_counter s n + 1)"] v
  show ?thesis
    by (auto simp: ctx_begin_def beginStep_def bind_ts_def getCheckpointName_def Let_def ctx_outside_def)
qed

interpretation ctx: step_backend ctx_begin ctx_commit ctx_view cx_counter ctx_outside ctx_ok
  by unfold_locales (use begin_view persist_view in blast)+

section \<open>The code's steps are the shared ones\<close>

definition some_result :: "('s, json) ts \<Rightarrow> ('s, json option) ts" where
  "some_result m = bind_ts m (\<lambda>v. ret (Some v))"

lemma some_result_Inr: "some_result m s = (Inr (Some v), s') \<longleftrightarrow> m s = (Inr v, s')"
  by (auto simp: some_result_def bind_ts_eq)

lemma step_makeStep:
  "step n (some_result body) s = some_result (makeStep ctx_begin ctx_commit n Inr Inr body) s"
  by (auto simp: step_def makeStep_def some_result_def ctx_begin_def ctx_commit_def completeStep_def
      bind_ts_def ret_def split: prod.splits sum.splits option.splits)

section \<open>A new session over stored checkpoints\<close>

lemma fold_cache:
  assumes "distinct (map c_name rows)"
  shows "fold (\<lambda>row cache. cache(c_name row \<mapsto> or_null (c_state row))) rows m n
    = (case tbl_find (\<lambda>c. c_name c = n) rows of None \<Rightarrow> m n | Some c \<Rightarrow> Some (or_null (c_state c)))"
  using assms
proof (induction rows arbitrary: m)
  case (Cons c rows)
  have "c_name c = n \<Longrightarrow> tbl_find (\<lambda>c. c_name c = n) rows = None"
    using Cons.prems by (simp add: tbl_simps) (metis image_eqI)
  then show ?case using Cons by (auto split: option.splits)
qed simp

lemma create_resumes:
  assumes "create qn task ct fatal w = Inr s" "map_of (w_queues w) qn = Some q" "queue_inv q" "unfenced task q"
  shows "ctx_ok s \<and> cx_counter s = (\<lambda>_. 0) \<and> cx_task s = task \<and> own_queue s = Some q \<and>
    (\<forall>n. ctx_view s n = map_option (\<lambda>c. or_null (c_state c)) (get_task_checkpoint_state (ct_task_id task) n q))"
proof -
  from assms(1,2) obtain rows where rows: "get_task_checkpoint_states (ct_task_id task) (ct_run_id task) q = Inr rows"
    by (cases "get_task_checkpoint_states (ct_task_id task) (ct_run_id task) q")
      (auto simp: create_def sql_rows_def sql_def split: prod.splits)
  define cache where "cache = fold (\<lambda>row cache. cache(c_name row \<mapsto> or_null (c_state row))) rows (\<lambda>_. None)"
  have s: "s = world.extend w \<lparr>cx_queue = qn, cx_task = task, cx_claimTimeout = ct, cx_counter = (\<lambda>_. 0),
      cx_cache = cache, cx_fatal = fatal, cx_warn_at = None, cx_fatal_at = None\<rparr>"
    using assms(1,2) rows by (simp add: create_def sql_rows_def sql_def cache_def)
  have wq: "w_queues s = w_queues w" "cx_queue s = qn" "cx_task s = task" "cx_cache s = cache"
    "cx_counter s = (\<lambda>_. 0)"
    by (simp_all add: s world.defs)
  have oq: "own_queue s = Some q" using assms(2) wq by (simp add: own_queue_def)
  from rows obtain r where "find_run (ct_run_id task) q = Some r"
    by (auto simp: get_task_checkpoint_states_def split: option.splits)
  with rows have rr: "rows = sort_key c_updated_at (filter (\<lambda>c. c_task c = ct_task_id task \<and>
      c_status c = ''committed'' \<and> (case Option.bind (c_owner_run c) (\<lambda>i. find_run i q) of
         None \<Rightarrow> True | Some w \<Rightarrow> r_attempt w \<le> r_attempt r)) (checkpoints q))"
    by (simp add: get_task_checkpoint_states_def split: if_splits)
  have keys: "distinct (map (\<lambda>c. (c_task c, c_name c)) (checkpoints q))"
    using queue_inv_keyD [OF assms(3)] by (simp add: key_inv_def)
  have "distinct (map (\<lambda>c. (c_task c, c_name c)) rows)"
    using keys unfolding rr by (simp add: distinct_map inj_on_def)
  moreover have task: "c_task c = ct_task_id task" if "c \<in> set rows" for c using that by (simp add: rr)
  ultimately have "distinct (map c_name rows)"
    by (auto simp: distinct_map inj_on_def)
  note cached = fold_cache [OF this, of "\<lambda>_. None", folded cache_def]
  have db: "db_checkpoint s n = map_option (\<lambda>c. or_null (c_state c)) (get_task_checkpoint_state (ct_task_id task) n q)"
    for n by (simp add: db_checkpoint_def oq wq)
  have hit: "db_checkpoint s n = Some v" if "cache n = Some v" for n v
  proof -
    from that cached [of n] obtain c where c: "tbl_find (\<lambda>c. c_name c = n) rows = Some c" "v = or_null (c_state c)"
      by (auto split: option.splits)
    from tbl_find_SomeD [OF c(1)] have cr: "c \<in> set rows" "c_name c = n" by simp_all
    then have cs: "c \<in> set (checkpoints q)" "c_task c = ct_task_id task" "c_status c = ''committed''"
      by (simp_all add: rr)
    have "find_checkpoint (ct_task_id task) n q = Some c"
      using tbl_find_key [OF keys cs(1)] cs(2) cr(2) by (simp add: find_checkpoint_def)
    then show ?thesis using cs(3) c(2) by (simp add: db get_task_checkpoint_state_def)
  qed
  then have ok: "ctx_ok s" using assms(4) wq oq by (simp add: ctx_ok_def)
  then show ?thesis using ctx_ok_view [OF ok] db wq oq by simp
qed

section \<open>Properties\<close>

text \<open>
  Property C2: completed steps are durable. Take a handler made of steps and computations on their results. If an
  execution of it returned (and then, say, the process crashed before it could report), a later execution of the
  handler in a new session of the same task, over a database that still has the checkpoints of the first,
  returns the same value, and it executes no step body and writes nothing: the database and the clocks are as
  they were.
\<close>

theorem handler_replay:
  assumes "ctx_ok s" "cx_counter s = (\<lambda>_. 0)" "quiet_prog ctx_ok (\<lambda>s. (ctx_view s, cx_counter s)) p"
    "exec_prog ctx_begin ctx_commit p s = (Inr a, s')"
    "create qn task ct fatal w2 = Inr s2" "map_of (w_queues w2) qn = Some q2" "queue_inv q2" "unfenced task q2"
    "\<And>n v. ctx_view s' n = Some v \<Longrightarrow>
       map_option (\<lambda>c. or_null (c_state c)) (get_task_checkpoint_state (ct_task_id task) n q2) = Some v"
  shows "\<exists>s2'. exec_prog ctx_begin ctx_commit p s2 = (Inr a, s2') \<and> ctx_outside s2' = ctx_outside s2 \<and>
     ctx_view s2' = ctx_view s2"
proof -
  note new = create_resumes [OF assms(5-8)]
  have "ctx_view s2 n = Some v" if "ctx_view s' n = Some v" for n v using assms(9) [OF that] new by simp
  then have "ctx_view s' \<subseteq>\<^sub>m ctx_view s2" by (auto simp: map_le_def)
  with ctx.exec_replay [OF assms(1,3,4), of s2] new assms(2) show ?thesis by fastforce
qed

text \<open>
  Property C39: what a step returned is in the database. After an execution of a handler in a context in order,
  whether it returned or threw, every checkpoint that the context knows is a committed row of the task, and
  every checkpoint that was there before still has its value.
\<close>

theorem steps_reach_database:
  assumes "ctx_ok s" "quiet_prog ctx_ok (\<lambda>s. (ctx_view s, cx_counter s)) p"
    "exec_prog ctx_begin ctx_commit p s = (r, s')"
  shows "(\<forall>n v. ctx_view s' n = Some v \<longrightarrow> (\<exists>q c. own_queue s' = Some q \<and>
       get_task_checkpoint_state (ct_task_id (cx_task s')) n q = Some c \<and> or_null (c_state c) = v)) \<and>
     (\<forall>n v. ctx_view s n = Some v \<longrightarrow> ctx_view s' n = Some v)"
proof -
  from ctx.exec_mono [OF assms] have ok: "ctx_ok s'" and mono: "ctx_view s \<subseteq>\<^sub>m ctx_view s'" by auto
  have "\<exists>q c. own_queue s' = Some q \<and> get_task_checkpoint_state (ct_task_id (cx_task s')) n q = Some c \<and>
      or_null (c_state c) = v" if "ctx_view s' n = Some v" for n v
    using that ctx_ok_view [OF ok] by (auto simp: db_checkpoint_def bind_eq_Some_conv)
  moreover have "ctx_view s' n = Some v" if "ctx_view s n = Some v" for n v
    using mono that by (metis domI map_le_def)
  ultimately show ?thesis by blast
qed

text \<open>
  A step runs its function once. Once \<open>step\<close> has returned a value in some session, a later session
  that sees its checkpoint, at the same use of the name, gets that value without calling the function it passes.
\<close>

lemma step_once:
  assumes "ctx_ok s" "quiet ctx_ok (\<lambda>s. (ctx_view s, cx_counter s)) body"
    "step n (some_result body) s = (Inr (Some v), s')"
    "ctx_ok s2" "ctx_view s' \<subseteq>\<^sub>m ctx_view s2" "cx_counter s2 n = cx_counter s n"
  shows "\<exists>s2'. step n (some_result other) s2 = (Inr (Some v), s2') \<and> ctx_outside s2' = ctx_outside s2 \<and>
     ctx_view s2' = ctx_view s2"
proof -
  let ?c = "checkpoint_name n (cx_counter s n + 1)"
  from assms(3) have m: "makeStep ctx_begin ctx_commit n Inr Inr body s = (Inr v, s')"
    by (simp add: step_makeStep some_result_Inr)
  have "ctx_view s' ?c = Some v"
  proof (cases "ctx_view s ?c")
    case None
    from ctx.step_fresh [OF assms(1) None assms(2) m] show ?thesis by simp
  next
    case (Some x)
    from ctx.step_stored [OF assms(1) Some, of Inr Inr body] m Some show ?thesis by auto
  qed
  then have "ctx_view s2 (checkpoint_name n (cx_counter s2 n + 1)) = Some v"
    using assms(5,6) by (metis domI map_le_def)
  from ctx.step_stored [OF assms(4) this, of Inr Inr other] show ?thesis
    by (auto simp: step_makeStep some_result_Inr)
qed

text \<open>
  Step names are not injective. After two steps named \<open>a\<close>, a step named \<open>a#2\<close> takes the second
  one's checkpoint: it returns that value and never calls its own function.
\<close>

lemma step_names_collide:
  assumes "ctx_ok s" "cx_counter s ''a'' = 1" "cx_counter s ''a#2'' = 0"
    "quiet ctx_ok (\<lambda>s. (ctx_view s, cx_counter s)) body"
    "step ''a'' (some_result body) s = (Inr (Some v), s')"
  shows "\<exists>s2. step ''a#2'' (some_result other) s' = (Inr (Some v), s2) \<and> ctx_outside s2 = ctx_outside s'"
proof -
  have c: "checkpoint_name ''a'' (cx_counter s ''a'' + 1) = ''a#2''"
    unfolding assms(2) by code_simp
  from assms(5) have m: "makeStep ctx_begin ctx_commit ''a'' Inr Inr body s = (Inr v, s')"
    by (simp add: step_makeStep some_result_Inr)
  have mono: "ctx_ok s'" "cx_counter s' = (cx_counter s)(''a'' := cx_counter s ''a'' + 1)"
    using ctx.step_mono [OF assms(1,4) m] by auto
  have "ctx_view s' ''a#2'' = Some v"
  proof (cases "ctx_view s ''a#2''")
    case None
    with ctx.step_fresh [OF assms(1) _ assms(4) m] c show ?thesis by simp
  next
    case (Some x)
    with ctx.step_stored [OF assms(1), of "''a''" x Inr Inr body] c m show ?thesis by auto
  qed
  moreover have "checkpoint_name ''a#2'' (cx_counter s' ''a#2'' + 1) = ''a#2''"
    using mono(2) assms(3) by (simp add: checkpoint_name_def)
  ultimately show ?thesis
    using ctx.step_stored [OF mono(1), of "''a#2''" v Inr Inr other]
    by (auto simp: step_makeStep some_result_Inr)
qed

section \<open>A concrete session\<close>

definition demo_task :: claimed_task where
  "demo_task = \<lparr>ct_run_id = 1, ct_task_id = 0, ct_task_name = ''job'', ct_attempt = 1, ct_params = JNum 1,
     ct_retry_strategy = None, ct_max_attempts = None, ct_headers = None, ct_wake_event = None,
     ct_event_payload = None\<rparr>"

definition open_session :: "qstate \<Rightarrow> exn + session" where
  "open_session q = create ''default'' demo_task 120 True (demo_world q)"

definition demo_session :: session where
  "demo_session = projr (open_session demo_claimed)"

definition demo_prog :: "(session, json) prog" where
  "demo_prog = Step ''a'' Inr Inr (ret (JNum 1)) (\<lambda>v. Step ''a'' Inr Inr (ret (JNum 2)) (\<lambda>u. Return u))"

lemma quiet_ret [simp]: "quiet ok obs (ret v)"
  by (auto simp: quiet_def)

lemma demo_prog_quiet: "quiet_prog ok obs demo_prog"
  by (simp add: demo_prog_def round_trips_def)

lemma demo_open: "open_session demo_claimed = Inr demo_session"
proof -
  have "\<not> isl (open_session demo_claimed)" by code_simp
  then show ?thesis by (cases "open_session demo_claimed") (auto simp: demo_session_def)
qed

lemma demo_session_ok: "ctx_ok demo_session" "cx_counter demo_session = (\<lambda>_. 0)" "cx_task demo_session = demo_task"
  "own_queue demo_session = Some demo_claimed"
proof -
  have "unfenced demo_task demo_claimed" by code_simp
  moreover have "map_of (w_queues (demo_world demo_claimed)) ''default'' = Some demo_claimed"
    by (simp add: demo_world_def)
  ultimately show "ctx_ok demo_session" "cx_counter demo_session = (\<lambda>_. 0)" "cx_task demo_session = demo_task"
    "own_queue demo_session = Some demo_claimed"
    using create_resumes [OF demo_open [unfolded open_session_def] _ reachable_inv [OF demo_claimed_reachable]]
    by simp_all
qed

definition demo_end :: session where
  "demo_end = snd (exec_prog ctx_begin ctx_commit demo_prog demo_session)"

definition demo_end_queue :: qstate where
  "demo_end_queue = the (own_queue demo_end)"

lemma demo_run_prog: "exec_prog ctx_begin ctx_commit demo_prog demo_session = (Inr (JNum 2), demo_end)"
proof -
  have "fst (exec_prog ctx_begin ctx_commit demo_prog demo_session) = Inr (JNum 2)" by code_simp
  then show ?thesis by (simp add: demo_end_def prod_eq_iff)
qed

lemma demo_end_facts:
  "own_queue demo_end = Some demo_end_queue" "cx_task demo_end = demo_task" "queue_inv demo_end_queue"
  "unfenced demo_task demo_end_queue"
proof -
  have "own_queue demo_end \<noteq> None" by code_simp
  then show "own_queue demo_end = Some demo_end_queue" by (auto simp: demo_end_queue_def)
  show "cx_task demo_end = demo_task" by code_simp
  show "queue_inv demo_end_queue" by code_simp
  show "unfenced demo_task demo_end_queue" by code_simp
qed

theorem handler_replay_witness:
  "\<exists>s2 s2'. open_session demo_end_queue = Inr s2 \<and>
     exec_prog ctx_begin ctx_commit demo_prog s2 = (Inr (JNum 2), s2') \<and> ctx_outside s2' = ctx_outside s2"
proof -
  have "\<not> isl (open_session demo_end_queue)" by code_simp
  then obtain s2 where s2: "open_session demo_end_queue = Inr s2" by (cases "open_session demo_end_queue") auto
  have ok: "ctx_ok demo_end"
    using ctx.exec_mono [OF demo_session_ok(1) demo_prog_quiet demo_run_prog] by simp
  have seen: "map_option (\<lambda>c. or_null (c_state c)) (get_task_checkpoint_state (ct_task_id demo_task) n demo_end_queue)
      = Some v" if "ctx_view demo_end n = Some v" for n v
    using that by (simp add: ctx_ok_view [OF ok] db_checkpoint_def demo_end_facts)
  have "map_of (w_queues (demo_world demo_end_queue)) ''default'' = Some demo_end_queue"
    by (simp add: demo_world_def)
  from handler_replay [OF demo_session_ok(1,2) demo_prog_quiet demo_run_prog s2 [unfolded open_session_def] this
      demo_end_facts(3,4) seen] s2
  show ?thesis by blast
qed

theorem steps_reach_database_witness:
  "\<exists>q c. own_queue demo_end = Some q \<and> get_task_checkpoint_state 0 ''a#2'' q = Some c \<and> or_null (c_state c) = JNum 2"
proof -
  have v: "ctx_view demo_end ''a#2'' = Some (JNum 2)" by code_simp
  have "ct_task_id (cx_task demo_end) = 0" unfolding demo_end_facts(2) by (simp add: demo_task_def)
  with steps_reach_database [OF demo_session_ok(1) demo_prog_quiet demo_run_prog] v show ?thesis by metis
qed

end
