(* ===== verification/Polling.thy ===== *)
theory Polling
  imports Main
begin

text \<open>
  The interface that the polling loops of both SDKs share: phases, the work under way, and what one step may do to
  them. Capacity and shutdown are proved here once.
\<close>

text \<open>
  Where a loop is: at its condition, awaiting a claim of \<open>n\<close> tasks, waiting for availability, waiting after the loop
  for the executions under way, or ended.
\<close>

datatype loop_phase = Polling | Claiming int | Waiting | Draining | Stopped

fun claiming :: "loop_phase \<Rightarrow> int" where
  "claiming (Claiming n) = n"
| "claiming _ = 0"

fun phase_bound :: "loop_phase \<Rightarrow> nat" where
  "phase_bound (Claiming n) = 4 + nat (max n 1)"
| "phase_bound Waiting = 3"
| "phase_bound Polling = 2"
| "phase_bound Draining = 1"
| "phase_bound Stopped = 0"

text \<open>
  What a step may do to the phase, the number of executions under way and the flag that nobody has closed the loop;
  \<open>limit\<close> is the concurrency. A claim is answered with at most the tasks asked for, or one for an empty request.
\<close>

inductive loop_move :: "int \<Rightarrow> loop_phase \<times> nat \<times> bool \<Rightarrow> loop_phase \<times> nat \<times> bool \<Rightarrow> bool" for limit where
  idle: "loop_move limit (p, l, v) (p, l, v)"
| close: "loop_move limit (p, l, v) (p, l, False)"
| full: "loop_move limit (Polling, l, True) (Waiting, l, True)"
| leave: "loop_move limit (Polling, l, False) (Draining, l, False)"
| claim: "int l + max n 1 \<le> limit \<Longrightarrow> loop_move limit (Polling, l, True) (Claiming n, l, True)"
| nothing: "loop_move limit (Claiming n, l, v) (Waiting, l, v)"
| answer: "0 < m \<Longrightarrow> int m \<le> max n 1 \<Longrightarrow> loop_move limit (Claiming n, l, v) (Polling, l + m, v)"
| wake: "loop_move limit (Waiting, l, v) (Polling, l, v)"
| settle: "loop_move limit (p, Suc l, v) (p, l, v)"
| settle_wake: "loop_move limit (Waiting, Suc l, v) (Polling, l, v)"
| stop: "loop_move limit (Draining, 0, v) (Stopped, 0, v)"

locale polling_loop =
  fixes phase :: "'k \<Rightarrow> loop_phase" and load :: "'k \<Rightarrow> nat" and live :: "'k \<Rightarrow> bool"
    and limit :: int and step :: "'k \<times> 'w \<Rightarrow> 'k \<times> 'w \<Rightarrow> bool"
  assumes moves: "step (k, w) (k', w') \<Longrightarrow> loop_move limit (phase k, load k, live k) (phase k', load k', live k')"
    and progress: "phase k \<noteq> Stopped \<Longrightarrow> \<not> live k \<Longrightarrow>
      \<exists>k' w'. step (k, w) (k', w') \<and> (phase k' \<noteq> phase k \<or> load k' \<noteq> load k)"
begin

definition within :: "'k \<Rightarrow> bool" where
  "within k \<longleftrightarrow>
     int (load k) + (case phase k of Claiming n \<Rightarrow> max n 1 | _ \<Rightarrow> 0) \<le> limit \<and>
     (phase k \<in> {Draining, Stopped} \<longrightarrow> \<not> live k) \<and> (phase k = Stopped \<longrightarrow> load k = 0)"

definition bound :: "'k \<Rightarrow> nat" where
  "bound k = phase_bound (phase k) + load k"

lemma step_within: "step (k, w) (k', w') \<Longrightarrow> within k \<Longrightarrow> within k'"
  by (drule moves, erule loop_move.cases) (auto simp: within_def split: loop_phase.splits)

lemma steps_within:
  assumes "step\<^sup>*\<^sup>* (k, w) (k', w')" "within k"
  shows "within k'"
  using assms(1)
proof (induction "(k', w')" arbitrary: k' w' rule: rtranclp_induct)
  case base
  then show ?case using assms(2) by simp
next
  case (step y)
  then show ?case using step_within by (cases y) blast
qed

lemma capacity:
  assumes "step\<^sup>*\<^sup>* (k, w) (k', w')" "within k"
  shows "int (load k') \<le> limit" "phase k' = Claiming n \<Longrightarrow> int (load k') + max n 1 \<le> limit"
  using steps_within [OF assms] by (auto simp: within_def split: loop_phase.splits)

text \<open>Once closed, every step that is not idle lowers the bound, and until the loop has ended there is one.\<close>

lemma step_bound:
  assumes "step (k, w) (k', w')" "\<not> live k"
  shows "\<not> live k' \<and> (bound k' < bound k \<or> phase k' = phase k \<and> load k' = load k)"
  using moves [OF assms(1)] assms(2) by (cases rule: loop_move.cases) (auto simp: bound_def)

lemma shutdown:
  assumes "phase k \<noteq> Stopped" "\<not> live k"
  shows "\<exists>k' w'. step (k, w) (k', w') \<and> bound k' < bound k"
proof -
  from progress [OF assms] obtain k' w' where
    s: "step (k, w) (k', w')" "phase k' \<noteq> phase k \<or> load k' \<noteq> load k" by blast
  with step_bound [OF s(1) assms(2)] show ?thesis by blast
qed

lemma drained: "within k \<Longrightarrow> phase k = Stopped \<Longrightarrow> load k = 0"
  by (simp add: within_def)

end

end
