(* ===== verification/Executor.thy ===== *)
theory Executor
  imports Context_Spec Polling
begin

text \<open>
  The worker of the TypeScript SDK: \<open>executeTask\<close> runs the handler of one claimed task and reports its outcome,
  \<open>workBatch\<close> does so for a batch, and \<open>startWorker\<close> is the polling loop, modelled as a step relation whose steps
  are the points where the loop waits.
\<close>

section \<open>Executing one task\<close>

type_synonym handler = "json \<Rightarrow> (session, json option) ts"
type_synonym client = "(session, handler) Absurd"

text \<open>
  The two texts that the runtime makes of errors, a stack and \<open>String(err)\<close>, are parameters as in \<open>failTaskRun\<close>.
  \<open>report_failure\<close> is the inner \<open>try\<close>/\<open>catch\<close> that both failure paths share.
\<close>

definition report_failure ::
    "(exn \<Rightarrow> string) \<Rightarrow> (json \<Rightarrow> string) \<Rightarrow> string \<Rightarrow> uuid \<Rightarrow> exn \<Rightarrow> (session, unit) ts" where
  "report_failure stack_of string_of queueName runID err =
     catch_ts (failTaskRun stack_of string_of queueName runID err) (\<lambda>failErr.
       if isTaskStateTerminalError failErr then ret () else throw failErr)"

definition defer_unknown ::
    "(exn \<Rightarrow> string) \<Rightarrow> (json \<Rightarrow> string) \<Rightarrow> string \<Rightarrow> uuid \<Rightarrow> (session, unit) ts" where
  "defer_unknown stack_of string_of queueName runID =
     catch_ts (bind_ts (deferClaimedRun queueName runID (uuid_text runID)) (\<lambda>_. ret ()))
       (\<lambda>deferErr. report_failure stack_of string_of queueName runID deferErr)"

definition execute :: "string \<Rightarrow> handler RegisteredTask \<Rightarrow> claimed_task \<Rightarrow> (session, unit) ts" where
  "execute queueName registration task =
     bind_ts (rg_handler registration (ct_params task)) (\<lambda>result.
       completeTaskRun queueName (ct_run_id task) result)"

text \<open>The body of the outer \<open>try\<close>.\<close>

definition attempt_task ::
    "(exn \<Rightarrow> string) \<Rightarrow> (json \<Rightarrow> string) \<Rightarrow> client \<Rightarrow> claimed_task \<Rightarrow> (session, unit) ts" where
  "attempt_task stack_of string_of this task =
     (case ab_registry this (ct_task_name task) of
        None \<Rightarrow> defer_unknown stack_of string_of (ab_queueName this) (ct_run_id task)
      | Some registration \<Rightarrow>
          if rg_queue registration \<noteq> ab_queueName this
          then throw (throw_error ''Misconfigured task (queue mismatch)'')
          else (case hk_wrapTaskExecution (ab_hooks this) of
                  Some wrap \<Rightarrow> wrap (execute (ab_queueName this) registration task)
                | None \<Rightarrow> execute (ab_queueName this) registration task))"

definition run_claimed ::
    "(exn \<Rightarrow> string) \<Rightarrow> (json \<Rightarrow> string) \<Rightarrow> client \<Rightarrow> claimed_task \<Rightarrow> (session, unit) ts" where
  "run_claimed stack_of string_of this task = (\<lambda>s.
     case catch_ts (attempt_task stack_of string_of this task) (\<lambda>err.
            if err \<in> {SuspendTask, CancelledTask, FailedTask} then ret ()
            else report_failure stack_of string_of (ab_queueName this) (ct_run_id task) err) s of
       (r, s') \<Rightarrow> (r, clearLeaseTimers s'))"

text \<open>
  \<open>executeTask\<close>: the context is made outside the \<open>try\<close>, so that an error there leaves the run to its lease.
  The world is what is left of the session.
\<close>

definition executeTask ::
    "(exn \<Rightarrow> string) \<Rightarrow> (json \<Rightarrow> string) \<Rightarrow> client \<Rightarrow> claimed_task \<Rightarrow> int \<Rightarrow> bool \<Rightarrow> (world, unit) ts" where
  "executeTask stack_of string_of this task claimTimeout fatal = (\<lambda>w.
     case create (ab_queueName this) task claimTimeout fatal w of
       Inl e \<Rightarrow> (Inl e, w)
     | Inr s \<Rightarrow>
         (case run_claimed stack_of string_of this task (scheduleLeaseTimers claimTimeout s) of
            (r, s') \<Rightarrow> (r, world.truncate s')))"

primrec each_ts :: "('a \<Rightarrow> ('s, unit) ts) \<Rightarrow> 'a list \<Rightarrow> ('s, unit) ts" where
  "each_ts f [] = ret ()"
| "each_ts f (x # xs) = bind_ts (f x) (\<lambda>_. each_ts f xs)"

definition workBatch ::
    "(exn \<Rightarrow> string) \<Rightarrow> (json \<Rightarrow> string) \<Rightarrow> client \<Rightarrow> string option \<Rightarrow> int option \<Rightarrow> int option \<Rightarrow>
     (world, unit) ts" where
  "workBatch stack_of string_of this workerId claimTimeout batchSize =
     (let timeout = (case claimTimeout of None \<Rightarrow> 120 | Some t \<Rightarrow> t)
      in bind_ts (claimTasks this (Some (case batchSize of None \<Rightarrow> 1 | Some n \<Rightarrow> n)) (Some timeout)
            (Some (case workerId of None \<Rightarrow> ''worker'' | Some n \<Rightarrow> n)))
           (each_ts (\<lambda>task. executeTask stack_of string_of this task timeout False)))"

section \<open>The polling loop\<close>

text \<open>
  The options with their defaults; \<open>default_id\<close> is the host's name with the process id. \<open>batchSize\<close> defaults to
  the concurrency.
\<close>

record worker_config =
  wc_workerId :: string
  wc_claimTimeout :: int
  wc_concurrency :: int
  wc_batchSize :: int
  wc_pollInterval :: rat
  wc_fatal :: bool

definition worker_defaults :: "string \<Rightarrow> WorkerOptions \<Rightarrow> worker_config" where
  "worker_defaults default_id options =
     (let concurrency = (case wo_concurrency options of None \<Rightarrow> 1 | Some n \<Rightarrow> n)
      in \<lparr>wc_workerId = (case wo_workerId options of None \<Rightarrow> default_id | Some i \<Rightarrow> i),
          wc_claimTimeout = (case wo_claimTimeout options of None \<Rightarrow> 120 | Some t \<Rightarrow> t),
          wc_concurrency = concurrency,
          wc_batchSize = (case wo_batchSize options of None \<Rightarrow> concurrency | Some n \<Rightarrow> n),
          wc_pollInterval = (case wo_pollInterval options of None \<Rightarrow> 1 / 4 | Some p \<Rightarrow> p),
          wc_fatal = (case wo_fatalOnLeaseTimeout options of None \<Rightarrow> True | Some b \<Rightarrow> b)\<rparr>)"

text \<open>
  The phases are those of \<open>Polling\<close>: \<open>Waiting\<close> is \<open>waitForAvailability\<close>, \<open>Draining\<close> is \<open>Promise.allSettled\<close> after the
  loop. \<open>wk_executing\<close> are the promises of the executions under way, with their tasks.
\<close>

record worker =
  wk_running :: bool
  wk_phase :: loop_phase
  wk_executing :: "claimed_task list"

definition started :: worker where
  "started = \<lparr>wk_running = True, wk_phase = Polling, wk_executing = []\<rparr>"

definition to_claim :: "worker_config \<Rightarrow> worker \<Rightarrow> int" where
  "to_claim c k = min (wc_batchSize c) (max (wc_concurrency c - int (length (wk_executing k))) 0)"

text \<open>One pass of the loop up to its next \<open>await\<close>.\<close>

definition poll :: "worker_config \<Rightarrow> worker \<Rightarrow> worker" where
  "poll c k =
     (if \<not> wk_running k then k\<lparr>wk_phase := Draining\<rparr>
      else if int (length (wk_executing k)) \<ge> wc_concurrency c then k\<lparr>wk_phase := Waiting\<rparr>
      else if to_claim c k \<le> 0 then k\<lparr>wk_phase := Waiting\<rparr>
      else k\<lparr>wk_phase := Claiming (to_claim c k)\<rparr>)"

text \<open>The claim's answer: the tasks are started and the loop goes on; no task or an error is a wait.\<close>

definition claim_answer :: "exn + claimed_task list \<Rightarrow> worker \<Rightarrow> worker" where
  "claim_answer answer k =
     (case answer of
        Inl _ \<Rightarrow> k\<lparr>wk_phase := Waiting\<rparr>
      | Inr [] \<Rightarrow> k\<lparr>wk_phase := Waiting\<rparr>
      | Inr messages \<Rightarrow> k\<lparr>wk_phase := Polling, wk_executing := wk_executing k @ messages\<rparr>)"

text \<open>An execution settles: it leaves the set, and \<open>notifyAvailability\<close> wakes a waiting loop.\<close>

definition settle :: "claimed_task \<Rightarrow> worker \<Rightarrow> worker" where
  "settle task k =
     k\<lparr>wk_executing := remove1 task (wk_executing k),
       wk_phase := (if wk_phase k = Waiting then Polling else wk_phase k)\<rparr>"

definition close_worker :: "worker \<Rightarrow> worker" where
  "close_worker k = k\<lparr>wk_running := False\<rparr>"

text \<open>
  The steps of a worker in a world. Executions and everything else that uses the database are the step \<open>act\<close>, any
  change of the world; what an execution does is \<open>executeTask\<close>.
\<close>

inductive worker_step :: "client \<Rightarrow> worker_config \<Rightarrow> worker \<times> world \<Rightarrow> worker \<times> world \<Rightarrow> bool"
  for this :: client and c :: worker_config where
  poll: "wk_phase k = Polling \<Longrightarrow> worker_step this c (k, w) (poll c k, w)"
| claim: "wk_phase k = Claiming n \<Longrightarrow>
    claimTasks this (Some n) (Some (wc_claimTimeout c)) (Some (wc_workerId c)) w = (r, w') \<Longrightarrow>
    worker_step this c (k, w) (claim_answer r k, w')"
| timer: "wk_phase k = Waiting \<Longrightarrow> worker_step this c (k, w) (k\<lparr>wk_phase := Polling\<rparr>, w)"
| settle: "task \<in> set (wk_executing k) \<Longrightarrow> worker_step this c (k, w) (settle task k, w)"
| drained: "wk_phase k = Draining \<Longrightarrow> wk_executing k = [] \<Longrightarrow>
    worker_step this c (k, w) (k\<lparr>wk_phase := Stopped\<rparr>, w)"
| close: "worker_step this c (k, w) (close_worker k, w)"
| act: "worker_step this c (k, w) (k, w')"

inductive_cases worker_step_elim: "worker_step this c (k, w) (k', w')"

lemmas worker_stepE = worker_step_elim [consumes 1, case_names poll claim timer settle drained close act]

end
