(* ===== verification/Wait_Spec.thy ===== *)
theory Wait_Spec
  imports Context_Spec
begin

text \<open>
  Properties of the operations of \<open>TaskContext\<close> that suspend a run or extend its lease: \<open>sleepUntil\<close>,
  \<open>awaitEvent\<close> and \<open>heartbeat\<close>.
\<close>

section \<open>Sleeping\<close>

lemma interval_ms [simp]: "interval_secs (of_int ms / 1000) = ms * 1000"
proof -
  have "(of_int ms / 1000 * of_int second :: rat) = of_int (ms * 1000)" by (simp add: second_def)
  then show ?thesis unfolding interval_secs_def by (metis round_of_int)
qed

lemma schedule_run_row:
  assumes "schedule_run i t q = Inr q'"
  shows "(\<exists>r \<in> set (runs q'). r_id r = i \<and> r_state r = Sleeping \<and> r_available_at r = At t) \<and>
    checkpoints q' = checkpoints q"
proof -
  from assms obtain r where r: "tbl_find (\<lambda>r. r_id r = i \<and> r_state r = Running) (runs q) = Some r"
    by (auto simp: schedule_run_def split: option.splits)
  let ?f = "\<lambda>x. x\<lparr>r_state := Sleeping, r_claimed_by := None, r_claim_expires_at := None,
    r_available_at := At t, r_wake_event := None\<rparr>"
  have "?f r \<in> set (runs q')"
    using assms r tbl_find_SomeD [OF r] by (auto simp: schedule_run_def store_updates tbl_simps)
  moreover have "checkpoints q' = checkpoints q" using assms r by (auto simp: schedule_run_def store_updates)
  ultimately show ?thesis using tbl_find_SomeD [OF r] by (intro conjI bexI [of _ "?f r"]) auto
qed

lemma schedule_after:
  assumes "scheduleRunAfter x s = (r, s')"
  obtains (fails) e where "r = Inl (DbError e)"
  | (asleep) q q' where "r = Inr ()" "own_queue s = Some q"
      "schedule_run (ct_run_id (cx_task s)) (w_db_now s + interval_secs x) q = Inr q'"
      "s' = set_queue (cx_queue s) q' s"
proof (cases "own_queue s")
  case None
  with assms have "r = Inl (DbError undefined_table)" by (simp add: scheduleRunAfter_def task_sql_eq)
  then show ?thesis by (rule fails)
next
  case (Some q)
  show ?thesis
  proof (cases "schedule_run (ct_run_id (cx_task s)) (w_db_now s + interval_secs x) q")
    case (Inl e)
    with Some assms have "r = Inl (DbError e)" by (simp add: scheduleRunAfter_def task_sql_eq void_def)
    then show ?thesis by (rule fails)
  next
    case (Inr q')
    with Some assms have "r = Inr ()" "s' = set_queue (cx_queue s) q' s"
      by (simp_all add: scheduleRunAfter_def task_sql_eq void_def)
    with Some Inr show ?thesis by (intro asleep [of q q']) simp_all
  qed
qed

text \<open>The beginning of \<open>sleepUntil\<close> and \<open>awaitEvent\<close>: the checkpoint's name and what is stored under it.\<close>

lemma name_and_lookup:
  assumes "ctx_ok s"
  shows "\<exists>s1. bind_ts (getCheckpointName n) (\<lambda>c. bind_ts (lookupCheckpoint c) (k c)) s
      = k (checkpoint_name n (cx_counter s n + 1)) (ctx_view s (checkpoint_name n (cx_counter s n + 1))) s1 \<and>
    ctx_ok s1 \<and> ctx_view s1 = ctx_view s \<and> ctx_outside s1 = ctx_outside s \<and> own_queue s1 = own_queue s \<and>
    cx_counter s1 = (cx_counter s)(n := cx_counter s n + 1)"
proof -
  let ?s = "s\<lparr>cx_counter := (cx_counter s)(n := cx_counter s n + 1)\<rparr>"
  have v: "ctx_view ?s = ctx_view s" by (rule ctx_view_same) simp_all
  have "ctx_ok ?s" using assms ctx_ok_same [of ?s s] by simp
  from lookup_view [OF this, of "checkpoint_name n (cx_counter s n + 1)"] v
  show ?thesis by (auto simp: getCheckpointName_def Let_def ctx_outside_def bind_ts_def)
qed

lemma outside_clocks:
  "ctx_outside s1 = ctx_outside s \<Longrightarrow> w_db_now s1 = w_db_now s \<and> w_js_now s1 = w_js_now s \<and>
    cx_task s1 = cx_task s \<and> cx_queue s1 = cx_queue s"
  by (simp add: ctx_outside_def)

lemma iso_nonempty: "to_iso_string d = Some stamp \<Longrightarrow> stamp \<noteq> []"
  using date_parse_to_iso_string [of d stamp] by (auto simp: date_parse_def read_year_def)

text \<open>The first half of a first sleep: the time is stored, and what remains is scheduled.\<close>

lemma sleep_stored:
  assumes "ctx_ok s" "ctx_view s (checkpoint_name n (cx_counter s n + 1)) = None"
    "sleepUntil n (Some d) s = (Inl SuspendTask, s')"
  obtains stamp s2 where "to_iso_string d = Some stamp" "w_js_now s < d" "ctx_ok s2"
    "ctx_view s2 (checkpoint_name n (cx_counter s n + 1)) = Some (JStr stamp)" "w_db_now s2 = w_db_now s"
    "cx_task s2 = cx_task s"
    "bind_ts (scheduleRunAfter (of_int (d - w_js_now s) / 1000)) (\<lambda>_. throw SuspendTask) s2
      = (Inl SuspendTask :: exn + unit, s')"
proof -
  let ?c = "checkpoint_name n (cx_counter s n + 1)"
  let ?k = "\<lambda>c state. bind_ts (if js_truthy state then ret ()
              else bind_ts (check (to_iso (Some d))) (\<lambda>stamp. persistCheckpoint c (Some (JStr stamp)))) (\<lambda>_.
     bind_ts js_now (\<lambda>now.
       case stored_date state (Some d) of
         None \<Rightarrow> ret ()
       | Some actualWakeAt \<Rightarrow>
           (let remainingMs = actualWakeAt - now
            in if remainingMs > 0
               then bind_ts (scheduleRunAfter (of_int remainingMs / 1000)) (\<lambda>_. throw SuspendTask)
               else ret ())))"
  from name_and_lookup [OF assms(1), of n ?k] assms(2) obtain s1 where
    s1: "sleepUntil n (Some d) s = ?k ?c None s1" "ctx_ok s1" "ctx_outside s1 = ctx_outside s"
    unfolding sleepUntil_def by auto
  note cl1 = outside_clocks [OF s1(3)]
  obtain stamp where stamp: "to_iso_string d = Some stamp"
    using s1(1) assms(3) by (cases "to_iso_string d") (auto simp: to_iso_def bind_ts_def)
  obtain p s2 where p: "ctx_commit n ?c (JStr stamp) s1 = (p, s2)" by (cases "ctx_commit n ?c (JStr stamp) s1")
  have run: "?k ?c None s1 = (case p of Inl e \<Rightarrow> (Inl e, s2)
    | Inr _ \<Rightarrow> if d - w_js_now s2 > 0
        then bind_ts (scheduleRunAfter (of_int (d - w_js_now s2) / 1000)) (\<lambda>_. throw SuspendTask) s2
        else (Inr (), s2))"
    using p [unfolded ctx_commit_def] stamp
    by (cases p) (simp_all add: to_iso_def bind_ts_def js_now_def stored_date_def Let_def)
  have "\<And>e. p = Inl e \<Longrightarrow> e \<noteq> SuspendTask"
    using p [unfolded ctx_commit_def] by (cases rule: persist_cases) auto
  with run s1(1) assms(3) obtain u where pr: "p = Inr u" by (cases p) auto
  note v2 = persist_view [OF s1(2) p]
  have cl2: "w_db_now s2 = w_db_now s" "w_js_now s2 = w_js_now s" "cx_task s2 = cx_task s"
    using v2 cl1 by simp_all
  have rest: "(if 0 < d - w_js_now s
      then bind_ts (scheduleRunAfter (of_int (d - w_js_now s) / 1000)) (\<lambda>_. throw SuspendTask) s2
      else (Inr (), s2)) = (Inl SuspendTask, s')"
    using assms(3) unfolding s1(1) run pr by (simp only: cl2 sum.case)
  then have fut: "0 < d - w_js_now s" by (rule contrapos_pp) simp
  have "w_js_now s < d" "ctx_ok s2" "ctx_view s2 ?c = Some (JStr stamp)" using fut v2 pr by simp_all
  from that [OF stamp this cl2(1,3) rest [unfolded if_P [OF fut]]] show ?thesis .
qed

text \<open>
  A task sleeps until the time it asked for. When \<open>sleepUntil\<close> suspends a task on its first
  execution, the wake-up time is in the future, it is stored as the step's checkpoint in the database, and the
  run sleeps until the database clock has advanced by exactly the time that remained.
\<close>

lemma sleep_suspends:
  assumes "ctx_ok s" "ctx_view s (checkpoint_name n (cx_counter s n + 1)) = None"
    "sleepUntil n (Some d) s = (Inl SuspendTask, s')"
  shows "w_js_now s < d \<and> (\<exists>stamp q. to_iso_string d = Some stamp \<and> own_queue s' = Some q \<and>
     db_checkpoint s' (checkpoint_name n (cx_counter s n + 1)) = Some (JStr stamp) \<and>
     (\<exists>r \<in> set (runs q). r_id r = ct_run_id (cx_task s) \<and> r_state r = Sleeping \<and>
        r_available_at r = At (w_db_now s + (d - w_js_now s) * 1000)))"
proof -
  let ?c = "checkpoint_name n (cx_counter s n + 1)"
  from assms obtain stamp s2 where s2: "to_iso_string d = Some stamp" "w_js_now s < d" "ctx_ok s2"
    "ctx_view s2 ?c = Some (JStr stamp)" "w_db_now s2 = w_db_now s" "cx_task s2 = cx_task s"
    and sch: "bind_ts (scheduleRunAfter (of_int (d - w_js_now s) / 1000)) (\<lambda>_. throw SuspendTask) s2
      = (Inl SuspendTask :: exn + unit, s')" by (rule sleep_stored)
  obtain g s3 where g: "scheduleRunAfter (of_int (d - w_js_now s) / 1000) s2 = (g, s3)"
    by (cases "scheduleRunAfter (of_int (d - w_js_now s) / 1000) s2")
  from g show ?thesis
  proof (cases rule: schedule_after)
    case (fails e)
    with sch g show ?thesis by (simp add: bind_ts_def)
  next
    case (asleep q q')
    have s': "s' = s3" using sch g asleep(1) by (simp add: bind_ts_def throw_def)
    have oq: "own_queue s' = Some q'" "cx_task s' = cx_task s2" using asleep(4) s' by simp_all
    note row = schedule_run_row [OF asleep(3)]
    have "db_checkpoint s' ?c = db_checkpoint s2 ?c"
      using row oq asleep(2)
      by (simp add: db_checkpoint_def get_task_checkpoint_state_def find_checkpoint_def)
    then have "db_checkpoint s' ?c = Some (JStr stamp)" using ctx_ok_view [OF s2(3)] s2(4) by metis
    then show ?thesis using s2(1,2,5,6) oq row
      by (simp only: interval_ms) auto
  qed
qed

text \<open>
  A sleep ends and does not start over. When the wake-up time \<open>d\<close> of a sleep is stored, executing the
  sleep again, with whatever new time the handler computes, returns at once if \<open>d\<close> has come; otherwise it
  suspends (or its query fails) with the rest of the time to \<open>d\<close>. No checkpoint is written.
\<close>

lemma sleep_resumes:
  assumes "ctx_ok s" "ctx_view s (checkpoint_name n (cx_counter s n + 1)) = Some (JStr stamp)"
    "to_iso_string d = Some stamp"
  shows "\<exists>s1. ctx_view s1 = ctx_view s \<and> ctx_outside s1 = ctx_outside s \<and>
     sleepUntil n wakeAt s =
       (if d \<le> w_js_now s then (Inr (), s1)
        else bind_ts (scheduleRunAfter (of_int (d - w_js_now s) / 1000)) (\<lambda>_. throw SuspendTask) s1)"
proof -
  let ?k = "\<lambda>c state. bind_ts (if js_truthy state then ret ()
              else bind_ts (check (to_iso wakeAt)) (\<lambda>stamp. persistCheckpoint c (Some (JStr stamp)))) (\<lambda>_.
     bind_ts js_now (\<lambda>now.
       case stored_date state wakeAt of
         None \<Rightarrow> ret ()
       | Some actualWakeAt \<Rightarrow>
           (let remainingMs = actualWakeAt - now
            in if remainingMs > 0
               then bind_ts (scheduleRunAfter (of_int remainingMs / 1000)) (\<lambda>_. throw SuspendTask)
               else ret ())))"
  from name_and_lookup [OF assms(1), of n ?k] assms(2) obtain s1 where
    s1: "sleepUntil n wakeAt s = ?k (checkpoint_name n (cx_counter s n + 1)) (Some (JStr stamp)) s1"
      "ctx_view s1 = ctx_view s" "ctx_outside s1 = ctx_outside s"
    unfolding sleepUntil_def by auto
  have now: "w_js_now s1 = w_js_now s" using outside_clocks [OF s1(3)] by simp
  have "stored_date (Some (JStr stamp)) wakeAt = Some d"
    using date_parse_to_iso_string [OF assms(3)] by (simp add: stored_date_def)
  with iso_nonempty [OF assms(3)] have "sleepUntil n wakeAt s =
       (if d \<le> w_js_now s then (Inr (), s1)
        else bind_ts (scheduleRunAfter (of_int (d - w_js_now s) / 1000)) (\<lambda>_. throw SuspendTask) s1)"
    unfolding s1(1) by (simp add: bind_ts_def js_now_def Let_def now)
  with s1(2,3) show ?thesis by blast
qed

section \<open>Waiting for an event\<close>

lemma awaitEvent_at:
  assumes "ctx_ok s" "c = checkpoint_name n (cx_counter s n + 1)" "n = event_step_name ev sn" "ctx_view s c = None"
  shows "\<exists>s1. awaitEvent ev sn tm s = awaitEvent_query c ev (whole_timeout tm) s1 \<and> ctx_ok s1 \<and>
    ctx_view s1 = ctx_view s \<and> ctx_outside s1 = ctx_outside s \<and> own_queue s1 = own_queue s \<and>
    cx_counter s1 = (cx_counter s)(n := cx_counter s n + 1)"
  using name_and_lookup [OF assms(1), of n "\<lambda>c cached. case cached of Some v \<Rightarrow> ret v
       | None \<Rightarrow> awaitEvent_query c ev (whole_timeout tm)"] assms(2-4)
  by (auto simp: awaitEvent_def)

text \<open>The branch of \<open>await_event\<close> for a run whose wait has timed out.\<close>

lemma await_event_resumed:
  assumes "queue_inv q" "\<not> is_blank ev" "find_run i q = Some r" "r_state r = Running" "r_wake_event r = Some ev"
    "r_event_payload r = None" "event_payload ev q = None" "find_checkpoint ti c q = None"
    "r_task r = ti" "case timeout of None \<Rightarrow> True | Some t \<Rightarrow> 0 \<le> t"
  shows "\<exists>q'. await_event now ti i c ev timeout q = Inr (\<lparr>aw_suspend = False, aw_payload = None\<rparr>, q')"
proof -
  obtain t where t: "find_task (r_task r) q = Some t" "t \<in> set (tasks q)" "t_id t = r_task r"
    using find_run_same_task [OF assms(1,3)] by blast
  have "t_state t = Running"
    using active_task(1) [OF assms(1) _ _ t(2,3)] find_runD [OF assms(3)] assms(4) by (simp add: active_def)
  moreover have "Option.bind (find_event ev (ensure_event ev q)) e_payload = None"
    using payload_ensure [of ev ev q] assms(7) by (simp add: event_payload_def)
  ultimately show ?thesis
    using assms t(1) by (auto simp: await_event_def Let_def split: option.splits)
qed

lemma query_ok:
  assumes "own_queue s = Some q" "ct_wake_event (cx_task s) \<noteq> Some ev"
    "await_event (w_db_now s) (ct_task_id (cx_task s)) (ct_run_id (cx_task s)) c ev timeout q
      = Inr (\<lparr>aw_suspend = False, aw_payload = p\<rparr>, q')"
  shows "\<exists>s'. awaitEvent_query c ev timeout s = (Inr (or_null p), s')"
  using assms
  by (simp add: awaitEvent_query_def bind_ts_def with_state_check_def catch_ts_def task_sql_eq cache_set_def)

text \<open>
  A second wait after a timeout does not wait. A run is resumed because its wait for an event timed
  out; its handler catches the \<open>TimeoutError\<close> of \<open>awaitEvent\<close> and waits for the same event again, with any timeout.
  The second \<open>awaitEvent\<close> returns \<open>null\<close> at once, although the event has not been emitted.
\<close>

lemma await_after_timeout:
  assumes "ctx_ok s" "own_queue s = Some q" "queue_inv q" "\<not> is_blank ev"
    "n = event_step_name ev None" "cx_counter s n = 0"
    "ct_wake_event (cx_task s) = Some ev" "absent (ct_event_payload (cx_task s))"
    "find_run (ct_run_id (cx_task s)) q = Some r" "r_task r = ct_task_id (cx_task s)" "r_state r = Running"
    "r_wake_event r = Some ev" "r_event_payload r = None" "event_payload ev q = None"
    "find_checkpoint (ct_task_id (cx_task s)) n q = None"
    "find_checkpoint (ct_task_id (cx_task s)) (n @ ''#2'') q = None"
  shows "\<exists>m s1 s2. awaitEvent ev None tm1 s = (Inl (TimeoutError m), s1) \<and>
     awaitEvent ev None tm2 s1 = (Inr JNull, s2)"
proof -
  have names: "checkpoint_name n (cx_counter s n + 1) = n" "checkpoint_name n 2 = n @ ''#2''"
  proof -
    have "nat_dec 2 = ''2''" by code_simp
    then show "checkpoint_name n 2 = n @ ''#2''" by (simp add: checkpoint_name_def)
  qed (simp add: assms(6) checkpoint_name_def)
  have view: "ctx_view s n = None" "ctx_view s (n @ ''#2'') = None"
    using assms(2,15,16) ctx_ok_view [OF assms(1)]
    by (simp_all add: db_checkpoint_def get_task_checkpoint_state_def)
  from awaitEvent_at [OF assms(1) names(1) [symmetric] assms(5) view(1), of tm1] obtain sa where
    sa: "awaitEvent ev None tm1 s = awaitEvent_query n ev (whole_timeout tm1) sa" "ctx_ok sa"
      "ctx_view sa = ctx_view s" "ctx_outside sa = ctx_outside s" "own_queue sa = own_queue s"
      "cx_counter sa = (cx_counter s)(n := cx_counter s n + 1)" by blast
  note ta = outside_clocks [OF sa(4)]
  define s1 where "s1 = sa\<lparr>cx_task := (cx_task sa)\<lparr>ct_wake_event := None, ct_event_payload := None\<rparr>\<rparr>"
  have first: "awaitEvent ev None tm1 s = (Inl (TimeoutError ''Timed out waiting for event''), s1)"
    using assms(7,8) ta by (simp add: sa(1) awaitEvent_query_def s1_def throw_def)
  have db1: "db_checkpoint s1 = db_checkpoint sa" by (auto simp: db_checkpoint_def s1_def fun_eq_iff)
  have "unfenced (cx_task s1) q = unfenced (cx_task sa) q"
    by (simp add: unfenced_run_def s1_def split: option.split)
  then have ok1: "ctx_ok s1"
    using sa(2,5) assms(2) db1 by (simp add: ctx_ok_def) (simp add: s1_def)
  have view1: "ctx_view s1 (n @ ''#2'') = None"
    using ctx_ok_view [OF ok1] ctx_ok_view [OF sa(2)] db1 sa(3) view(2) by simp
  have "cx_counter s1 n + 1 = 2" using sa(6) assms(6) by (simp add: s1_def)
  then have c2: "n @ ''#2'' = checkpoint_name n (cx_counter s1 n + 1)" using names(2) by (simp only:)
  from awaitEvent_at [OF ok1 c2 assms(5) view1, of tm2] obtain sb where
    sb: "awaitEvent ev None tm2 s1 = awaitEvent_query (n @ ''#2'') ev (whole_timeout tm2) sb"
      "ctx_outside sb = ctx_outside s1" "own_queue sb = own_queue s1" by blast
  have tb: "cx_task sb = (cx_task s)\<lparr>ct_wake_event := None, ct_event_payload := None\<rparr>"
    using outside_clocks [OF sb(2)] ta by (simp add: s1_def)
  have qb: "own_queue sb = Some q" using sb(3) sa(5) assms(2) by (simp add: s1_def)
  have "case whole_timeout tm2 of None \<Rightarrow> True | Some t \<Rightarrow> 0 \<le> t"
    by (auto simp: whole_timeout_def split: option.splits jsnum.splits)
  from await_event_resumed [OF assms(3,4,9,11-14,16,10) this, of "w_db_now sb"]
  obtain q' where "await_event (w_db_now sb) (ct_task_id (cx_task sb)) (ct_run_id (cx_task sb)) (n @ ''#2'') ev
      (whole_timeout tm2) q = Inr (\<lparr>aw_suspend = False, aw_payload = None\<rparr>, q')"
    using tb by auto
  from query_ok [OF qb _ this] tb sb(1) first show ?thesis by (auto simp: or_null_def)
qed


section \<open>Leases\<close>

text \<open>
  A heartbeat extends the lease and the watchdog together. After a successful \<open>heartbeat\<close> of \<open>n\<close> seconds
  the run's lease in the database ends \<open>n\<close> seconds from now, the warning timer fires at the same distance, and
  the timer that terminates the process at twice that distance (when it is enabled), never earlier.
\<close>

lemma heartbeat_extends:
  assumes "heartbeat secs s = (Inr (), s')" "l = (case secs of None \<Rightarrow> cx_claimTimeout s | Some n \<Rightarrow> n)"
  shows "0 < l \<and> cx_warn_at s' = Some (w_js_now s + l * 1000) \<and>
     cx_fatal_at s' = (if cx_fatal s then Some (w_js_now s + 2 * l * 1000) else None) \<and>
     (\<exists>q r. own_queue s' = Some q \<and> find_run (ct_run_id (cx_task s)) q = Some r \<and> r_state r = Running \<and>
        r_claim_expires_at r = Some (w_db_now s + l * second))"
proof (cases "own_queue s")
  case None
  with assms show ?thesis
    by (simp add: heartbeat_def Let_def bind_ts_def with_state_check_def catch_ts_def task_sql_eq throw_def)
next
  case (Some q)
  let ?i = "ct_run_id (cx_task s)"
  show ?thesis
  proof (cases "extend_claim (w_db_now s) ?i l q")
    case (Inl e)
    with Some assms show ?thesis
      by (simp add: heartbeat_def Let_def bind_ts_def with_state_check_def catch_ts_def task_sql_eq throw_def
          void_def)
  next
    case (Inr q')
    with Some assms have s': "s' = scheduleLeaseTimers l (set_queue (cx_queue s) q' s)"
      by (simp add: heartbeat_def Let_def bind_ts_def with_state_check_def catch_ts_def task_sql_eq void_def
          onLeaseExtended_def)
    from Inr obtain r where r: "find_run ?i q = Some r" "r_state r = Running" and l: "0 < l"
      and q': "q' = update_runs (\<lambda>x. r_id x = ?i) (\<lambda>x. x\<lparr>r_claim_expires_at := Some (w_db_now s + l * second)\<rparr>) q"
      by (auto simp: extend_claim_def split: option.splits if_splits)
    have "find_run ?i q' = Some (r\<lparr>r_claim_expires_at := Some (w_db_now s + l * second)\<rparr>)"
      using r(1) find_runD [OF r(1)] by (simp add: q' find_run_update_runs)
    then show ?thesis using l r(2) by (simp add: s') (simp add: scheduleLeaseTimers_def clearLeaseTimers_def)
  qed
qed

end
