(* ===== verification/Executor_Spec.thy ===== *)
theory Executor_Spec
  imports Executor Wait_Spec
begin

text \<open>
  Properties of the worker: what becomes of a task for each outcome of its handler, recovery after a crash, and the
  capacity and shutdown of the polling loop.
\<close>

section \<open>Reporting\<close>

lemma truncate_fields [simp]:
  "w_queues (world.truncate s) = w_queues s" "w_db_now (world.truncate s) = w_db_now s"
  "w_js_now (world.truncate s) = w_js_now s"
  by (simp_all add: world.truncate_def)

lemma clearLeaseTimers_fields [simp]:
  "w_queues (clearLeaseTimers s) = w_queues s" "w_db_now (clearLeaseTimers s) = w_db_now s"
  "w_js_now (clearLeaseTimers s) = w_js_now s" "world.truncate (clearLeaseTimers s) = world.truncate s"
  by (simp_all add: clearLeaseTimers_def world.truncate_def)

lemma state_check_eq:
  "with_state_check m s = (case m s of
     (Inl e, s') \<Rightarrow> (Inl (mapTaskStateError e), s') | (Inr a, s') \<Rightarrow> (Inr a, s'))"
  by (auto simp: with_state_check_def catch_ts_def throw_def split: prod.splits sum.splits)

lemma completeTaskRun_eq:
  "completeTaskRun n i v w = (case map_of (w_queues w) n of
     None \<Rightarrow> (Inl (DbError undefined_table), w)
   | Some q \<Rightarrow> (case complete_run (w_db_now w) i (Some (or_null v)) q of
        Inl e \<Rightarrow> (Inl (mapTaskStateError (DbError e)), w)
      | Inr q' \<Rightarrow> (Inr (), set_queue n q' w)))"
  by (auto simp: completeTaskRun_def state_check_eq sql_void_eq or_null_def mapTaskStateError_def
      undefined_table_def split: option.splits sum.splits)

lemma terminal_error_codes:
  "isTaskStateTerminalError (mapTaskStateError (DbError e)) \<longleftrightarrow> err_code e \<in> {''AB001'', ''AB002''}"
  by (simp add: isTaskStateTerminalError_def mapTaskStateError_def)

lemma report_failure_eq:
  "report_failure so st n i err w = (case map_of (w_queues w) n of
     None \<Rightarrow> (Inl (DbError undefined_table), w)
   | Some q \<Rightarrow> (case fail_run (w_db_now w) i (Some (serializeError so st err)) None q of
        Inl e \<Rightarrow> (if err_code e \<in> {''AB001'', ''AB002''} then Inr ()
                 else Inl (mapTaskStateError (DbError e)), w)
      | Inr q' \<Rightarrow> (Inr (), set_queue n q' w)))"
proof (cases "map_of (w_queues w) n")
  case None
  then show ?thesis
    by (simp add: report_failure_def failTaskRun_def state_check_eq sql_void_eq catch_ts_def
        mapTaskStateError_def undefined_table_def isTaskStateTerminalError_def throw_def)
next
  case (Some q)
  then show ?thesis
    using terminal_error_codes
    by (cases "fail_run (w_db_now w) i (Some (serializeError so st err)) None q")
      (simp_all add: report_failure_def failTaskRun_def state_check_eq sql_void_eq catch_ts_def throw_def ret_def)
qed

text \<open>A started execution of a registered task, up to its handler's end.\<close>

definition handled :: "client \<Rightarrow> claimed_task \<Rightarrow> int \<Rightarrow> bool \<Rightarrow> world \<Rightarrow> (exn + json option) \<Rightarrow> session \<Rightarrow> bool" where
  "handled this task claimTimeout fatal w r s1 \<longleftrightarrow>
     hk_wrapTaskExecution (ab_hooks this) = None \<and>
     (case ab_registry this (ct_task_name task) of
        None \<Rightarrow> False
      | Some reg \<Rightarrow> rg_queue reg = ab_queueName this \<and>
          (case create (ab_queueName this) task claimTimeout fatal w of
             Inl _ \<Rightarrow> False
           | Inr s \<Rightarrow> rg_handler reg (ct_params task) (scheduleLeaseTimers claimTimeout s) = (r, s1)))"

lemma executeTask_handled:
  assumes "handled this task ct fatal w r s1"
  shows "executeTask so st this task ct fatal w =
    (let m = (case r of Inr v \<Rightarrow> completeTaskRun (ab_queueName this) (ct_run_id task) v s1 | Inl e \<Rightarrow> (Inl e, s1))
     in case m of
          (Inr u, s') \<Rightarrow> (Inr u, world.truncate s')
        | (Inl e, s') \<Rightarrow>
            if e \<in> {SuspendTask, CancelledTask, FailedTask} then (Inr (), world.truncate s')
            else (case report_failure so st (ab_queueName this) (ct_run_id task) e s' of
                    (x, s2) \<Rightarrow> (x, world.truncate s2)))"
proof -
  from assms obtain reg s where h: "hk_wrapTaskExecution (ab_hooks this) = None"
    "ab_registry this (ct_task_name task) = Some reg" "rg_queue reg = ab_queueName this"
    "create (ab_queueName this) task ct fatal w = Inr s"
    "rg_handler reg (ct_params task) (scheduleLeaseTimers ct s) = (r, s1)"
    by (auto simp: handled_def split: option.splits sum.splits)
  have a: "attempt_task so st this task (scheduleLeaseTimers ct s) =
      (case r of Inr v \<Rightarrow> completeTaskRun (ab_queueName this) (ct_run_id task) v s1 | Inl e \<Rightarrow> (Inl e, s1))"
    by (simp add: attempt_task_def h execute_def bind_ts_def split: sum.split)
  show ?thesis
    unfolding executeTask_def run_claimed_def catch_ts_def h(4) sum.case a Let_def
    by (auto simp: ret_def split: prod.split sum.split)
qed

section \<open>What becomes of a task\<close>

lemma create_succeeds:
  assumes "map_of (w_queues w) n = Some q" "find_run (ct_run_id task) q = Some r" "r_task r = ct_task_id task"
  shows "\<exists>s. create n task ct fatal w = Inr s"
proof -
  have "\<not> isl (get_task_checkpoint_states (ct_task_id task) (ct_run_id task) q)"
    using assms(2,3) by (simp add: get_task_checkpoint_states_def)
  then show ?thesis
    using assms(1) by (cases "get_task_checkpoint_states (ct_task_id task) (ct_run_id task) q")
      (auto simp: create_def sql_rows_def sql_def)
qed

text \<open>
  A handler's result is the task's. When the handler returned while its run was still running,
  \<open>executeTask\<close> succeeds, the task is completed with exactly that value (\<open>undefined\<close> as null), its checkpoints stay
  and no other queue changes.
\<close>

lemma execute_completes:
  assumes "handled this task ct fatal w (Inr v) s1" "map_of (w_queues s1) (ab_queueName this) = Some q"
    "find_run (ct_run_id task) q = Some r" "r_state r = Running" "find_task (r_task r) q = Some t"
  shows "\<exists>w' q'. executeTask so st this task ct fatal w = (Inr (), w') \<and>
     map_of (w_queues w') (ab_queueName this) = Some q' \<and>
     get_task_result (r_task r) q'
       = Some \<lparr>tr_state = Completed, tr_result = Some (or_null v), tr_failure_reason = None\<rparr> \<and>
     checkpoints q' = checkpoints q \<and>
     (\<forall>m. m \<noteq> ab_queueName this \<longrightarrow> map_of (w_queues w') m = map_of (w_queues s1) m)"
proof -
  from complete_run_result [OF assms(3-5)] obtain q' where
    "complete_run (w_db_now s1) (ct_run_id task) (Some (or_null v)) q = Inr q'"
    "get_task_result (r_task r) q'
       = Some \<lparr>tr_state = Completed, tr_result = Some (or_null v), tr_failure_reason = None\<rparr>"
    "checkpoints q' = checkpoints q" by blast
  then show ?thesis
    by (simp add: executeTask_handled [OF assms(1)] completeTaskRun_eq assms(2))
qed

text \<open>
  A suspended task is left alone. When the handler ends with \<open>SuspendTask\<close>, \<open>CancelledTask\<close> or
  \<open>FailedTask\<close>, \<open>executeTask\<close> succeeds and neither completes nor fails the run: the database is what the handler left.
\<close>

lemma execute_suspends:
  assumes "handled this task ct fatal w (Inl e) s1" "e \<in> {SuspendTask, CancelledTask, FailedTask}"
  shows "executeTask so st this task ct fatal w = (Inr (), world.truncate s1)"
  using assms(2) by (auto simp: executeTask_handled [OF assms(1)])

text \<open>
  Property C17: every other error fails the run, once. \<open>executeTask\<close> hands the serialized error to \<open>fail_run\<close>; when the
  run was cancelled or failed by someone else meanwhile (\<open>AB001\<close>, \<open>AB002\<close>) it succeeds and changes nothing, and any
  other refusal is thrown.
\<close>

theorem execute_fails:
  assumes "handled this task ct fatal w (Inl e) s1" "e \<notin> {SuspendTask, CancelledTask, FailedTask}"
    "map_of (w_queues s1) (ab_queueName this) = Some q"
    "executeTask so st this task ct fatal w = (res, w')"
  shows "case fail_run (w_db_now s1) (ct_run_id task) (Some (serializeError so st e)) None q of
     Inr q' \<Rightarrow> res = Inr () \<and> map_of (w_queues w') (ab_queueName this) = Some q'
   | Inl err \<Rightarrow> w_queues w' = w_queues s1 \<and> (res = Inr () \<longleftrightarrow> err_code err \<in> {''AB001'', ''AB002''})"
  using assms(2-4)
  by (auto simp: executeTask_handled [OF assms(1)] report_failure_eq split: sum.splits if_splits)

text \<open>
  An unknown task costs no attempt. A worker that claimed a task it has no handler for puts the run to
  sleep for 15 to 30 seconds, without lease, and leaves the attempts, the parameters and the checkpoints of the task
  as they are, so that a worker that knows the task can still run it.
\<close>

lemma unknown_task_deferred:
  assumes "ab_registry this (ct_task_name task) = None" "create (ab_queueName this) task ct fatal w = Inr s"
    "map_of (w_queues w) (ab_queueName this) = Some q" "find_run (ct_run_id task) q = Some r"
    "r_state r = Running" "find_task (r_task r) q = Some t"
  shows "\<exists>w' q' secs. executeTask so st this task ct fatal w = (Inr (), w') \<and>
     map_of (w_queues w') (ab_queueName this) = Some q' \<and> 15 \<le> secs \<and> secs \<le> 30 \<and>
     find_run (ct_run_id task) q' = Some (r\<lparr>r_state := Sleeping, r_claimed_by := None, r_claim_expires_at := None,
       r_available_at := At (w_db_now w + secs * second), r_wake_event := None\<rparr>) \<and>
     find_task (r_task r) q' = Some (t\<lparr>t_state := Sleeping\<rparr>) \<and> checkpoints q' = checkpoints q"
proof -
  let ?n = "ab_queueName this" and ?s = "scheduleLeaseTimers ct s"
  let ?secs = "15 + deterministicJitterSeconds (uuid_text (ct_run_id task)) 15"
  have sw: "w_queues s = w_queues w" "w_db_now s = w_db_now w"
    using assms(2) by (auto simp: create_def sql_rows_def sql_def world.defs split: prod.splits sum.splits option.splits)
  from schedule_run_find [OF assms(4-6), of "w_db_now w + ?secs * second"] obtain q' where
    q': "schedule_run (ct_run_id task) (w_db_now w + ?secs * second) q = Inr q'" and post:
    "find_run (ct_run_id task) q' = Some (r\<lparr>r_state := Sleeping, r_claimed_by := None, r_claim_expires_at := None,
       r_available_at := At (w_db_now w + ?secs * second), r_wake_event := None\<rparr>)"
    "find_task (r_task r) q' = Some (t\<lparr>t_state := Sleeping\<rparr>)" "checkpoints q' = checkpoints q" by blast
  have "deferClaimedRun ?n (ct_run_id task) (uuid_text (ct_run_id task)) ?s = (Inr ?secs, set_queue ?n q' ?s)"
    using q' by (simp add: deferClaimedRun_def Let_def bind_ts_def sql_void_eq assms(3) sw
        UNKNOWN_TASK_DEFER_BASE_SECONDS_def UNKNOWN_TASK_DEFER_JITTER_SECONDS_def)
  then have "executeTask so st this task ct fatal w
      = (Inr (), world.truncate (clearLeaseTimers (set_queue ?n q' ?s)))"
    by (simp add: executeTask_def assms(1,2) run_claimed_def attempt_task_def defer_unknown_def)
  then show ?thesis
    using post jitter_bounds [of 15 "uuid_text (ct_run_id task)"]
    by (intro exI [of _ "world.truncate (clearLeaseTimers (set_queue ?n q' ?s))"] exI [of _ q'] exI [of _ ?secs])
      simp
qed

text \<open>
  Property C3: a crash costs no completed step. The first execution of a handler made of steps returned \<open>a\<close>, but its
  worker died before it reported that. When the task is later executed again under whatever run holds it then, over
  a database that still has the checkpoints, \<open>executeTask\<close> completes the task with the same \<open>a\<close>, and on the way it
  writes no checkpoint and touches no other queue.
\<close>

theorem crash_recovery:
  assumes "ctx_ok s" "cx_counter s = (\<lambda>_. 0)"
    "quiet_prog ctx_ok (\<lambda>s. (ctx_view s, cx_counter s)) (p (ct_params task))"
    "exec_prog ctx_begin ctx_commit (p (ct_params task)) s = (Inr a, s')"
    "ab_registry this (ct_task_name task) = Some reg" "rg_queue reg = ab_queueName this"
    "hk_wrapTaskExecution (ab_hooks this) = None"
    "rg_handler reg = (\<lambda>j. some_result (exec_prog ctx_begin ctx_commit (p j)))"
    "map_of (w_queues w) (ab_queueName this) = Some q" "queue_inv q" "unfenced task q"
    "find_run (ct_run_id task) q = Some r" "r_state r = Running" "r_task r = ct_task_id task"
    "\<And>n v. ctx_view s' n = Some v \<Longrightarrow>
       map_option (\<lambda>c. or_null (c_state c)) (get_task_checkpoint_state (ct_task_id task) n q) = Some v"
  shows "\<exists>w' q'. executeTask so st this task ct fatal w = (Inr (), w') \<and>
     map_of (w_queues w') (ab_queueName this) = Some q' \<and>
     get_task_result (ct_task_id task) q'
       = Some \<lparr>tr_state = Completed, tr_result = Some a, tr_failure_reason = None\<rparr> \<and>
     checkpoints q' = checkpoints q \<and>
     (\<forall>m. m \<noteq> ab_queueName this \<longrightarrow> map_of (w_queues w') m = map_of (w_queues w) m)"
proof -
  obtain t where t: "find_task (r_task r) q = Some t"
    using find_run_same_task [OF assms(10,12)] by blast
  obtain s0 where s0: "create (ab_queueName this) task ct fatal w = Inr s0"
    using create_succeeds [OF assms(9,12,14)] by blast
  note new = create_resumes [OF s0 assms(9-11)]
  let ?s = "scheduleLeaseTimers ct s0"
  have ok: "ctx_ok ?s" "ctx_view ?s = ctx_view s0"
    using new by (simp_all add: ctx_ok_same [of ?s s0] ctx_view_same [of ?s s0])
  have "ctx_view s0 n = Some v" if "ctx_view s' n = Some v" for n v using assms(15) [OF that] new by simp
  then have "ctx_view s' \<subseteq>\<^sub>m ctx_view ?s" using ok(2) by (auto simp: map_le_def)
  moreover have "cx_counter ?s = cx_counter s" using new assms(2) by simp
  ultimately obtain s2 where s2: "exec_prog ctx_begin ctx_commit (p (ct_params task)) ?s = (Inr a, s2)"
    "ctx_outside s2 = ctx_outside ?s"
    using ctx.exec_replay [OF assms(1,3,4) ok(1)] by blast
  then have "handled this task ct fatal w (Inr (Some a)) s2"
    using assms(5-8) s0 by (simp add: handled_def some_result_Inr)
  note run = executeTask_handled [OF this]
  have "map_of (w_queues s2) = map_of (w_queues w)"
    using s2(2) s0 by (auto simp: ctx_outside_def create_def sql_rows_def sql_def world.defs fun_eq_iff
        split: prod.splits sum.splits option.splits)
  moreover from complete_run_result [OF assms(12,13) t] obtain q' where
    "complete_run (w_db_now s2) (ct_run_id task) (Some a) q = Inr q'"
    "get_task_result (ct_task_id task) q' = Some \<lparr>tr_state = Completed, tr_result = Some a, tr_failure_reason = None\<rparr>"
    "checkpoints q' = checkpoints q" using assms(14) by metis
  ultimately show ?thesis
    using assms(9) by (simp add: run completeTaskRun_eq or_null_def)
qed

section \<open>The polling loop\<close>

lemma claimTasks_length:
  assumes "claimTasks this (Some n) ct wid w = (Inr rows, w')"
  shows "int (length rows) \<le> max n 1"
proof -
  obtain q q' worker timeout where "claim_task (w_db_now w) worker timeout n q = Inr (rows, q')"
    using assms(1) by (auto simp: claimTasks_def elim!: sql_Inr)
  then show ?thesis
    by (cases rule: claim_task_cases) auto
qed

interpretation ts_loop: polling_loop wk_phase "\<lambda>k. length (wk_executing k)" wk_running "wc_concurrency c"
    "worker_step this c" for this c
proof unfold_locales
  fix k k' :: worker and w w' :: world
  assume "worker_step this c (k, w) (k', w')"
  then show "loop_move (wc_concurrency c) (wk_phase k, length (wk_executing k), wk_running k)
      (wk_phase k', length (wk_executing k'), wk_running k')"
  proof (cases rule: worker_stepE)
    case poll
    then show ?thesis
      by (cases "wk_running k") (auto simp: poll_def to_claim_def intro: loop_move.intros)
  next
    case (claim n r)
    show ?thesis
    proof (cases "\<exists>x xs. r = Inr (x # xs)")
      case True
      then obtain x xs where r: "r = Inr (x # xs)" by blast
      with claim(3) claimTasks_length have "int (length (x # xs)) \<le> max n 1" by blast
      with loop_move.answer [of "length (x # xs)" n] show ?thesis
        by (simp add: claim(1,2) r claim_answer_def)
    next
      case False
      then have "claim_answer r k = k\<lparr>wk_phase := Waiting\<rparr>"
        by (auto simp: claim_answer_def split: sum.split list.split)
      then show ?thesis by (simp add: claim(1,2) loop_move.nothing)
    qed
  next
    case (settle task)
    then have "length (wk_executing k) = Suc (length (wk_executing k'))"
      by (simp add: settle_def length_remove1) (metis Suc_pred length_pos_if_in_set)
    then show ?thesis using settle by (auto simp: settle_def intro: loop_move.intros)
  qed (auto simp: close_worker_def intro: loop_move.intros)
next
  fix k :: worker and w :: world
  assume k: "wk_phase k \<noteq> Stopped" "\<not> wk_running k"
  show "\<exists>k' w'. worker_step this c (k, w) (k', w') \<and>
      (wk_phase k' \<noteq> wk_phase k \<or> length (wk_executing k') \<noteq> length (wk_executing k))"
  proof (cases "wk_phase k")
    case Polling
    with worker_step.poll [OF Polling, of this c w] k show ?thesis by (intro exI conjI) (auto simp: poll_def)
  next
    case (Claiming n)
    obtain r w' where "claimTasks this (Some n) (Some (wc_claimTimeout c)) (Some (wc_workerId c)) w = (r, w')"
      by fastforce
    moreover have "wk_phase (claim_answer r k) \<in> {Waiting, Polling}"
      by (simp add: claim_answer_def split: sum.split list.split)
    ultimately show ?thesis using worker_step.claim [OF Claiming] Claiming by fastforce
  next
    case Waiting
    with worker_step.timer [OF Waiting, of this c w] show ?thesis by (intro exI conjI) auto
  next
    case Draining
    show ?thesis
    proof (cases "wk_executing k")
      case Nil
      with worker_step.drained [OF Draining Nil, of this c w] Draining show ?thesis by (intro exI conjI) auto
    next
      case (Cons task ts)
      with worker_step.settle [of task k this c w] show ?thesis by (intro exI conjI) (auto simp: settle_def)
    qed
  qed (use k in simp)
qed

lemma started_within: "0 \<le> wc_concurrency c \<Longrightarrow> ts_loop.within c started"
  by (simp add: ts_loop.within_def started_def)

text \<open>A claim never asks for more than the batch size.\<close>

lemma claiming_batch:
  assumes "(worker_step this c)\<^sup>*\<^sup>* (started, w) (k, w')" "wk_phase k = Claiming n"
  shows "0 < n \<and> n \<le> wc_batchSize c"
  using assms
proof (induction "(k, w')" arbitrary: k w' n rule: rtranclp_induct)
  case base
  then show ?case by (simp add: started_def)
next
  case (step y)
  obtain k0 w0 where y: "y = (k0, w0)" by (cases y)
  from step.hyps(2) [unfolded y] show ?case
    using step.hyps(3) [OF y] step.prems
    by (cases rule: worker_stepE)
      (auto simp: poll_def to_claim_def claim_answer_def settle_def close_worker_def
        split: if_splits sum.splits list.splits)
qed

text \<open>
  Property C16: a worker never exceeds its concurrency. However claims, executions, timers, a close and other uses
  of the database interleave, a started worker has at most \<open>concurrency\<close> tasks in execution, even when the
  answer of a claim under way arrives, and a claim never asks for more than the batch size.
\<close>

theorem worker_capacity:
  assumes "(worker_step this c)\<^sup>*\<^sup>* (started, w) (k, w')" "0 \<le> wc_concurrency c"
  shows "int (length (wk_executing k)) \<le> wc_concurrency c \<and>
     (\<forall>n. wk_phase k = Claiming n \<longrightarrow>
        int (length (wk_executing k)) + n \<le> wc_concurrency c \<and> 0 < n \<and> n \<le> wc_batchSize c)"
  using ts_loop.capacity [OF assms(1) started_within [OF assms(2)]] claiming_batch [OF assms(1)]
  by fastforce

text \<open>How many steps of its own a closed worker still has.\<close>

definition closing_bound :: "worker \<Rightarrow> nat" where
  "closing_bound k = phase_bound (wk_phase k) + length (wk_executing k)"

text \<open>
  Property C18: \<open>close\<close> shuts a worker down and loses no claimed task. Once it is closed, every step that changes the
  worker brings it nearer to its end, so that only a bounded number of them is left; as long as it has not ended some
  such step is possible; and when it has ended, no execution is under way, not even of tasks that a claim under
  way at the time of the call still handed out.
\<close>

theorem worker_shutdown:
  assumes "(worker_step this c)\<^sup>*\<^sup>* (started, w0) (k, w)" "0 \<le> wc_concurrency c" "\<not> wk_running k"
  shows "(\<forall>k' w'. worker_step this c (k, w) (k', w') \<longrightarrow> \<not> wk_running k' \<and>
       (closing_bound k' < closing_bound k \<or>
        wk_phase k' = wk_phase k \<and> length (wk_executing k') = length (wk_executing k))) \<and>
     (wk_phase k \<noteq> Stopped \<longrightarrow>
       (\<exists>k' w'. worker_step this c (k, w) (k', w') \<and> closing_bound k' < closing_bound k)) \<and>
     (wk_phase k = Stopped \<longrightarrow> wk_executing k = [])"
  using ts_loop.step_bound [of this c k w] ts_loop.shutdown [of k this c w] assms(3)
    ts_loop.drained [OF ts_loop.steps_within [OF assms(1) started_within [OF assms(2)]]]
  by (simp add: closing_bound_def ts_loop.bound_def)

section \<open>A concrete worker\<close>

definition demo_app :: "(json \<Rightarrow> (session, json) prog) \<Rightarrow> client" where
  "demo_app p = \<lparr>ab_queueName = ''default'', ab_defaultMaxAttempts = Fin 5,
     ab_registry = [''job'' \<mapsto> \<lparr>rg_name = ''job'', rg_queue = ''default'', rg_defaultMaxAttempts = None,
       rg_defaultCancellation = None, rg_handler = (\<lambda>j. some_result (exec_prog ctx_begin ctx_commit (p j)))\<rparr>],
     ab_hooks = no_hooks, ab_ownedPool = False\<rparr>"

definition demo_reg :: "(json \<Rightarrow> (session, json) prog) \<Rightarrow> handler RegisteredTask" where
  "demo_reg p = the (ab_registry (demo_app p) ''job'')"

lemma demo_app_fields [simp]:
  "ab_queueName (demo_app p) = ''default''" "ab_registry (demo_app p) ''job'' = Some (demo_reg p)"
  "rg_queue (demo_reg p) = ''default''" "hk_wrapTaskExecution (ab_hooks (demo_app p)) = None"
  "rg_handler (demo_reg p) = (\<lambda>j. some_result (exec_prog ctx_begin ctx_commit (p j)))"
  by (simp_all add: demo_app_def demo_reg_def no_hooks_def)

lemma demo_task_fields [simp]:
  "ct_task_name demo_task = ''job''" "ct_run_id demo_task = 1" "ct_task_id demo_task = 0"
  "ct_params demo_task = JNum 1"
  by (simp_all add: demo_task_def)

lemma demo_world_queue [simp]: "map_of (w_queues (demo_world q)) ''default'' = Some q"
  by (simp add: demo_world_def)

lemma demo_create: "create ''default'' demo_task 120 True (demo_world demo_claimed) = Inr demo_session"
  using demo_open by (simp add: open_session_def)

lemma demo_handled:
  "handled (demo_app p) demo_task 120 True (demo_world demo_claimed) r s1 \<longleftrightarrow>
     some_result (exec_prog ctx_begin ctx_commit (p (JNum 1))) (scheduleLeaseTimers 120 demo_session) = (r, s1)"
  by (simp add: handled_def demo_create)

definition demo_final :: "(json \<Rightarrow> (session, json) prog) \<Rightarrow> session" where
  "demo_final p = snd (some_result (exec_prog ctx_begin ctx_commit (p (JNum 1))) (scheduleLeaseTimers 120 demo_session))"

lemma demo_ends:
  "fst (some_result (exec_prog ctx_begin ctx_commit (p (JNum 1))) (scheduleLeaseTimers 120 demo_session)) = r \<Longrightarrow>
    handled (demo_app p) demo_task 120 True (demo_world demo_claimed) r (demo_final p)"
  by (auto simp: demo_handled demo_final_def prod_eq_iff)

lemma demo_run_claimed: "\<exists>r. find_run 1 demo_claimed = Some r \<and> r_state r = Running \<and> r_task r = 0"
  "\<exists>t. find_task 0 demo_claimed = Some t"
proof -
  have "map_option (\<lambda>r. (r_state r, r_task r)) (find_run 1 demo_claimed) = Some (Running, 0)"
    "find_task 0 demo_claimed \<noteq> None" by code_simp+
  then show "\<exists>r. find_run 1 demo_claimed = Some r \<and> r_state r = Running \<and> r_task r = 0"
    "\<exists>t. find_task 0 demo_claimed = Some t" by auto
qed

theorem execute_fails_witness:
  "\<exists>w' q'. executeTask (\<lambda>_. []) (\<lambda>_. []) (demo_app (\<lambda>_. Throw (throw_error ''no''))) demo_task 120 True
       (demo_world demo_claimed) = (Inr (), w') \<and> map_of (w_queues w') ''default'' = Some q' \<and>
     map_option t_attempts (find_task 0 q') = Some 2"
proof -
  let ?e = "throw_error ''no''"
  let ?p = "\<lambda>_ :: json. Throw ?e :: (session, json) prog"
  let ?m = "executeTask (\<lambda>_. []) (\<lambda>_. []) (demo_app ?p) demo_task 120 True (demo_world demo_claimed)"
  have "fst (some_result (exec_prog ctx_begin ctx_commit (Throw ?e)) (scheduleLeaseTimers 120 demo_session))
      = Inl ?e" by code_simp
  note h = demo_ends [of ?p, OF this]
  have e: "?e \<notin> {SuspendTask, CancelledTask, FailedTask}" by (simp add: throw_error_def)
  have "(case map_of (w_queues (demo_final ?p)) ''default'' of None \<Rightarrow> False
      | Some q \<Rightarrow> (case fail_run (w_db_now (demo_final ?p)) 1 (Some (serializeError (\<lambda>_. []) (\<lambda>_. []) ?e)) None q of
          Inl _ \<Rightarrow> False | Inr q' \<Rightarrow> map_option t_attempts (find_task 0 q') = Some 2))" by code_simp
  then obtain q q' where q: "map_of (w_queues (demo_final ?p)) ''default'' = Some q"
    "fail_run (w_db_now (demo_final ?p)) 1 (Some (serializeError (\<lambda>_. []) (\<lambda>_. []) ?e)) None q = Inr q'"
    "map_option t_attempts (find_task 0 q') = Some 2"
    by (auto split: option.splits sum.splits)
  obtain res w' where m: "?m = (res, w')" by (cases ?m)
  from execute_fails [OF h e _ m] q m show ?thesis by simp
qed

theorem worker_capacity_witness:
  "\<exists>k task w'. (worker_step (demo_app (\<lambda>_. demo_prog)) (worker_defaults ''w'' \<lparr>wo_workerId = None, wo_claimTimeout = None,
       wo_batchSize = None, wo_concurrency = None, wo_pollInterval = None, wo_fatalOnLeaseTimeout = None\<rparr>))\<^sup>*\<^sup>*
       (started, demo_world demo_keyed) (k, w') \<and>
     wk_executing k = [task] \<and> ct_task_id task = 2 \<and> int (length (wk_executing k)) \<le> 1"
proof -
  let ?c = "worker_defaults ''w'' \<lparr>wo_workerId = None, wo_claimTimeout = None,
       wo_batchSize = None, wo_concurrency = None, wo_pollInterval = None, wo_fatalOnLeaseTimeout = None\<rparr>"
  let ?app = "demo_app (\<lambda>_. demo_prog)" and ?w = "demo_world demo_keyed"
  have c: "wc_concurrency ?c = 1" "wc_batchSize ?c = 1" "wc_claimTimeout ?c = 120" "wc_workerId ?c = ''w''"
    by (simp_all add: worker_defaults_def)
  have p: "poll ?c started = started\<lparr>wk_phase := Claiming 1\<rparr>"
    by (simp add: poll_def to_claim_def started_def c)
  let ?k = "started\<lparr>wk_phase := Claiming 1\<rparr>"
  let ?m = "claimTasks ?app (Some 1) (Some 120) (Some ''w'') ?w"
  have "(case fst ?m of Inr rows \<Rightarrow> map ct_task_id rows = [2] | Inl _ \<Rightarrow> False)" by code_simp
  then obtain task w' where m: "?m = (Inr [task], w')" "ct_task_id task = 2"
    by (cases ?m) (auto split: sum.splits)
  have "worker_step ?app ?c (started, ?w) (?k, ?w)"
    using worker_step.poll [of started ?app ?c ?w] p by (simp add: started_def)
  moreover have "worker_step ?app ?c (?k, ?w) (claim_answer (Inr [task]) ?k, w')"
    using worker_step.claim [of ?k 1 ?app ?c ?w] m c by simp
  ultimately have steps: "(worker_step ?app ?c)\<^sup>*\<^sup>* (started, ?w) (claim_answer (Inr [task]) ?k, w')"
    by (meson converse_rtranclp_into_rtranclp r_into_rtranclp)
  from worker_capacity [OF steps] have "int (length (wk_executing (claim_answer (Inr [task]) ?k))) \<le> 1"
    using c by simp
  then show ?thesis
    using steps m(2) by (intro exI [of _ "claim_answer (Inr [task]) ?k"] exI) (auto simp: claim_answer_def started_def)
qed

theorem worker_shutdown_witness:
  "\<exists>k w'. worker_step (demo_app (\<lambda>_. demo_prog)) (worker_defaults ''w'' \<lparr>wo_workerId = None, wo_claimTimeout = None,
       wo_batchSize = None, wo_concurrency = None, wo_pollInterval = None, wo_fatalOnLeaseTimeout = None\<rparr>)
       (close_worker started, demo_world demo_keyed) (k, w') \<and> closing_bound k < closing_bound (close_worker started)"
proof -
  let ?c = "worker_defaults ''w'' \<lparr>wo_workerId = None, wo_claimTimeout = None,
       wo_batchSize = None, wo_concurrency = None, wo_pollInterval = None, wo_fatalOnLeaseTimeout = None\<rparr>"
  have "wc_concurrency ?c = 1" by (simp add: worker_defaults_def)
  moreover have "(worker_step (demo_app (\<lambda>_. demo_prog)) ?c)\<^sup>*\<^sup>* (started, demo_world demo_keyed)
      (close_worker started, demo_world demo_keyed)"
    by (rule r_into_rtranclp) (rule worker_step.close)
  ultimately show ?thesis
    using worker_shutdown [of "demo_app (\<lambda>_. demo_prog)" ?c "demo_world demo_keyed" "close_worker started"
        "demo_world demo_keyed"] by (simp add: close_worker_def started_def)
qed

text \<open>After the lease of the first worker has expired another one claims the task, as attempt 2 under run 2.\<close>

definition demo_lost :: qstate where
  "demo_lost = queue_after (claim_task 200000000 ''v'' 120 1 demo_end_queue)"

definition demo_retry :: claimed_task where
  "demo_retry = (case claim_task 200000000 ''v'' 120 1 demo_end_queue of Inr (row # _, _) \<Rightarrow> row | _ \<Rightarrow> demo_task)"

lemma demo_lost_row: "ct_run_id demo_retry = 2" "ct_task_id demo_retry = 0" "ct_task_name demo_retry = ''job''"
  by code_simp+

lemma demo_lost_run: "map_option (\<lambda>r. (r_state r, r_task r)) (find_run 2 demo_lost) = Some (Running, 0)"
  by code_simp

lemma demo_lost_checkpoints: "checkpoints demo_lost = checkpoints demo_end_queue"
  by code_simp

lemma demo_lost_unfenced: "unfenced demo_retry demo_lost"
  by code_simp

lemma demo_lost_inv: "queue_inv demo_lost"
proof (cases "claim_task 200000000 ''v'' 120 1 demo_end_queue")
  case (Inl e)
  then show ?thesis
    by (simp add: demo_lost_def queue_after_def) code_simp
next
  case (Inr x)
  then show ?thesis
    using claim_task_inv [of demo_end_queue 200000000 "''v''" 120 1 "fst x" "snd x"] demo_end_facts(3)
    by (cases x) (simp add: demo_lost_def queue_after_def)
qed

lemmas demo_lost_facts = demo_lost_inv demo_lost_unfenced demo_lost_checkpoints demo_lost_row demo_lost_run

theorem crash_recovery_witness:
  "\<exists>w' q'. executeTask (\<lambda>_. []) (\<lambda>_. []) (demo_app (\<lambda>_. demo_prog)) demo_retry 120 True (demo_world demo_lost)
       = (Inr (), w') \<and> map_of (w_queues w') ''default'' = Some q' \<and>
     get_task_result 0 q' = Some \<lparr>tr_state = Completed, tr_result = Some (JNum 2), tr_failure_reason = None\<rparr> \<and>
     checkpoints q' = checkpoints demo_end_queue"
proof -
  have ok: "ctx_ok demo_end"
    using ctx.exec_mono [OF demo_session_ok(1) demo_prog_quiet demo_run_prog] by simp
  have seen: "map_option (\<lambda>c. or_null (c_state c)) (get_task_checkpoint_state 0 n demo_lost) = Some v"
    if "ctx_view demo_end n = Some v" for n v
    using that demo_lost_facts(3)
    by (simp add: ctx_ok_view [OF ok] db_checkpoint_def demo_end_facts get_task_checkpoint_state_def find_checkpoint_def)
  obtain r where r: "find_run 2 demo_lost = Some r" "r_state r = Running" "r_task r = 0"
    using demo_lost_facts(7) by auto
  let ?app = "demo_app (\<lambda>_. demo_prog)"
  from crash_recovery [OF demo_session_ok(1,2), of "\<lambda>_. demo_prog" demo_retry "JNum 2" demo_end ?app
      "demo_reg (\<lambda>_. demo_prog)" "demo_world demo_lost" demo_lost r "\<lambda>_. []" "\<lambda>_. []" 120 True]
  show ?thesis
    using demo_prog_quiet demo_run_prog demo_lost_facts r seen by auto
qed

end
