(* ===== verification/Effect_Types.thy ===== *)
theory Effect_Types
  imports Client
begin

text \<open>
  The data of the Effect SDK (\<open>sdks/effect/src\<close>) and its pure functions: durations, the options of \<open>Task.ts\<close> and the
  JSON that \<open>Absurd.ts\<close> makes of them, stored statuses, failures. Effects are the state functions of
  \<open>Client_Types\<close>; a failed one carries what \<open>Cause.squash\<close> gives of its cause. Schemas are parameters: an encoder
  and a decoder that may fail.
\<close>

section \<open>Durations\<close>

text \<open>A \<open>Duration\<close> is its number of milliseconds, which may be infinite. \<open>Math.ceil\<close> keeps infinities.\<close>

type_synonym duration = jsnum

fun num_scale :: "rat \<Rightarrow> jsnum \<Rightarrow> jsnum" where
  "num_scale c (Fin x) = Fin (c * x)"
| "num_scale c PosInf = PosInf"
| "num_scale c NegInf = NegInf"
| "num_scale c NotANumber = NotANumber"

fun num_ceil :: "jsnum \<Rightarrow> jsnum" where
  "num_ceil (Fin x) = Fin (of_int \<lceil>x\<rceil>)"
| "num_ceil x = x"

definition seconds :: "duration option \<Rightarrow> jsnum option" where
  "seconds input = map_option (num_scale (1 / 1000)) input"

definition wholeSeconds :: "duration option \<Rightarrow> jsnum option" where
  "wholeSeconds input = map_option num_ceil (seconds input)"

section \<open>Task options\<close>

datatype Retry =
    Retry_None
  | Retry_Fixed duration
  | Retry_Exponential duration "jsnum option" "duration option"

record Cancellation =
  ec_maxDuration :: "duration option"
  ec_maxDelay :: "duration option"

record TaskSpawnOptions =
  es_maxAttempts :: "jsnum option"
  es_retry :: "Retry option"
  es_headers :: "json option"
  es_cancellation :: "Cancellation option"
  es_idempotencyKey :: "string option"

record RoutedSpawnOptions = TaskSpawnOptions +
  es_queue :: string

definition or_zero :: "jsnum option \<Rightarrow> jsnum" where
  "or_zero n = (case n of None \<Rightarrow> Fin 0 | Some x \<Rightarrow> x)"

definition retryToJson :: "Retry option \<Rightarrow> json option" where
  "retryToJson retry =
     (case retry of
        None \<Rightarrow> None
      | Some Retry_None \<Rightarrow> Some (JObj [(''kind'', JStr ''none'')])
      | Some (Retry_Fixed delay) \<Rightarrow>
          Some (JObj [(''kind'', JStr ''fixed''), (''base_seconds'', json_of_num (or_zero (seconds (Some delay))))])
      | Some (Retry_Exponential base factor maxDelay) \<Rightarrow>
          Some (JObj ([(''kind'', JStr ''exponential''),
                       (''base_seconds'', json_of_num (or_zero (seconds (Some base))))] @
                      num_field ''factor'' factor @
                      num_field ''max_seconds'' (map_option (\<lambda>d. or_zero (seconds (Some d))) maxDelay))))"

definition cancellationToJson :: "Cancellation option \<Rightarrow> json option" where
  "cancellationToJson cancellation =
     (case cancellation of
        None \<Rightarrow> None
      | Some c \<Rightarrow>
          (let maxDuration = wholeSeconds (ec_maxDuration c); maxDelay = wholeSeconds (ec_maxDelay c)
           in if maxDuration = None \<and> maxDelay = None then None
              else Some (JObj (num_field ''max_duration'' maxDuration @ num_field ''max_delay'' maxDelay))))"

definition defaultMaxAttempts :: jsnum where
  "defaultMaxAttempts = Fin 5"

definition spawnOptionsToJson :: "RoutedSpawnOptions \<Rightarrow> json" where
  "spawnOptionsToJson options =
     JObj ((''max_attempts'', json_of_num (case es_maxAttempts options of None \<Rightarrow> defaultMaxAttempts | Some m \<Rightarrow> m)) #
           opt_field ''headers'' (es_headers options) @
           opt_field ''retry_strategy'' (retryToJson (es_retry options)) @
           opt_field ''cancellation'' (cancellationToJson (es_cancellation options)) @
           opt_field ''idempotency_key'' (map_option JStr (es_idempotencyKey options)))"

section \<open>The interface of task stores\<close>

datatype StoredTaskStatus =
    St_NotFound
  | St_Pending
  | St_Running
  | St_Sleeping
  | St_Completed json
  | St_Failed json
  | St_Cancelled

record SpawnRequest =
  rq_name :: string
  rq_payload :: json
  rq_options :: RoutedSpawnOptions

record 'id StatusRequest =
  st_id :: 'id
  st_name :: string
  st_queue :: string

record ('s, 'id) TaskStore =
  store_spawn :: "SpawnRequest \<Rightarrow> ('s, 'id) ts"
  store_status :: "'id StatusRequest \<Rightarrow> ('s, StoredTaskStatus) ts"

definition TaskStoreError :: "string \<Rightarrow> string \<Rightarrow> json \<Rightarrow> exn \<Rightarrow> exn" where
  "TaskStoreError operation taskName taskId reason =
     TaggedError ''TaskStoreError''
       [(''operation'', JStr operation), (''taskName'', JStr taskName), (''taskId'', taskId)] reason"

definition statusFromRow :: "result_row option \<Rightarrow> StoredTaskStatus" where
  "statusFromRow row =
     (case row of
        None \<Rightarrow> St_NotFound
      | Some r \<Rightarrow>
          (case tr_state r of
             Pending \<Rightarrow> St_Pending
           | Running \<Rightarrow> St_Running
           | Sleeping \<Rightarrow> St_Sleeping
           | Completed \<Rightarrow> St_Completed (or_null (tr_result r))
           | Failed \<Rightarrow> St_Failed (or_null (tr_failure_reason r))
           | Cancelled \<Rightarrow> St_Cancelled))"

section \<open>Failures\<close>

text \<open>The stack and \<open>String(failure)\<close> are texts of the runtime.\<close>

definition serializeFailure :: "(exn \<Rightarrow> string option) \<Rightarrow> (json \<Rightarrow> string) \<Rightarrow> exn \<Rightarrow> json" where
  "serializeFailure stack_of string_of failure =
     (case failure of
        Thrown j \<Rightarrow> JObj [(''message'', JStr (string_of j))]
      | _ \<Rightarrow> JObj [(''name'', JStr (error_name failure)), (''message'', JStr (error_message failure)),
                   (''stack'', or_null (map_option JStr (stack_of failure)))])"

definition pgErrorCode :: "exn \<Rightarrow> string option" where
  "pgErrorCode err = (case err of DbError e \<Rightarrow> Some (err_code e) | _ \<Rightarrow> None)"

definition isTerminalTaskError :: "exn \<Rightarrow> bool" where
  "isTerminalTaskError err \<longleftrightarrow> pgErrorCode err = Some ''AB001'' \<or> pgErrorCode err = Some ''AB002''"

text \<open>\<open>Effect.catchTag("SqlError", \<dots>)\<close>: other errors have no code and pass.\<close>

definition ignoreTerminalTaskError :: "('s, unit) ts \<Rightarrow> ('s, unit) ts" where
  "ignoreTerminalTaskError effect =
     catch_ts effect (\<lambda>err. if isTerminalTaskError err then ret () else throw err)"

text \<open>\<open>Effect.mapError\<close>.\<close>

definition map_error :: "(exn \<Rightarrow> exn) \<Rightarrow> ('s, 'a) ts \<Rightarrow> ('s, 'a) ts" where
  "map_error f m = (\<lambda>s. case m s of (Inl e, s') \<Rightarrow> (Inl (f e), s') | (Inr a, s') \<Rightarrow> (Inr a, s'))"

lemma map_error_simps [simp]:
  "m s = (Inl e, s') \<Longrightarrow> map_error f m s = (Inl (f e), s')"
  "m s = (Inr a, s') \<Longrightarrow> map_error f m s = (Inr a, s')"
  by (simp_all add: map_error_def)

lemma map_error_Inr: "map_error f m s = (Inr a, s') \<longleftrightarrow> m s = (Inr a, s')"
  by (auto simp: map_error_def split: prod.splits sum.splits)

section \<open>Deterministic jitter\<close>

text \<open>The same hash as the TypeScript SDK's, written a second time in \<open>Absurd.ts\<close> and in the workflow engine.\<close>

definition eff_deterministicJitterSeconds :: "string \<Rightarrow> int \<Rightarrow> int" where
  "eff_deterministicJitterSeconds seed maxSeconds = \<bar>foldl hash_step 2166136261 seed\<bar> mod (maxSeconds + 1)"

lemma jitter_same: "0 \<le> m \<Longrightarrow> eff_deterministicJitterSeconds seed m = deterministicJitterSeconds seed m"
  by (auto simp: eff_deterministicJitterSeconds_def deterministicJitterSeconds_def)

end
