(* ===== verification/Effect_Sql.thy ===== *)
theory Effect_Sql
  imports Effect_Types
begin

text \<open>
  \<open>sdks/effect/src/internal/AbsurdSql.ts\<close>: the SQL boundary of the Effect SDK. Every operation is a query of the
  store's functions and tables with its row schema; a row that does not match the schema is a \<open>SchemaError\<close>, raised
  after the query has run.
\<close>

section \<open>Rows\<close>

record ClaimedRow =
  cr_run_id :: uuid
  cr_task_id :: uuid
  cr_attempt :: int
  cr_task_name :: string
  cr_params :: json
  cr_headers :: "json option"

record ExecutionTaskRow =
  xt_task_id :: uuid
  xt_last_attempt_run :: "uuid option"
  xt_state :: task_state

definition SchemaError :: exn where
  "SchemaError = JsError ''SchemaError'' ''Expected value of the row schema''"

text \<open>\<open>headers\<close> is null or an object.\<close>

definition decode_claimed :: "claimed_task \<Rightarrow> exn + ClaimedRow" where
  "decode_claimed row =
     bind_result (case ct_headers row of
         None \<Rightarrow> Inr None
       | Some JNull \<Rightarrow> Inr None
       | Some (JObj kvs) \<Rightarrow> Inr (Some (JObj kvs))
       | Some _ \<Rightarrow> Inl SchemaError) (\<lambda>hs.
     Inr \<lparr>cr_run_id = ct_run_id row, cr_task_id = ct_task_id row, cr_attempt = ct_attempt row,
          cr_task_name = ct_task_name row, cr_params = ct_params row, cr_headers = hs\<rparr>)"

primrec decode_all :: "('a \<Rightarrow> exn + 'b) \<Rightarrow> 'a list \<Rightarrow> exn + 'b list" where
  "decode_all f [] = Inr []"
| "decode_all f (x # xs) = bind_result (f x) (\<lambda>y. bind_result (decode_all f xs) (\<lambda>ys. Inr (y # ys)))"

text \<open>The name of a queue's table: \<open>[A-Za-z0-9_]+\<close>, at most 57 characters.\<close>

definition word_char :: "char \<Rightarrow> bool" where
  "word_char c \<longleftrightarrow> (let n = of_char c :: nat
     in (65 \<le> n \<and> n \<le> 90) \<or> (97 \<le> n \<and> n \<le> 122) \<or> (48 \<le> n \<and> n \<le> 57) \<or> n = 95)"

definition quoteQueueTable :: "string \<Rightarrow> string \<Rightarrow> exn + string" where
  "quoteQueueTable prefix queue =
     (if queue = [] \<or> \<not> list_all word_char queue \<or> 57 < length queue
      then Inl (throw_error ''Invalid Absurd queue name.'')
      else Inr (CHR 0x22 # ''absurd'' @ CHR 0x22 # CHR ''.'' # CHR 0x22 # prefix @ queue @ [CHR 0x22]))"

section \<open>Stored functions\<close>

definition store_spawnTask :: "string \<Rightarrow> string \<Rightarrow> json \<Rightarrow> json \<Rightarrow> ('w world_scheme, uuid) ts" where
  "store_spawnTask queue taskName payload options =
     bind_ts (sql queue (\<lambda>now. spawn_task now taskName (Some payload) (Some options))) (\<lambda>row. ret (s_task row))"

definition store_claimTasks :: "string \<Rightarrow> string \<Rightarrow> int \<Rightarrow> int \<Rightarrow> ('w world_scheme, ClaimedRow list) ts" where
  "store_claimTasks queue workerId claimTimeoutSeconds batchSize =
     bind_ts (sql queue (\<lambda>now. claim_task now workerId claimTimeoutSeconds batchSize))
       (\<lambda>rows. check (decode_all decode_claimed rows))"

definition store_claimTask :: "string \<Rightarrow> string \<Rightarrow> int \<Rightarrow> ('w world_scheme, ClaimedRow option) ts" where
  "store_claimTask queue workerId claimTimeoutSeconds =
     bind_ts (store_claimTasks queue workerId claimTimeoutSeconds 1)
       (\<lambda>rows. ret (case rows of [] \<Rightarrow> None | row # _ \<Rightarrow> Some row))"

definition store_extendClaim :: "string \<Rightarrow> uuid \<Rightarrow> int \<Rightarrow> ('w world_scheme, unit) ts" where
  "store_extendClaim queue runId secs = sql_void queue (\<lambda>now. extend_claim now runId secs)"

definition store_completeRun :: "string \<Rightarrow> uuid \<Rightarrow> json \<Rightarrow> ('w world_scheme, unit) ts" where
  "store_completeRun queue runId result = sql_void queue (\<lambda>now. complete_run now runId (Some result))"

definition store_failRun :: "string \<Rightarrow> uuid \<Rightarrow> json \<Rightarrow> ('w world_scheme, unit) ts" where
  "store_failRun queue runId reason = sql_void queue (\<lambda>now. fail_run now runId (Some reason) None)"

definition store_scheduleRunInSeconds :: "string \<Rightarrow> uuid \<Rightarrow> int \<Rightarrow> ('w world_scheme, unit) ts" where
  "store_scheduleRunInSeconds queue runId secs = sql_void queue (\<lambda>now. schedule_run runId (now + secs * second))"

definition store_emitEvent :: "string \<Rightarrow> string \<Rightarrow> json \<Rightarrow> ('w world_scheme, unit) ts" where
  "store_emitEvent queue eventName payload = sql_void queue (\<lambda>now. emit_event now eventName (Some payload))"

definition store_cancelTask :: "string \<Rightarrow> uuid \<Rightarrow> ('w world_scheme, unit) ts" where
  "store_cancelTask queue taskId = sql_void queue (\<lambda>now. cancel_task now taskId)"

definition store_awaitEvent ::
    "string \<Rightarrow> uuid \<Rightarrow> uuid \<Rightarrow> string \<Rightarrow> string \<Rightarrow> int option \<Rightarrow> ('w world_scheme, bool) ts" where
  "store_awaitEvent queue taskId runId checkpointName eventName timeoutSeconds =
     bind_ts (sql queue (\<lambda>now. await_event now taskId runId checkpointName eventName timeoutSeconds))
       (\<lambda>row. ret (aw_suspend row))"

definition store_checkpointState :: "string \<Rightarrow> uuid \<Rightarrow> string \<Rightarrow> ('w world_scheme, json option) ts" where
  "store_checkpointState queue taskId checkpointName =
     sql_rows queue (\<lambda>q. Inr (map_option (\<lambda>c. or_null (c_state c)) (get_task_checkpoint_state taskId checkpointName q)))"

definition store_setCheckpointState ::
    "string \<Rightarrow> uuid \<Rightarrow> string \<Rightarrow> json \<Rightarrow> uuid \<Rightarrow> int option \<Rightarrow> ('w world_scheme, unit) ts" where
  "store_setCheckpointState queue taskId checkpointName v ownerRunId claimTimeoutSeconds =
     sql_void queue (\<lambda>now. set_task_checkpoint_state now taskId checkpointName (Some v) ownerRunId claimTimeoutSeconds)"

definition store_taskResult :: "string \<Rightarrow> uuid \<Rightarrow> ('w world_scheme, result_row option) ts" where
  "store_taskResult queue taskId = sql_rows queue (\<lambda>q. Inr (get_task_result taskId q))"

section \<open>Reads of the queue's tables\<close>

text \<open>
  The task of an execution id: in a partitioned queue through the table of idempotency keys, otherwise by the key
  column of the tasks.
\<close>

definition task_by_key :: "string \<Rightarrow> qstate \<Rightarrow> task_row option" where
  "task_by_key key q =
     (case q_mode q of
        Partitioned \<Rightarrow> Option.bind (map_of (idempotency q) key) (\<lambda>i. find_task i q)
      | Unpartitioned \<Rightarrow> tbl_find (\<lambda>t. t_idempotency_key t = Some key) (tasks q))"

definition execution_row :: "task_row \<Rightarrow> ExecutionTaskRow" where
  "execution_row t = \<lparr>xt_task_id = t_id t, xt_last_attempt_run = t_last_attempt_run t, xt_state = t_state t\<rparr>"

definition store_taskByExecutionId :: "string \<Rightarrow> string \<Rightarrow> ('w world_scheme, ExecutionTaskRow option) ts" where
  "store_taskByExecutionId queue executionId =
     bind_ts (check (quoteQueueTable ''t_'' queue)) (\<lambda>_.
       sql_rows queue (\<lambda>q. Inr (map_option execution_row (task_by_key executionId q))))"

definition store_executionIdForTask :: "string \<Rightarrow> uuid \<Rightarrow> ('w world_scheme, string option) ts" where
  "store_executionIdForTask queue taskId =
     bind_ts (check (quoteQueueTable ''t_'' queue)) (\<lambda>_.
       sql_rows queue (\<lambda>q. Inr (Option.bind (find_task taskId q) t_idempotency_key)))"

definition store_currentWakeEvent :: "string \<Rightarrow> uuid \<Rightarrow> ('w world_scheme, string option) ts" where
  "store_currentWakeEvent queue runId =
     bind_ts (check (quoteQueueTable ''r_'' queue)) (\<lambda>_.
       sql_rows queue (\<lambda>q. Inr (Option.bind (find_run runId q)
         (\<lambda>r. if r_state r = Sleeping then r_wake_event r else None))))"

definition store_eventPayload :: "string \<Rightarrow> string \<Rightarrow> ('w world_scheme, json option) ts" where
  "store_eventPayload queue eventName =
     bind_ts (check (quoteQueueTable ''e_'' queue)) (\<lambda>_.
       sql_rows queue (\<lambda>q. Inr (Option.bind (find_event eventName q) e_payload)))"

section \<open>Queries as functions of the world\<close>

lemma sql_rows_eq:
  "sql_rows n f w = (case map_of (w_queues w) n of
     None \<Rightarrow> (Inl (DbError undefined_table), w)
   | Some q \<Rightarrow> (case f q of Inl e \<Rightarrow> (Inl (DbError e), w) | Inr a \<Rightarrow> (Inr a, set_queue n q w)))"
  by (auto simp: sql_rows_def sql_def split: option.splits sum.splits)

lemma sql_eq:
  "sql n f w = (case map_of (w_queues w) n of
     None \<Rightarrow> (Inl (DbError undefined_table), w)
   | Some q \<Rightarrow> (case f (w_db_now w) q of Inl e \<Rightarrow> (Inl (DbError e), w) | Inr (a, q') \<Rightarrow> (Inr a, set_queue n q' w)))"
  by (simp add: sql_def)

text \<open>What a query may change: nothing but its queue, and that only by what the query does.\<close>

definition same_db :: "'w world_scheme \<Rightarrow> 'v world_scheme \<Rightarrow> bool" where
  "same_db w w' \<longleftrightarrow> map_of (w_queues w') = map_of (w_queues w) \<and> w_db_now w' = w_db_now w \<and> w_js_now w' = w_js_now w"

lemma same_db_refl [simp]: "same_db w w"
  by (simp add: same_db_def)

lemma same_db_trans: "same_db a b \<Longrightarrow> same_db b c \<Longrightarrow> same_db a c"
  by (simp add: same_db_def)

lemma same_db_set_queue: "map_of (w_queues w) n = Some q \<Longrightarrow> same_db w (set_queue n q w)"
  by (auto simp: same_db_def fun_eq_iff)

lemma sql_rows_same: "sql_rows n f w = (r, w') \<Longrightarrow> same_db w w'"
  by (auto simp: sql_rows_eq same_db_set_queue split: option.splits sum.splits)

end
