(* ===== verification/Effect_Task.thy ===== *)
theory Effect_Task
  imports Effect_Types
begin

text \<open>
  \<open>sdks/effect/src/Task.ts\<close>: typed task definitions over a task store, and the interface \<open>task_store\<close> that both
  stores of the SDK meet, the one on PostgreSQL and the one in memory for tests.
\<close>

section \<open>Definitions\<close>

text \<open>
  What \<open>Task.make\<close> is given. Its schemas are: the payload's constructor from the caller's input, the JSON codec of
  the payload and the JSON codec of the success value.
\<close>

record ('i, 'p, 'a) Definition =
  td_name :: string
  td_queue :: string
  td_construct :: "'i \<Rightarrow> exn + 'p"
  td_encodePayload :: "'p \<Rightarrow> exn + json"
  td_decodePayload :: "json \<Rightarrow> exn + 'p"
  td_encodeSuccess :: "'a \<Rightarrow> exn + json"
  td_decodeSuccess :: "json \<Rightarrow> exn + 'a"
  td_idempotencyKey :: "('p \<Rightarrow> string) option"
  td_maxAttempts :: "jsnum option"
  td_cancellation :: "Cancellation option"

datatype 'a Status =
    Ts_NotFound
  | Ts_Pending
  | Ts_Running
  | Ts_Sleeping
  | Ts_Completed 'a
  | Ts_Failed json
  | Ts_Cancelled

definition TaskPayloadEncodeError :: "string \<Rightarrow> exn \<Rightarrow> exn" where
  "TaskPayloadEncodeError taskName reason =
     TaggedError ''TaskPayloadEncodeError'' [(''taskName'', JStr taskName)] reason"

definition TaskPayloadDecodeError :: "string \<Rightarrow> exn \<Rightarrow> exn" where
  "TaskPayloadDecodeError taskName reason =
     TaggedError ''TaskPayloadDecodeError'' [(''taskName'', JStr taskName)] reason"

definition TaskSuccessEncodeError :: "string \<Rightarrow> exn \<Rightarrow> exn" where
  "TaskSuccessEncodeError taskName reason =
     TaggedError ''TaskSuccessEncodeError'' [(''taskName'', JStr taskName)] reason"

definition TaskSuccessDecodeError :: "string \<Rightarrow> json \<Rightarrow> exn \<Rightarrow> exn" where
  "TaskSuccessDecodeError taskName taskId reason =
     TaggedError ''TaskSuccessDecodeError'' [(''taskName'', JStr taskName), (''taskId'', taskId)] reason"

definition decodeStatus :: "string \<Rightarrow> json \<Rightarrow> (json \<Rightarrow> exn + 'a) \<Rightarrow> StoredTaskStatus \<Rightarrow> exn + 'a Status" where
  "decodeStatus name taskId decode stored =
     (case stored of
        St_Completed v \<Rightarrow> (case decode v of
            Inl e \<Rightarrow> Inl (TaskSuccessDecodeError name taskId e) | Inr a \<Rightarrow> Inr (Ts_Completed a))
      | St_NotFound \<Rightarrow> Inr Ts_NotFound
      | St_Pending \<Rightarrow> Inr Ts_Pending
      | St_Running \<Rightarrow> Inr Ts_Running
      | St_Sleeping \<Rightarrow> Inr Ts_Sleeping
      | St_Failed j \<Rightarrow> Inr (Ts_Failed j)
      | St_Cancelled \<Rightarrow> Inr Ts_Cancelled)"

text \<open>
  The options of one spawn over the definition's: an explicit key wins over the one computed from the payload.
\<close>

definition task_key :: "('i, 'p, 'a) Definition \<Rightarrow> 'p \<Rightarrow> TaskSpawnOptions \<Rightarrow> string option" where
  "task_key def payload options =
     (case es_idempotencyKey options of Some k \<Rightarrow> Some k | None \<Rightarrow> map_option (\<lambda>f. f payload) (td_idempotencyKey def))"

definition routedOptions :: "('i, 'p, 'a) Definition \<Rightarrow> 'p \<Rightarrow> TaskSpawnOptions \<Rightarrow> RoutedSpawnOptions" where
  "routedOptions def payload options =
     \<lparr>es_maxAttempts = (case es_maxAttempts options of Some m \<Rightarrow> Some m | None \<Rightarrow> td_maxAttempts def),
      es_retry = es_retry options, es_headers = es_headers options,
      es_cancellation = (case es_cancellation options of Some c \<Rightarrow> Some c | None \<Rightarrow> td_cancellation def),
      es_idempotencyKey = task_key def payload options,
      es_queue = td_queue def\<rparr>"

definition task_spawn ::
    "('i, 'p, 'a) Definition \<Rightarrow> ('s, 'id) TaskStore \<Rightarrow> 'i \<Rightarrow> TaskSpawnOptions \<Rightarrow> ('s, 'id) ts" where
  "task_spawn def store input options =
     bind_ts (map_error (TaskPayloadEncodeError (td_name def)) (check (td_construct def input))) (\<lambda>payload.
     bind_ts (map_error (TaskPayloadEncodeError (td_name def)) (check (td_encodePayload def payload))) (\<lambda>encoded.
       store_spawn store \<lparr>rq_name = td_name def, rq_payload = encoded,
         rq_options = routedOptions def payload options\<rparr>))"

text \<open>\<open>show_id\<close> is the text of an id in an error.\<close>

definition task_status ::
    "('i, 'p, 'a) Definition \<Rightarrow> ('s, 'id) TaskStore \<Rightarrow> ('id \<Rightarrow> string) \<Rightarrow> 'id \<Rightarrow> ('s, 'a Status) ts" where
  "task_status def store show_id taskId =
     bind_ts (store_status store \<lparr>st_id = taskId, st_name = td_name def, st_queue = td_queue def\<rparr>) (\<lambda>stored.
       check (decodeStatus (td_name def) (JStr (show_id taskId)) (td_decodeSuccess def) stored))"

text \<open>A handler: name and queue of its task, and the execution on JSON.\<close>

record 's AnyHandler =
  ah_name :: string
  ah_queue :: string
  ah_execute :: "json \<Rightarrow> ('s, json) ts"

definition task_handler :: "('i, 'p, 'a) Definition \<Rightarrow> ('p \<Rightarrow> ('s, 'a) ts) \<Rightarrow> 's AnyHandler" where
  "task_handler def execute =
     \<lparr>ah_name = td_name def, ah_queue = td_queue def,
      ah_execute = (\<lambda>payload.
        bind_ts (map_error (TaskPayloadDecodeError (td_name def)) (check (td_decodePayload def payload))) (\<lambda>decoded.
        bind_ts (execute decoded) (\<lambda>v.
          map_error (TaskSuccessEncodeError (td_name def)) (check (td_encodeSuccess def v)))))\<rparr>"

section \<open>The interface of a task store\<close>

text \<open>
  \<open>inv\<close> holds of every state of the store, \<open>others s s'\<close> is what may happen between two calls, \<open>known s queue i\<close> that
  the store has the task. A spawned task stays known and its status is found; a key means the same task for as long
  as the store keeps it.
\<close>

locale task_store =
  fixes store :: "('s, 'id) TaskStore"
    and inv :: "'s \<Rightarrow> bool"
    and others :: "'s \<Rightarrow> 's \<Rightarrow> bool"
    and known :: "'s \<Rightarrow> string \<Rightarrow> 'id \<Rightarrow> bool"
  assumes spawns: "inv s \<Longrightarrow> store_spawn store r s = (Inr i, s') \<Longrightarrow> inv s' \<and> known s' (es_queue (rq_options r)) i"
    and stays: "inv s \<Longrightarrow> others s s' \<Longrightarrow> inv s' \<and> (known s q i \<longrightarrow> known s' q i)"
    and found: "inv s \<Longrightarrow> known s (st_queue sr) (st_id sr) \<Longrightarrow>
      \<exists>st s'. store_status store sr s = (Inr st, s') \<and> st \<noteq> St_NotFound"
    and keyed: "inv s \<Longrightarrow> store_spawn store r s = (Inr i, s1) \<Longrightarrow> others s1 s2 \<Longrightarrow>
      rq_name r2 = rq_name r \<Longrightarrow> es_queue (rq_options r2) = es_queue (rq_options r) \<Longrightarrow>
      es_idempotencyKey (rq_options r) = Some k \<Longrightarrow> es_idempotencyKey (rq_options r2) = Some k \<Longrightarrow>
      store_spawn store r2 s2 = (Inr j, s3) \<Longrightarrow> j = i"
begin

lemma spawn_cases:
  assumes "task_spawn def store input options s = (Inr i, s')"
  obtains payload encoded where "td_construct def input = Inr payload" "td_encodePayload def payload = Inr encoded"
    "store_spawn store \<lparr>rq_name = td_name def, rq_payload = encoded,
       rq_options = routedOptions def payload options\<rparr> s = (Inr i, s')"
  using assms
  by (cases "td_construct def input"; cases "td_encodePayload def (projr (td_construct def input))")
    (auto simp: task_spawn_def bind_ts_def map_error_def)

text \<open>A spawned task is found, whatever happens in between: its status is never \<open>NotFound\<close>.\<close>

lemma status_found:
  assumes "inv s" "task_spawn def store input options s = (Inr i, s1)" "others s1 s2"
  shows "\<exists>r s3. task_status def store show_id i s2 = (r, s3) \<and> r \<noteq> Inr Ts_NotFound \<and>
    (\<forall>e. r = Inl e \<longrightarrow> (\<exists>v x. td_decodeSuccess def v = Inl x \<and>
       e = TaskSuccessDecodeError (td_name def) (JStr (show_id i)) x))"
  using assms(2)
proof (rule spawn_cases)
  fix payload encoded
  assume sp: "store_spawn store \<lparr>rq_name = td_name def, rq_payload = encoded,
       rq_options = routedOptions def payload options\<rparr> s = (Inr i, s1)"
  have "inv s2 \<and> known s2 (td_queue def) i"
    using spawns [OF assms(1) sp] stays [OF _ assms(3)] by (simp add: routedOptions_def)
  with found [of s2 "\<lparr>st_id = i, st_name = td_name def, st_queue = td_queue def\<rparr>"]
  obtain st s3 where st: "store_status store \<lparr>st_id = i, st_name = td_name def, st_queue = td_queue def\<rparr> s2
      = (Inr st, s3)" "st \<noteq> St_NotFound" by auto
  then show ?thesis
    by (auto simp: task_status_def decodeStatus_def split: StoredTaskStatus.splits sum.splits)
qed

text \<open>Two spawns of one task whose payloads have the same key are one task.\<close>

lemma spawn_once:
  assumes "inv s" "task_spawn def store input options s = (Inr i, s1)" "others s1 s2"
    "task_spawn def store input2 options2 s2 = (Inr j, s3)"
    "td_construct def input = Inr p" "td_construct def input2 = Inr p2"
    "task_key def p options = Some k" "task_key def p2 options2 = Some k"
  shows "j = i"
  using assms(2)
proof (rule spawn_cases)
  fix payload encoded
  assume 1: "td_construct def input = Inr payload"
    "store_spawn store \<lparr>rq_name = td_name def, rq_payload = encoded,
       rq_options = routedOptions def payload options\<rparr> s = (Inr i, s1)"
  show ?thesis
    using assms(4)
  proof (rule spawn_cases)
    fix payload2 encoded2
    assume 2: "td_construct def input2 = Inr payload2"
      "store_spawn store \<lparr>rq_name = td_name def, rq_payload = encoded2,
         rq_options = routedOptions def payload2 options2\<rparr> s2 = (Inr j, s3)"
    show ?thesis
      using keyed [OF assms(1) 1(2) assms(3) _ _ _ _ 2(2)] 1(1) 2(1) assms(5-8)
      by (simp add: routedOptions_def)
  qed
qed

end

end
