(* ===== verification/Effect_Store.thy ===== *)
theory Effect_Store
  imports Effect_Sql Effect_Task
begin

text \<open>
  The task store on PostgreSQL, \<open>makeContext\<close> of \<open>sdks/effect/src/Absurd.ts\<close>, as an instance of the interface
  \<open>task_store\<close>.
\<close>

section \<open>The store\<close>

text \<open>\<open>findOne\<close> without a row would be a \<open>NoSuchElementError\<close>; \<open>spawn_task\<close> returns a row or raises.\<close>

definition absurd_spawn :: "SpawnRequest \<Rightarrow> ('w world_scheme, uuid) ts" where
  "absurd_spawn request =
     map_error (TaskStoreError ''spawn'' (rq_name request) JNull)
       (store_spawnTask (es_queue (rq_options request)) (rq_name request) (rq_payload request)
          (spawnOptionsToJson (rq_options request)))"

definition absurd_status :: "uuid StatusRequest \<Rightarrow> ('w world_scheme, StoredTaskStatus) ts" where
  "absurd_status request =
     bind_ts (map_error (TaskStoreError ''status'' (st_name request) (JStr (uuid_text (st_id request))))
       (store_taskResult (st_queue request) (st_id request))) (\<lambda>row. ret (statusFromRow row))"

definition absurd_store :: "('w world_scheme, uuid) TaskStore" where
  "absurd_store = \<lparr>store_spawn = absurd_spawn, store_status = absurd_status\<rparr>"

section \<open>The contract\<close>

text \<open>
  Every queue is one that calls of the stored functions produce; between two calls other processes call them on any
  queue and create queues.
\<close>

definition world_inv :: "'w world_scheme \<Rightarrow> bool" where
  "world_inv w \<longleftrightarrow> (\<forall>n q. map_of (w_queues w) n = Some q \<longrightarrow> reachable (q_mode q) q)"

definition db_others :: "'w world_scheme \<Rightarrow> 'w world_scheme \<Rightarrow> bool" where
  "db_others w w' \<longleftrightarrow>
     (\<forall>n q. map_of (w_queues w) n = Some q \<longrightarrow> (\<exists>q'. map_of (w_queues w') n = Some q' \<and> queue_step\<^sup>*\<^sup>* q q')) \<and>
     (\<forall>n q. map_of (w_queues w) n = None \<longrightarrow> map_of (w_queues w') n = Some q \<longrightarrow> reachable (q_mode q) q)"

definition db_known :: "'w world_scheme \<Rightarrow> string \<Rightarrow> uuid \<Rightarrow> bool" where
  "db_known w n i \<longleftrightarrow> (\<exists>q t. map_of (w_queues w) n = Some q \<and> find_task i q = Some t)"

lemma db_others_refl [simp]: "db_others w w"
  by (auto simp: db_others_def)

lemma db_othersD:
  "db_others w w' \<Longrightarrow> map_of (w_queues w) n = Some q \<Longrightarrow>
    \<exists>q'. map_of (w_queues w') n = Some q' \<and> queue_step\<^sup>*\<^sup>* q q'"
  by (simp add: db_others_def)

lemma world_inv_set: "world_inv w \<Longrightarrow> reachable (q_mode q) q \<Longrightarrow> world_inv (set_queue n q w)"
  by (simp add: world_inv_def)

lemma reachable_self: "reachable mode q \<Longrightarrow> reachable (q_mode q) q"
  by (simp add: reachable_mode)

lemma step_reachable:
  assumes "reachable (q_mode q) q" "queue_step\<^sup>*\<^sup>* q q'"
  shows "reachable (q_mode q') q'"
  using reachable_steps [OF assms(2,1)] by (rule reachable_self)

text \<open>What the options say to \<open>spawn_task\<close>.\<close>

lemma spawnOptionsToJson_get:
  "json_get ''idempotency_key'' (spawnOptionsToJson o2) = map_option JStr (es_idempotencyKey o2)"
  "json_get ''headers'' (spawnOptionsToJson o2) = es_headers o2"
  by (simp_all add: spawnOptionsToJson_def map_add_def split: option.splits)

lemma spawnOptionsToJson_key:
  "read_spawn_options (Some (spawnOptionsToJson o2)) = Inr cols \<Longrightarrow> sc_idempotency_key cols = es_idempotencyKey o2"
  "read_spawn_options (Some (spawnOptionsToJson o2)) = Inr cols \<Longrightarrow> sc_headers cols = es_headers o2"
  by (auto simp: read_spawn_options_def bind_result_Inr spawnOptionsToJson_get Let_def split: if_splits option.splits)

lemma absurd_spawn_Inr:
  assumes "absurd_spawn r w = (Inr i, w')"
  obtains q q' row where "map_of (w_queues w) (es_queue (rq_options r)) = Some q"
    "spawn_task (w_db_now w) (rq_name r) (Some (rq_payload r)) (Some (spawnOptionsToJson (rq_options r))) q = Inr (row, q')"
    "i = s_task row" "w' = set_queue (es_queue (rq_options r)) q' w"
  using assms
  by (auto simp: absurd_spawn_def map_error_Inr store_spawnTask_def sql_eq bind_ts_def
      split: option.splits sum.splits prod.splits)

lemma spawn_task_known:
  assumes "spawn_task now n p opts q = Inr (row, q')" "queue_inv q"
  shows "\<exists>t. find_task (s_task row) q' = Some t"
  using assms(1)
proof (cases rule: spawn_task_cases)
  case (existing cols t k)
  then have "t \<in> set (tasks q)"
    by (auto dest: tbl_find_SomeD simp: find_task_def)
  then show ?thesis using existing
    by (cases "find_task (t_id t) q'") (auto simp: find_task_def tbl_simps)
next
  case (created cols xs)
  then show ?thesis by (cases "find_task (uuids q) q'") (auto simp: find_task_def tbl_simps insert_task_def)
qed

lemma spawn_again:
  assumes "reachable (q_mode q) q" "spawn_task now n p opts q = Inr (row, q1)" "queue_step\<^sup>*\<^sup>* q1 q2"
    "read_spawn_options opts = Inr cols" "sc_idempotency_key cols = Some k"
    "spawn_task now2 n2 p2 opts2 q2 = Inr (row2, q3)"
    "read_spawn_options opts2 = Inr cols2" "sc_idempotency_key cols2 = Some k"
  shows "s_task row2 = s_task row"
proof -
  have r1: "reachable (q_mode q) q1" using assms(1,2) by (blast intro: reachable.step queue_step.spawn)
  have k: "key_task k q2 = Some (s_task row)"
    using key_task_evolves spawn_task_key [OF reachable_inv [OF assms(1)] assms(2,4,5)]
      queue_steps_evolve [OF assms(3) reachable_inv [OF r1]] by blast
  have "\<not> is_blank n2" using assms(6) by (auto simp: spawn_task_def Let_def)
  moreover have "\<forall>t \<in> set (tasks q2). t_last_attempt_run t \<noteq> None"
    using reachable_bounded [OF reachable_steps [OF assms(3) r1]] by blast
  ultimately obtain row3 where "spawn_task now2 n2 p2 opts2 q2 = Inr (row3, q2\<lparr>uuids := Suc (Suc (uuids q2))\<rparr>)"
    "s_task row3 = s_task row"
    using spawn_task_existing [OF k _ _ assms(7,8), of n2 now2 p2] by blast
  then show ?thesis using assms(6) by simp
qed

lemma spawn_task_options:
  "spawn_task now n p opts q = Inr (row, q') \<Longrightarrow> \<exists>cols. read_spawn_options opts = Inr cols"
  by (auto simp: spawn_task_def Let_def bind_result_Inr split: if_splits)

interpretation pg: task_store "absurd_store :: ('w world_scheme, uuid) TaskStore" world_inv db_others db_known
proof unfold_locales
  fix s s' :: "'w world_scheme" and r :: SpawnRequest and i
  assume inv: "world_inv s" and sp: "store_spawn absurd_store r s = (Inr i, s')"
  from sp have "absurd_spawn r s = (Inr i, s')" by (simp add: absurd_store_def)
  then show "world_inv s' \<and> db_known s' (es_queue (rq_options r)) i"
  proof (rule absurd_spawn_Inr)
    fix q q' row
    assume *: "map_of (w_queues s) (es_queue (rq_options r)) = Some q" "i = s_task row"
      "spawn_task (w_db_now s) (rq_name r) (Some (rq_payload r)) (Some (spawnOptionsToJson (rq_options r))) q = Inr (row, q')"
      "s' = set_queue (es_queue (rq_options r)) q' s"
    have rq: "reachable (q_mode q) q" using inv *(1) by (simp add: world_inv_def)
    have "queue_step\<^sup>*\<^sup>* q q'" by (rule r_into_rtranclp) (rule queue_step.spawn [OF *(3)])
    from step_reachable [OF rq this] show ?thesis
      using world_inv_set [OF inv] spawn_task_known [OF *(3) reachable_inv [OF rq]] by (auto simp: *(2,4) db_known_def)
  qed
next
  fix s s' :: "'w world_scheme" and n :: string and i :: uuid
  assume inv: "world_inv s" and st: "db_others s s'"
  have "reachable (q_mode q') q'" if "map_of (w_queues s') m = Some q'" for m q'
  proof (cases "map_of (w_queues s) m")
    case None
    then show ?thesis using st that by (auto simp: db_others_def)
  next
    case (Some q)
    then show ?thesis using st that inv step_reachable by (fastforce simp: db_others_def world_inv_def)
  qed
  moreover have "db_known s' n i" if "db_known s n i"
  proof -
    from that obtain q t where q: "map_of (w_queues s) n = Some q" "find_task i q = Some t" by (auto simp: db_known_def)
    then obtain q' where q': "map_of (w_queues s') n = Some q'" "queue_step\<^sup>*\<^sup>* q q'"
      using st unfolding db_others_def by blast
    have "queue_inv q" using inv q(1) reachable_inv by (auto simp: world_inv_def)
    then show ?thesis
      using evolves_find_task [OF _ q(2)] queue_steps_evolve [OF q'(2)] q'(1) by (auto simp: db_known_def)
  qed
  ultimately show "world_inv s' \<and> (db_known s n i \<longrightarrow> db_known s' n i)" by (simp add: world_inv_def)
next
  fix s :: "'w world_scheme" and sr :: "uuid StatusRequest"
  assume "db_known s (st_queue sr) (st_id sr)"
  then show "\<exists>st s'. store_status absurd_store sr s = (Inr st, s') \<and> st \<noteq> St_NotFound"
    by (auto simp: db_known_def absurd_store_def absurd_status_def store_taskResult_def sql_rows_eq bind_ts_def
        map_error_def get_task_result_def statusFromRow_def split: task_state.splits)
next
  fix s s1 s2 s3 :: "'w world_scheme" and r r2 :: SpawnRequest and i j :: uuid and k :: string
  assume inv: "world_inv s" and sp: "store_spawn absurd_store r s = (Inr i, s1)" and st: "db_others s1 s2"
    and sp2: "store_spawn absurd_store r2 s2 = (Inr j, s3)"
    and eq: "es_queue (rq_options r2) = es_queue (rq_options r)"
    and k: "es_idempotencyKey (rq_options r) = Some k" "es_idempotencyKey (rq_options r2) = Some k"
  let ?n = "es_queue (rq_options r)"
  from sp obtain q q1 row where 1: "map_of (w_queues s) ?n = Some q" "i = s_task row" "s1 = set_queue ?n q1 s"
    "spawn_task (w_db_now s) (rq_name r) (Some (rq_payload r)) (Some (spawnOptionsToJson (rq_options r))) q = Inr (row, q1)"
    by (auto simp: absurd_store_def elim!: absurd_spawn_Inr)
  from sp2 eq obtain q2 q3 row2 where 2: "map_of (w_queues s2) ?n = Some q2" "j = s_task row2"
    "spawn_task (w_db_now s2) (rq_name r2) (Some (rq_payload r2)) (Some (spawnOptionsToJson (rq_options r2))) q2
      = Inr (row2, q3)"
    by (auto simp: absurd_store_def elim!: absurd_spawn_Inr)
  have steps: "queue_step\<^sup>*\<^sup>* q1 q2" using st 2(1) unfolding 1(3) db_others_def by (auto split: if_splits)
  have "reachable (q_mode q) q" using inv 1(1) by (simp add: world_inv_def)
  moreover obtain cols cols2 where
    "read_spawn_options (Some (spawnOptionsToJson (rq_options r))) = Inr cols"
    "read_spawn_options (Some (spawnOptionsToJson (rq_options r2))) = Inr cols2"
    using spawn_task_options [OF 1(4)] spawn_task_options [OF 2(3)] by blast
  ultimately show "j = i"
    using spawn_again [OF _ 1(4) steps _ _ 2(3)] k spawnOptionsToJson_key(1) 1(2) 2(2) by metis
qed

end
