(* ===== verification/Effect_Worker.thy ===== *)
theory Effect_Worker
  imports Effect_Store Durable Polling
begin

text \<open>
  The worker of the Effect SDK: the task context and the worker of \<open>sdks/effect/src/Absurd.ts\<close>, the adapter of
  \<open>Worker.ts\<close>, \<open>Step.ts\<close> and \<open>CurrentTask.ts\<close>.
\<close>

section \<open>Steps\<close>

definition StepEncodeError :: "string \<Rightarrow> exn \<Rightarrow> exn" where
  "StepEncodeError stepName reason = TaggedError ''StepEncodeError'' [(''stepName'', JStr stepName)] reason"

definition StepDecodeError :: "string \<Rightarrow> exn \<Rightarrow> exn" where
  "StepDecodeError stepName reason = TaggedError ''StepDecodeError'' [(''stepName'', JStr stepName)] reason"

definition StepPersistenceError :: "string \<Rightarrow> string \<Rightarrow> exn \<Rightarrow> exn" where
  "StepPersistenceError stepName operation reason =
     TaggedError ''StepPersistenceError'' [(''stepName'', JStr stepName), (''operation'', JStr operation)] reason"

definition map_left :: "(exn \<Rightarrow> exn) \<Rightarrow> exn + 'a \<Rightarrow> exn + 'a" where
  "map_left f r = (case r of Inl e \<Rightarrow> Inl (f e) | Inr a \<Rightarrow> Inr a)"

text \<open>\<open>Checkpoint.makeStep\<close> with the errors of its codec.\<close>

definition codec_makeStep ::
    "(string \<Rightarrow> ('s, string \<times> json option) ts) \<Rightarrow> (string \<Rightarrow> string \<Rightarrow> json \<Rightarrow> ('s, unit) ts) \<Rightarrow>
     string \<Rightarrow> ('a \<Rightarrow> exn + json) \<Rightarrow> (json \<Rightarrow> exn + 'a) \<Rightarrow> ('s, 'a) ts \<Rightarrow> ('s, 'a) ts" where
  "codec_makeStep begin_step commit name encode decode =
     makeStep begin_step commit name (\<lambda>a. map_left (StepEncodeError name) (encode a))
       (\<lambda>j. map_left (StepDecodeError name) (decode j))"

text \<open>
  \<open>CurrentTask\<close>: the metadata of a task; a private table has the step implementation of the values that a worker or
  a test made. \<open>Step.make\<close> looks it up.
\<close>

type_synonym ('s, 'a) ExecuteStep =
  "string \<Rightarrow> ('a \<Rightarrow> exn + json) \<Rightarrow> (json \<Rightarrow> exn + 'a) \<Rightarrow> ('s, 'a) ts \<Rightarrow> ('s, 'a) ts"

record ('s, 'a) CurrentTask =
  cur_id :: string
  cur_headers :: json
  cur_step :: "('s, 'a) ExecuteStep option"

definition currentTaskWithStep :: "string \<Rightarrow> json \<Rightarrow> ('s, 'a) ExecuteStep \<Rightarrow> ('s, 'a) CurrentTask" where
  "currentTaskWithStep i hs executeStep = \<lparr>cur_id = i, cur_headers = hs, cur_step = Some executeStep\<rparr>"

definition currentTaskStep :: "('s, 'a) CurrentTask \<Rightarrow> exn + ('s, 'a) ExecuteStep" where
  "currentTaskStep task =
     (case cur_step task of
        None \<Rightarrow> Inl (throw_error ''CurrentTask cannot execute Steps; provide it with Worker.layer or TestCurrentTask'')
      | Some execute \<Rightarrow> Inr execute)"

definition step_make ::
    "('s, 'a) CurrentTask \<Rightarrow> string \<Rightarrow> ('a \<Rightarrow> exn + json) \<Rightarrow> (json \<Rightarrow> exn + 'a) \<Rightarrow> ('s, 'a) ts \<Rightarrow> ('s, 'a) ts" where
  "step_make current name encode decode body =
     bind_ts (check (currentTaskStep current)) (\<lambda>execute. execute name encode decode body)"

section \<open>The task context\<close>

text \<open>
  The state of one execution: its task and lease, the map \<open>stepOccurrences\<close>, and how often the lease was extended,
  which is what the queue \<open>leaseExtensions\<close> was offered.
\<close>

record execution = world +
  ex_queue :: string
  ex_task :: ClaimedRow
  ex_claimTimeout :: int
  ex_occurrences :: "string \<Rightarrow> nat"
  ex_extensions :: nat

definition makeTaskContext :: "string \<Rightarrow> ClaimedRow \<Rightarrow> int \<Rightarrow> world \<Rightarrow> execution" where
  "makeTaskContext queue task claimTimeout w = world.extend w
     \<lparr>ex_queue = queue, ex_task = task, ex_claimTimeout = claimTimeout, ex_occurrences = (\<lambda>_. 0), ex_extensions = 0\<rparr>"

definition context_headers :: "execution \<Rightarrow> json" where
  "context_headers s = (case cr_headers (ex_task s) of None \<Rightarrow> JObj [] | Some h \<Rightarrow> h)"

definition context_beginStep :: "string \<Rightarrow> (execution, string \<times> json option) ts" where
  "context_beginStep name = (\<lambda>s.
     let occurrence = ex_occurrences s name + 1;
         checkpointName = checkpoint_name name occurrence
     in bind_ts (store_checkpointState (ex_queue s) (cr_task_id (ex_task s)) checkpointName)
          (\<lambda>existing. ret (checkpointName, existing))
          (s\<lparr>ex_occurrences := (ex_occurrences s)(name := occurrence)\<rparr>))"

definition onLeaseExtension :: "(execution, unit) ts" where
  "onLeaseExtension = (\<lambda>s. (Inr (), s\<lparr>ex_extensions := Suc (ex_extensions s)\<rparr>))"

definition context_completeStep :: "string \<Rightarrow> json option \<Rightarrow> (execution, unit) ts" where
  "context_completeStep checkpointName v = (\<lambda>s.
     bind_ts (store_setCheckpointState (ex_queue s) (cr_task_id (ex_task s)) checkpointName (or_null v)
         (cr_run_id (ex_task s)) (Some (ex_claimTimeout s))) (\<lambda>_. onLeaseExtension) s)"

text \<open>\<open>Worker.beginStep\<close>: the context's steps with their errors wrapped.\<close>

definition worker_beginStep :: "string \<Rightarrow> (execution, string \<times> json option) ts" where
  "worker_beginStep name = map_error (StepPersistenceError name ''begin'') (context_beginStep name)"

definition worker_completeStep :: "string \<Rightarrow> string \<Rightarrow> json \<Rightarrow> (execution, unit) ts" where
  "worker_completeStep name checkpointName v =
     map_error (StepPersistenceError name ''complete'') (context_completeStep checkpointName (Some v))"

definition worker_current :: "execution \<Rightarrow> (execution, 'a) CurrentTask" where
  "worker_current s = currentTaskWithStep (uuid_text (cr_task_id (ex_task s))) (context_headers s)
     (codec_makeStep worker_beginStep worker_completeStep)"

section \<open>The lease watchdog\<close>

text \<open>
  The watchdog takes whichever comes first, a lease of \<open>claimTimeout\<close> seconds passing or an extension. \<open>Warned\<close> is
  after the warning, \<open>Silent\<close> the endless wait of a watchdog that is not fatal, \<open>Terminated\<close> is \<open>process.exit(1)\<close>.
\<close>

datatype lease_signal = Expired | Extended
datatype watchdog = Watching | Warned | Silent | Terminated

fun watchdog_step :: "bool \<Rightarrow> watchdog \<Rightarrow> lease_signal \<Rightarrow> watchdog" where
  "watchdog_step fatal Watching Extended = Watching"
| "watchdog_step fatal Watching Expired = (if fatal then Warned else Silent)"
| "watchdog_step fatal Warned Extended = Watching"
| "watchdog_step fatal Warned Expired = Terminated"
| "watchdog_step fatal Silent _ = Silent"
| "watchdog_step fatal Terminated _ = Terminated"

definition leaseWatchdog :: "int \<Rightarrow> bool \<Rightarrow> lease_signal list \<Rightarrow> watchdog" where
  "leaseWatchdog claimTimeout fatal signals =
     (if claimTimeout \<le> 0 then Silent else foldl (watchdog_step fatal) Watching signals)"

section \<open>Executing a claimed task\<close>

text \<open>
  The scope of an execution also has the watchdog above, a fiber of its own that touches nothing that the execution
  uses; the execution itself is that of the registration in its context.
\<close>

definition eff_completeRun :: "string \<Rightarrow> uuid \<Rightarrow> json option \<Rightarrow> ('w world_scheme, unit) ts" where
  "eff_completeRun queue runId v = ignoreTerminalTaskError (store_completeRun queue runId (or_null v))"

definition eff_failRun ::
    "(exn \<Rightarrow> string option) \<Rightarrow> (json \<Rightarrow> string) \<Rightarrow> string \<Rightarrow> uuid \<Rightarrow> exn \<Rightarrow> ('w world_scheme, unit) ts" where
  "eff_failRun stack_of string_of queue runId failure =
     ignoreTerminalTaskError (store_failRun queue runId (serializeFailure stack_of string_of failure))"

definition deferUnknownTask ::
    "(exn \<Rightarrow> string option) \<Rightarrow> (json \<Rightarrow> string) \<Rightarrow> string \<Rightarrow> ClaimedRow \<Rightarrow> ('w world_scheme, unit) ts" where
  "deferUnknownTask stack_of string_of queue task =
     (let delay = 15 + eff_deterministicJitterSeconds (uuid_text (cr_run_id task)) 15
      in catch_ts (store_scheduleRunInSeconds queue (cr_run_id task) delay)
           (\<lambda>err. eff_failRun stack_of string_of queue (cr_run_id task) err))"

text \<open>A registration executes a payload in the state of its execution; what it gives is the handler's exit.\<close>

type_synonym registration = "json \<Rightarrow> (execution, json) ts"

definition executeHandler :: "execution AnyHandler \<Rightarrow> registration" where
  "executeHandler handler payload = ah_execute handler payload"

definition executeClaimedTask ::
    "(exn \<Rightarrow> string option) \<Rightarrow> (json \<Rightarrow> string) \<Rightarrow> string \<Rightarrow> ClaimedRow \<Rightarrow> (string \<Rightarrow> registration option) \<Rightarrow> int \<Rightarrow>
     (world, unit) ts" where
  "executeClaimedTask stack_of string_of queue task registrations claimTimeout = (\<lambda>w.
     case registrations (cr_task_name task) of
       None \<Rightarrow> deferUnknownTask stack_of string_of queue task w
     | Some execute \<Rightarrow>
         (case execute (cr_params task) (makeTaskContext queue task claimTimeout w) of
            (Inr v, s) \<Rightarrow> eff_completeRun queue (cr_run_id task) (Some v) (world.truncate s)
          | (Inl e, s) \<Rightarrow> eff_failRun stack_of string_of queue (cr_run_id task) e (world.truncate s)))"

section \<open>The worker loop\<close>

record eff_options =
  eo_queue :: string
  eo_registrations :: "(string \<times> registration) list"
  eo_workerId :: "string option"
  eo_claimTimeout :: "duration option"
  eo_batchSize :: "int option"
  eo_concurrency :: "int option"
  eo_pollInterval :: "duration option"
  eo_fatalOnLeaseTimeout :: "bool option"

record eff_config =
  ec_queue :: string
  ec_registrations :: "string \<Rightarrow> registration option"
  ec_workerId :: string
  ec_claimTimeout :: jsnum
  ec_concurrency :: int
  ec_batchSize :: int
  ec_pollInterval :: jsnum
  ec_fatalOnLeaseTimeout :: bool

text \<open>\<open>new Map(\<dots>)\<close>: of two registrations of a name the later one counts.\<close>

definition eff_defaults :: "string \<Rightarrow> eff_options \<Rightarrow> eff_config" where
  "eff_defaults default_id options =
     (let concurrency = (case eo_concurrency options of None \<Rightarrow> 1 | Some n \<Rightarrow> n)
      in \<lparr>ec_queue = eo_queue options, ec_registrations = map_of (rev (eo_registrations options)),
          ec_workerId = (case eo_workerId options of None \<Rightarrow> default_id | Some i \<Rightarrow> i),
          ec_claimTimeout = (case wholeSeconds (eo_claimTimeout options) of None \<Rightarrow> Fin 120 | Some t \<Rightarrow> t),
          ec_concurrency = concurrency,
          ec_batchSize = (case eo_batchSize options of None \<Rightarrow> concurrency | Some n \<Rightarrow> n),
          ec_pollInterval = (case seconds (eo_pollInterval options) of None \<Rightarrow> Fin (1 / 4) | Some t \<Rightarrow> t),
          ec_fatalOnLeaseTimeout = (case eo_fatalOnLeaseTimeout options of None \<Rightarrow> True | Some b \<Rightarrow> b)\<rparr>)"

text \<open>An infinite claim timeout does not pass the schema \<open>Finite\<close> of the claim's parameters.\<close>

definition eff_claim :: "eff_config \<Rightarrow> int \<Rightarrow> (world, ClaimedRow list) ts" where
  "eff_claim c n =
     (case ec_claimTimeout c of
        Fin t \<Rightarrow> store_claimTasks (ec_queue c) (ec_workerId c) \<lceil>t\<rceil> n
      | _ \<Rightarrow> throw SchemaError)"

text \<open>
  \<open>ew_tokens\<close> is the length of the unbounded queue \<open>availability\<close>, which every finished execution offers to and the
  wait takes from; \<open>ew_stop\<close> is the deferred \<open>stop\<close>. The phase \<open>Draining\<close> is \<open>FiberSet.awaitEmpty\<close>.
\<close>

record eff_worker =
  ew_stop :: bool
  ew_phase :: loop_phase
  ew_executions :: "ClaimedRow list"
  ew_tokens :: nat

definition eff_started :: eff_worker where
  "eff_started = \<lparr>ew_stop = False, ew_phase = Polling, ew_executions = [], ew_tokens = 0\<rparr>"

definition eff_poll :: "eff_config \<Rightarrow> eff_worker \<Rightarrow> eff_worker" where
  "eff_poll c k =
     (if ew_stop k then k\<lparr>ew_phase := Draining\<rparr>
      else let availableCapacity = ec_concurrency c - int (length (ew_executions k))
           in if availableCapacity \<le> 0 then k\<lparr>ew_phase := Waiting\<rparr>
              else k\<lparr>ew_phase := Claiming (min (ec_batchSize c) availableCapacity)\<rparr>)"

text \<open>An error of the claim is logged and counts as no tasks.\<close>

definition eff_claimed :: "exn + ClaimedRow list \<Rightarrow> eff_worker \<Rightarrow> eff_worker" where
  "eff_claimed answer k =
     (case answer of
        Inl _ \<Rightarrow> k\<lparr>ew_phase := Waiting\<rparr>
      | Inr [] \<Rightarrow> k\<lparr>ew_phase := Waiting\<rparr>
      | Inr claimed \<Rightarrow> k\<lparr>ew_phase := Polling, ew_executions := ew_executions k @ claimed\<rparr>)"

definition eff_settle :: "ClaimedRow \<Rightarrow> eff_worker \<Rightarrow> eff_worker" where
  "eff_settle task k = k\<lparr>ew_executions := remove1 task (ew_executions k), ew_tokens := Suc (ew_tokens k)\<rparr>"

inductive eff_step :: "eff_config \<Rightarrow> eff_worker \<times> world \<Rightarrow> eff_worker \<times> world \<Rightarrow> bool" for c :: eff_config where
  poll: "ew_phase k = Polling \<Longrightarrow> eff_step c (k, w) (eff_poll c k, w)"
| claim: "ew_phase k = Claiming n \<Longrightarrow>
    eff_claim c n w = (r, w') \<Longrightarrow>
    eff_step c (k, w) (eff_claimed r k, w')"
| timer: "ew_phase k = Waiting \<Longrightarrow> eff_step c (k, w) (k\<lparr>ew_phase := Polling\<rparr>, w)"
| take: "ew_phase k = Waiting \<Longrightarrow> ew_tokens k = Suc n \<Longrightarrow>
    eff_step c (k, w) (k\<lparr>ew_phase := Polling, ew_tokens := n\<rparr>, w)"
| stopped: "ew_phase k = Waiting \<Longrightarrow> ew_stop k \<Longrightarrow> eff_step c (k, w) (k\<lparr>ew_phase := Polling\<rparr>, w)"
| settle: "task \<in> set (ew_executions k) \<Longrightarrow> eff_step c (k, w) (eff_settle task k, w)"
| drained: "ew_phase k = Draining \<Longrightarrow> ew_executions k = [] \<Longrightarrow>
    eff_step c (k, w) (k\<lparr>ew_phase := Stopped\<rparr>, w)"
| close: "eff_step c (k, w) (k\<lparr>ew_stop := True\<rparr>, w)"
| act: "eff_step c (k, w) (k, w')"

inductive_cases eff_step_elim: "eff_step c (k, w) (k', w')"

lemmas eff_stepE =
  eff_step_elim [consumes 1, case_names poll claim timer take stopped settle drained close act]

section \<open>The worker layer\<close>

text \<open>
  \<open>Worker.layer\<close> starts one worker for each queue of its handlers, with the handlers of that queue, queues and
  handlers in the order given.
\<close>

primrec add_handler :: "'s AnyHandler \<Rightarrow> (string \<times> 's AnyHandler list) list \<Rightarrow> (string \<times> 's AnyHandler list) list" where
  "add_handler h [] = [(ah_queue h, [h])]"
| "add_handler h (g # gs) = (if fst g = ah_queue h then (fst g, snd g @ [h]) # gs else g # add_handler h gs)"

definition handlersByQueue :: "'s AnyHandler list \<Rightarrow> (string \<times> 's AnyHandler list) list" where
  "handlersByQueue handlers = foldl (\<lambda>gs h. add_handler h gs) [] handlers"

definition worker_layer :: "execution AnyHandler list \<Rightarrow> eff_options \<Rightarrow> eff_options list" where
  "worker_layer handlers options =
     map (\<lambda>(queue, hs). options\<lparr>eo_queue := queue,
         eo_registrations := map (\<lambda>h. (ah_name h, executeHandler h)) hs\<rparr>)
       (handlersByQueue handlers)"

end
