(* ===== verification/Effect_Test.thy ===== *)
theory Effect_Test
  imports Effect_Task Durable
begin

text \<open>
  The test doubles of the Effect SDK: the in-memory checkpoints of \<open>internal/Checkpoint.ts\<close>, \<open>TestCurrentTask.ts\<close>
  and \<open>TestTaskStore.ts\<close>. They meet the interfaces \<open>step_backend\<close> and \<open>task_store\<close> of the production code.
\<close>

section \<open>Checkpoints in memory\<close>

text \<open>
  \<open>makeMemory\<close> closes over a map of checkpoints and a map of occurrences; \<open>get\<close> and \<open>put\<close> reach them in the state.
  \<open>onStep\<close> is the optional callback.
\<close>

definition makeMemory_begin ::
    "('s \<Rightarrow> string \<Rightarrow> json option) \<Rightarrow> ('s \<Rightarrow> string \<Rightarrow> nat) \<Rightarrow> ((string \<Rightarrow> nat) \<Rightarrow> 's \<Rightarrow> 's) \<Rightarrow>
     (string \<Rightarrow> 's \<Rightarrow> 's) option \<Rightarrow> string \<Rightarrow> ('s, string \<times> json option) ts" where
  "makeMemory_begin get occurrences set_occurrences onStep name = (\<lambda>s.
     let s1 = (case onStep of None \<Rightarrow> s | Some f \<Rightarrow> f name s);
         occurrence = occurrences s1 name + 1;
         s2 = set_occurrences ((occurrences s1)(name := occurrence)) s1;
         checkpointName = checkpoint_name name occurrence
     in (Inr (checkpointName, get s2 checkpointName), s2))"

definition makeMemory_complete ::
    "('s \<Rightarrow> string \<Rightarrow> json option) \<Rightarrow> ((string \<Rightarrow> json option) \<Rightarrow> 's \<Rightarrow> 's) \<Rightarrow> string \<Rightarrow> string \<Rightarrow> json \<Rightarrow> ('s, unit) ts" where
  "makeMemory_complete get put name checkpointName v = (\<lambda>s. (Inr (), put ((get s)(checkpointName \<mapsto> v)) s))"

section \<open>TestCurrentTask\<close>

text \<open>The checkpoints are those of \<open>make\<close>, the occurrences those of one \<open>run\<close>; \<open>tk_env\<close> is the caller's state.\<close>

record 'e test_task =
  tk_id :: string
  tk_headers :: json
  tk_checkpoints :: "string \<Rightarrow> json option"
  tk_occurrences :: "string \<Rightarrow> nat"
  tk_env :: 'e

definition test_make :: "string option \<Rightarrow> json option \<Rightarrow> 'e \<Rightarrow> 'e test_task" where
  "test_make i hs env =
     \<lparr>tk_id = (case i of None \<Rightarrow> ''test-task'' | Some x \<Rightarrow> x),
      tk_headers = (case hs of None \<Rightarrow> JObj [] | Some h \<Rightarrow> h),
      tk_checkpoints = (\<lambda>_. None), tk_occurrences = (\<lambda>_. 0), tk_env = env\<rparr>"

definition tk_begin :: "(string \<Rightarrow> 'e \<Rightarrow> 'e) option \<Rightarrow> string \<Rightarrow> ('e test_task, string \<times> json option) ts" where
  "tk_begin onStep = makeMemory_begin tk_checkpoints tk_occurrences (\<lambda>f s. s\<lparr>tk_occurrences := f\<rparr>)
     (map_option (\<lambda>f name s. s\<lparr>tk_env := f name (tk_env s)\<rparr>) onStep)"

definition tk_complete :: "string \<Rightarrow> string \<Rightarrow> json \<Rightarrow> ('e test_task, unit) ts" where
  "tk_complete = makeMemory_complete tk_checkpoints (\<lambda>f s. s\<lparr>tk_checkpoints := f\<rparr>)"

text \<open>\<open>run\<close>: a fresh count of occurrences over the same checkpoints.\<close>

definition test_run_effect :: "('e test_task, 'a) ts \<Rightarrow> ('e test_task, 'a) ts" where
  "test_run_effect effect = (\<lambda>s. effect (s\<lparr>tk_occurrences := (\<lambda>_. 0)\<rparr>))"

interpretation tk: step_backend "tk_begin None" tk_complete tk_checkpoints tk_occurrences
    "\<lambda>s. (tk_id s, tk_headers s, tk_checkpoints s, tk_env s)" "\<lambda>_. True"
  by unfold_locales
    (auto simp: tk_begin_def tk_complete_def makeMemory_begin_def makeMemory_complete_def Let_def)

section \<open>TestTaskStore\<close>

text \<open>
  Entries are mutable objects: \<open>tt_heap\<close> has every entry that was made, \<open>tt_byId\<close> lists the ids that the map \<open>byId\<close> has,
  in order. \<open>tt_env\<close> is what the handlers use besides.
\<close>

record MutableEntry =
  me_name :: string
  me_payload :: json
  me_options :: RoutedSpawnOptions
  me_checkpoints :: "string \<Rightarrow> json option"
  me_status :: StoredTaskStatus

record 'e test_store =
  tt_heap :: "string \<Rightarrow> MutableEntry option"
  tt_byId :: "string list"
  tt_byKey :: "string \<Rightarrow> string option"
  tt_nextId :: nat
  tt_env :: 'e

text \<open>A handler runs as the task \<open>tr_id\<close> with its own occurrences.\<close>

record 'e test_run = "'e test_store" +
  tr_id :: string
  tr_occurrences :: "string \<Rightarrow> nat"

definition update_entry :: "string \<Rightarrow> (MutableEntry \<Rightarrow> MutableEntry) \<Rightarrow> ('e, 'm) test_store_scheme \<Rightarrow> ('e, 'm) test_store_scheme" where
  "update_entry i f s = s\<lparr>tt_heap := (tt_heap s)(i := map_option f (tt_heap s i))\<rparr>"

definition entry_checkpoints :: "'e test_run \<Rightarrow> string \<Rightarrow> json option" where
  "entry_checkpoints s = (case tt_heap s (tr_id s) of None \<Rightarrow> (\<lambda>_. None) | Some e \<Rightarrow> me_checkpoints e)"

definition tt_begin :: "string \<Rightarrow> ('e test_run, string \<times> json option) ts" where
  "tt_begin = makeMemory_begin entry_checkpoints tr_occurrences (\<lambda>f s. s\<lparr>tr_occurrences := f\<rparr>) None"

definition tt_complete :: "string \<Rightarrow> string \<Rightarrow> json \<Rightarrow> ('e test_run, unit) ts" where
  "tt_complete = makeMemory_complete entry_checkpoints
     (\<lambda>f s. update_entry (tr_id s) (\<lambda>e. e\<lparr>me_checkpoints := f\<rparr>) s)"

lemma update_entry_heap [simp]:
  "tt_heap (update_entry i h s) j = (if j = i then map_option h (tt_heap s i) else tt_heap s j)"
  by (simp add: update_entry_def)

lemma entry_checkpoints_simps [simp]:
  "entry_checkpoints (s\<lparr>tr_occurrences := f\<rparr>) = entry_checkpoints s"
  "tt_heap s (tr_id s) \<noteq> None \<Longrightarrow>
    entry_checkpoints (update_entry (tr_id s) (\<lambda>e. e\<lparr>me_checkpoints := g\<rparr>) s) = g"
  "tr_id (update_entry i h s) = tr_id s" "tr_occurrences (update_entry i h s) = tr_occurrences s"
  by (auto simp: entry_checkpoints_def update_entry_def)

interpretation tt: step_backend tt_begin tt_complete entry_checkpoints tr_occurrences
    "\<lambda>s. (test_store.truncate s, tr_id s)" "\<lambda>s. tt_heap s (tr_id s) \<noteq> None"
  by unfold_locales
    (auto simp: tt_begin_def tt_complete_def makeMemory_begin_def makeMemory_complete_def Let_def
      test_store.truncate_def)

text \<open>The handlers by queue and name; of two with the same key the later one counts.\<close>

definition handler_key :: "string \<Rightarrow> string \<Rightarrow> string" where
  "handler_key queue name = queue @ CHR '':'' # name"

definition byName :: "'s AnyHandler list \<Rightarrow> string \<Rightarrow> 's AnyHandler option" where
  "byName handlers = map_of (rev (map (\<lambda>h. (handler_key (ah_queue h) (ah_name h), h)) handlers))"

definition start_run :: "string \<Rightarrow> 'e test_store \<Rightarrow> 'e test_run" where
  "start_run i s = test_store.extend s \<lparr>tr_id = i, tr_occurrences = (\<lambda>_. 0)\<rparr>"

text \<open>\<open>run\<close> of one entry. \<open>pretty\<close> is \<open>Cause.pretty\<close>.\<close>

definition run_entry :: "'e test_run AnyHandler list \<Rightarrow> (exn \<Rightarrow> string) \<Rightarrow> string \<Rightarrow> ('e test_store, unit) ts" where
  "run_entry handlers pretty i = (\<lambda>s.
     case tt_heap s i of
       None \<Rightarrow> (Inr (), s)
     | Some entry \<Rightarrow>
         (case byName handlers (handler_key (es_queue (me_options entry)) (me_name entry)) of
            None \<Rightarrow> (Inr (), s)
          | Some handler \<Rightarrow>
              (case ah_execute handler (me_payload entry)
                      (start_run i (update_entry i (\<lambda>e. e\<lparr>me_status := St_Running\<rparr>) s)) of
                 (exit, s') \<Rightarrow>
                   (Inr (), update_entry i (\<lambda>e. e\<lparr>me_status := (case exit of
                        Inr v \<Rightarrow> St_Completed v
                      | Inl e \<Rightarrow> St_Failed (JObj [(''message'', JStr (pretty e))]))\<rparr>)
                      (test_store.truncate s')))))"

definition scoped_key :: "SpawnRequest \<Rightarrow> string \<Rightarrow> string" where
  "scoped_key request key = es_queue (rq_options request) @ CHR '':'' # rq_name request @ CHR '':'' # key"

definition new_entry :: "SpawnRequest \<Rightarrow> MutableEntry" where
  "new_entry request = \<lparr>me_name = rq_name request, me_payload = rq_payload request,
     me_options = rq_options request, me_checkpoints = (\<lambda>_. None), me_status = St_Pending\<rparr>"

definition test_id :: "nat \<Rightarrow> string" where
  "test_id n = ''test-task-'' @ nat_dec n"

definition insert_entry :: "SpawnRequest \<Rightarrow> 'e test_store \<Rightarrow> 'e test_store" where
  "insert_entry request s =
     (let i = test_id (tt_nextId s)
      in s\<lparr>tt_nextId := Suc (tt_nextId s), tt_heap := (tt_heap s)(i \<mapsto> new_entry request),
           tt_byId := tt_byId s @ [i],
           tt_byKey := (case es_idempotencyKey (rq_options request) of
               None \<Rightarrow> tt_byKey s | Some key \<Rightarrow> (tt_byKey s)(scoped_key request key \<mapsto> i))\<rparr>)"

definition test_spawn :: "'e test_run AnyHandler list \<Rightarrow> (exn \<Rightarrow> string) \<Rightarrow> SpawnRequest \<Rightarrow> ('e test_store, string) ts" where
  "test_spawn handlers pretty request = (\<lambda>s.
     case Option.bind (es_idempotencyKey (rq_options request)) (\<lambda>key. tt_byKey s (scoped_key request key)) of
       Some existing \<Rightarrow> (Inr existing, s)
     | None \<Rightarrow> bind_ts (run_entry handlers pretty (test_id (tt_nextId s)))
                 (\<lambda>_. ret (test_id (tt_nextId s))) (insert_entry request s))"

definition test_status :: "string StatusRequest \<Rightarrow> ('e test_store, StoredTaskStatus) ts" where
  "test_status request = (\<lambda>s.
     (Inr (if st_id request \<in> set (tt_byId s)
           then (case tt_heap s (st_id request) of None \<Rightarrow> St_NotFound | Some e \<Rightarrow> me_status e)
           else St_NotFound), s))"

definition test_store_of :: "'e test_run AnyHandler list \<Rightarrow> (exn \<Rightarrow> string) \<Rightarrow> ('e test_store, string) TaskStore" where
  "test_store_of handlers pretty = \<lparr>store_spawn = test_spawn handlers pretty, store_status = test_status\<rparr>"

definition test_entries :: "'e test_store \<Rightarrow> (string \<times> MutableEntry) list" where
  "test_entries s = map (\<lambda>i. (i, the (tt_heap s i))) (tt_byId s)"

definition test_rerun :: "'e test_run AnyHandler list \<Rightarrow> (exn \<Rightarrow> string) \<Rightarrow> string \<Rightarrow> ('e test_store, unit) ts" where
  "test_rerun handlers pretty taskId = (\<lambda>s.
     if taskId \<in> set (tt_byId s) then run_entry handlers pretty taskId s
     else throw (TaskStoreError ''rerun'' ''unknown'' (JStr taskId)
            (Thrown (JStr (''Task '' @ CHR 0x22 # taskId @ CHR 0x22 # '' not found'')))) s)"

definition test_clear :: "('e test_store, unit) ts" where
  "test_clear = (\<lambda>s. (Inr (), s\<lparr>tt_byId := [], tt_byKey := (\<lambda>_. None)\<rparr>))"

definition empty_store :: "'e \<Rightarrow> 'e test_store" where
  "empty_store env = \<lparr>tt_heap = (\<lambda>_. None), tt_byId = [], tt_byKey = (\<lambda>_. None), tt_nextId = 1, tt_env = env\<rparr>"

section \<open>The contract\<close>

text \<open>Ids in the maps have an entry and are older than the next one. Nothing but \<open>clear\<close> forgets a task or a key.\<close>

definition test_inv :: "('e, 'm) test_store_scheme \<Rightarrow> bool" where
  "test_inv s \<longleftrightarrow>
     (\<forall>i \<in> set (tt_byId s). tt_heap s i \<noteq> None) \<and>
     (\<forall>i. tt_heap s i \<noteq> None \<longrightarrow> (\<exists>n < tt_nextId s. i = test_id n)) \<and>
     (\<forall>i e. tt_heap s i = Some e \<longrightarrow> me_status e \<noteq> St_NotFound) \<and>
     (\<forall>k i. tt_byKey s k = Some i \<longrightarrow> i \<in> set (tt_byId s))"

definition test_others :: "('e, 'm) test_store_scheme \<Rightarrow> ('e, 'n) test_store_scheme \<Rightarrow> bool" where
  "test_others s s' \<longleftrightarrow> test_inv s' \<and> set (tt_byId s) \<subseteq> set (tt_byId s') \<and> tt_byKey s \<subseteq>\<^sub>m tt_byKey s' \<and>
     (\<forall>i. tt_heap s i \<noteq> None \<longrightarrow> tt_heap s' i \<noteq> None)"

definition handlers_ok :: "'e test_run AnyHandler list \<Rightarrow> bool" where
  "handlers_ok handlers \<longleftrightarrow>
     (\<forall>h \<in> set handlers. \<forall>j s r s'. test_inv s \<longrightarrow> ah_execute h j s = (r, s') \<longrightarrow> test_others s s')"

lemma update_entry_fields [simp]:
  "tt_byId (update_entry i h s) = tt_byId s" "tt_byKey (update_entry i h s) = tt_byKey s"
  "tt_nextId (update_entry i h s) = tt_nextId s" "tt_env (update_entry i h s) = tt_env s"
  by (simp_all add: update_entry_def)

lemma run_fields [simp]:
  "tt_byId (start_run i s) = tt_byId s" "tt_byKey (start_run i s) = tt_byKey s"
  "tt_nextId (start_run i s) = tt_nextId s" "tt_heap (start_run i s) = tt_heap s" "tr_id (start_run i s) = i"
  "tt_byId (test_store.truncate r) = tt_byId r" "tt_byKey (test_store.truncate r) = tt_byKey r"
  "tt_nextId (test_store.truncate r) = tt_nextId r" "tt_heap (test_store.truncate r) = tt_heap r"
  "tr_occurrences (start_run i s) = (\<lambda>_. 0)"
  by (simp_all add: start_run_def test_store.defs)

lemma test_others_refl: "test_inv s \<Longrightarrow> test_others s s"
  by (simp add: test_others_def map_le_def)

lemma test_others_trans: "test_others a b \<Longrightarrow> test_others b c \<Longrightarrow> test_others a c"
  unfolding test_others_def using map_le_trans by blast

text \<open>Only these fields matter, so states of different extensions can be compared.\<close>

lemma test_others_cong:
  assumes "tt_heap s = tt_heap s2" "tt_byId s = tt_byId s2" "tt_byKey s = tt_byKey s2"
    "tt_heap t = tt_heap t2" "tt_byId t = tt_byId t2" "tt_byKey t = tt_byKey t2" "tt_nextId t = tt_nextId t2"
  shows "test_others s t = test_others s2 t2"
  using assms by (simp add: test_others_def test_inv_def)

lemma update_status_inv:
  assumes "test_inv s" "st \<noteq> St_NotFound"
  shows "test_inv (update_entry i (\<lambda>e. e\<lparr>me_status := st\<rparr>) s)"
  using assms by (auto simp: test_inv_def split: if_splits)

lemma update_status_others:
  assumes "test_inv s" "st \<noteq> St_NotFound"
  shows "test_others s (update_entry i (\<lambda>e. e\<lparr>me_status := st\<rparr>) s)"
  using update_status_inv [OF assms] by (auto simp: test_others_def map_le_def)

lemma byName_handler: "byName handlers k = Some h \<Longrightarrow> h \<in> set handlers"
  by (auto simp: byName_def dest!: map_of_SomeD)

lemma run_entry_others:
  assumes "handlers_ok handlers" "test_inv s" "run_entry handlers pretty i s = (r, s')"
  shows "r = Inr () \<and> test_others s s'"
proof (cases "tt_heap s i")
  case None
  then show ?thesis using assms(2,3) test_others_refl [OF assms(2)] by (simp add: run_entry_def)
next
  case entry: (Some entry)
  show ?thesis
  proof (cases "byName handlers (handler_key (es_queue (me_options entry)) (me_name entry))")
    case None
    then show ?thesis using assms(3) entry test_others_refl [OF assms(2)] by (simp add: run_entry_def)
  next
    case (Some h)
    let ?s1 = "update_entry i (\<lambda>e. e\<lparr>me_status := St_Running\<rparr>) s"
    obtain x t where x: "ah_execute h (me_payload entry) (start_run i ?s1) = (x, t)"
      by (cases "ah_execute h (me_payload entry) (start_run i ?s1)")
    define st where "st = (case x of Inr v \<Rightarrow> St_Completed v
      | Inl e \<Rightarrow> St_Failed (JObj [(''message'', JStr (pretty e))]))"
    have r: "r = Inr ()" "s' = update_entry i (\<lambda>e. e\<lparr>me_status := st\<rparr>) (test_store.truncate t)"
      using assms(3) by (simp_all add: run_entry_def entry Some x st_def)
    have st: "st \<noteq> St_NotFound" by (simp add: st_def split: sum.split)
    have "test_inv (start_run i ?s1)"
      using update_status_inv [OF assms(2), of St_Running] by (simp add: test_inv_def)
    then have "test_others (start_run i ?s1) t"
      using assms(1) byName_handler [OF Some] x by (auto simp: handlers_ok_def)
    then have 2: "test_others ?s1 (test_store.truncate t)"
      by (subst (asm) test_others_cong) simp_all
    then have "test_inv (test_store.truncate t)" by (simp add: test_others_def)
    with update_status_others [OF this st] have 3: "test_others (test_store.truncate t) s'" by (simp add: r(2))
    have "test_others s ?s1" by (rule update_status_others [OF assms(2)]) simp
    with 2 3 show ?thesis using r(1) test_others_trans by blast
  qed
qed

lemma test_id_inj: "test_id m = test_id n \<Longrightarrow> m = n"
  using dec_val_nat_dec by (metis test_id_def same_append_eq)

lemma insert_entry_others:
  assumes "test_inv s"
    "Option.bind (es_idempotencyKey (rq_options r)) (\<lambda>k. tt_byKey s (scoped_key r k)) = None"
  shows "test_others s (insert_entry r s) \<and> test_id (tt_nextId s) \<in> set (tt_byId (insert_entry r s)) \<and>
    (\<forall>k. es_idempotencyKey (rq_options r) = Some k \<longrightarrow>
       tt_byKey (insert_entry r s) (scoped_key r k) = Some (test_id (tt_nextId s)))"
proof -
  have fresh: "tt_heap s (test_id (tt_nextId s)) = None"
    using assms(1) test_id_inj by (fastforce simp: test_inv_def)
  have "test_inv (insert_entry r s)"
    using assms(1)
    by (auto simp: test_inv_def insert_entry_def Let_def new_entry_def less_Suc_eq split: option.splits if_splits)
  then show ?thesis
    using assms(2) fresh
    by (auto simp: test_others_def insert_entry_def Let_def map_le_def split: option.splits)
qed

lemma test_spawn_cases:
  assumes "handlers_ok handlers" "test_inv s" "test_spawn handlers pretty r s = (x, s')"
  obtains i where "x = Inr i" "test_others s s'" "i \<in> set (tt_byId s')"
    "\<And>k. es_idempotencyKey (rq_options r) = Some k \<Longrightarrow> tt_byKey s' (scoped_key r k) = Some i"
    "\<And>k j. es_idempotencyKey (rq_options r) = Some k \<Longrightarrow> tt_byKey s (scoped_key r k) = Some j \<Longrightarrow> i = j"
proof (cases "Option.bind (es_idempotencyKey (rq_options r)) (\<lambda>key. tt_byKey s (scoped_key r key))")
  case None
  let ?i = "test_id (tt_nextId s)"
  obtain y t where y: "run_entry handlers pretty ?i (insert_entry r s) = (y, t)"
    by (cases "run_entry handlers pretty ?i (insert_entry r s)")
  note ins = insert_entry_others [OF assms(2) None]
  then have "test_inv (insert_entry r s)" by (simp add: test_others_def)
  from run_entry_others [OF assms(1) this y] have run: "y = Inr ()" "test_others (insert_entry r s) t" by simp_all
  have x: "x = Inr ?i" "s' = t"
    using assms(3) None y run(1) by (simp_all add: test_spawn_def)
  show ?thesis
  proof (rule that [OF x(1)])
    show "test_others s s'" using ins run(2) test_others_trans unfolding x(2) by blast
    show "?i \<in> set (tt_byId s')" using ins run(2) by (auto simp: test_others_def x(2))
    show "tt_byKey s' (scoped_key r k) = Some ?i" if "es_idempotencyKey (rq_options r) = Some k" for k
      using ins run(2) that unfolding x(2) test_others_def map_le_def by (metis domI)
    show "?i = j" if "es_idempotencyKey (rq_options r) = Some k" "tt_byKey s (scoped_key r k) = Some j" for k j
      using None that by simp
  qed
next
  case (Some i)
  then have "x = Inr i" "s' = s" using assms(3) by (simp_all add: test_spawn_def)
  with Some show ?thesis
    using that [of i] assms(2) test_others_refl [OF assms(2)] by (auto simp: test_inv_def bind_eq_Some_conv)
qed

lemma test_contract:
  assumes "handlers_ok handlers"
  shows "task_store (test_store_of handlers pretty) test_inv test_others (\<lambda>s _ i. i \<in> set (tt_byId s))"
proof (unfold_locales)
  fix s s' :: "'a test_store" and r i
  assume "test_inv s" "store_spawn (test_store_of handlers pretty) r s = (Inr i, s')"
  then show "test_inv s' \<and> i \<in> set (tt_byId s')"
    using test_spawn_cases [OF assms, of s pretty r "Inr i" s']
    by (auto simp: test_store_of_def test_others_def)
next
  fix s s' :: "'a test_store" and i
  assume "test_others s s'"
  then show "test_inv s' \<and> (i \<in> set (tt_byId s) \<longrightarrow> i \<in> set (tt_byId s'))" by (auto simp: test_others_def)
next
  fix s :: "'a test_store" and sr :: "string StatusRequest"
  assume "test_inv s" "st_id sr \<in> set (tt_byId s)"
  then show "\<exists>st s'. store_status (test_store_of handlers pretty) sr s = (Inr st, s') \<and> st \<noteq> St_NotFound"
    by (auto simp: test_store_of_def test_status_def test_inv_def)
next
  fix s s1 s2 s3 :: "'a test_store" and r r2 :: SpawnRequest and i j k
  assume inv: "test_inv s" and sp: "store_spawn (test_store_of handlers pretty) r s = (Inr i, s1)"
    and ot: "test_others s1 s2" and eq: "rq_name r2 = rq_name r" "es_queue (rq_options r2) = es_queue (rq_options r)"
    and k: "es_idempotencyKey (rq_options r) = Some k" "es_idempotencyKey (rq_options r2) = Some k"
    and sp2: "store_spawn (test_store_of handlers pretty) r2 s2 = (Inr j, s3)"
  have "tt_byKey s1 (scoped_key r k) = Some i"
    using sp test_spawn_cases [OF assms inv, of pretty r "Inr i" s1] k by (auto simp: test_store_of_def)
  then have "tt_byKey s2 (scoped_key r2 k) = Some i"
    using ot eq unfolding test_others_def map_le_def scoped_key_def by (metis domI)
  moreover have "test_inv s2" using ot by (simp add: test_others_def)
  ultimately show "j = i"
    using sp2 test_spawn_cases [OF assms, of s2 pretty r2 "Inr j" s3] k by (auto simp: test_store_of_def)
qed

end
