(* ===== verification/Effect_Spec.thy ===== *)
theory Effect_Spec
  imports Effect_Worker Effect_Test Store_Spec Client_Spec
begin

text \<open>
  Properties of the Effect SDK: its steps on PostgreSQL and in memory, the outcome of a claimed task, the watchdog, the
  worker loop, and the task stores.
\<close>

section \<open>Steps on PostgreSQL\<close>

definition ex_db :: "execution \<Rightarrow> qstate option" where
  "ex_db s = map_of (w_queues s) (ex_queue s)"

definition ex_view :: "execution \<Rightarrow> string \<Rightarrow> json option" where
  "ex_view s n = Option.bind (ex_db s) (\<lambda>q.
     map_option (\<lambda>c. or_null (c_state c)) (get_task_checkpoint_state (cr_task_id (ex_task s)) n q))"

definition ex_ok :: "execution \<Rightarrow> bool" where
  "ex_ok s \<longleftrightarrow> (\<exists>q. ex_db s = Some q \<and> unfenced_run (cr_task_id (ex_task s)) (cr_run_id (ex_task s)) q)"

definition ex_outside :: "execution \<Rightarrow> (string \<Rightarrow> qstate option) \<times> int \<times> int \<times> string \<times> ClaimedRow \<times> int \<times> nat" where
  "ex_outside s = (map_of (w_queues s), w_db_now s, w_js_now s, ex_queue s, ex_task s, ex_claimTimeout s, ex_extensions s)"

lemma ex_set_queue [simp]:
  "ex_queue (set_queue n q s) = ex_queue s" "ex_task (set_queue n q s) = ex_task s"
  "ex_claimTimeout (set_queue n q s) = ex_claimTimeout s" "ex_occurrences (set_queue n q s) = ex_occurrences s"
  "ex_extensions (set_queue n q s) = ex_extensions s"
  by (simp_all add: set_queue_def)

lemma ex_db_simps [simp]:
  "ex_db (set_queue (ex_queue s) q s) = Some q" "ex_db (s\<lparr>ex_occurrences := f\<rparr>) = ex_db s"
  "ex_db (s\<lparr>ex_extensions := e\<rparr>) = ex_db s"
  by (simp_all add: ex_db_def)

lemma ex_begin:
  assumes "ex_ok s"
  shows "\<exists>s'. worker_beginStep n s = (Inr (checkpoint_name n (ex_occurrences s n + 1),
      ex_view s (checkpoint_name n (ex_occurrences s n + 1))), s') \<and>
    ex_ok s' \<and> ex_view s' = ex_view s \<and> ex_occurrences s' = (ex_occurrences s)(n := ex_occurrences s n + 1) \<and>
    ex_outside s' = ex_outside s"
proof -
  from assms obtain q where q: "ex_db s = Some q"
    "unfenced_run (cr_task_id (ex_task s)) (cr_run_id (ex_task s)) q" by (auto simp: ex_ok_def)
  let ?c = "checkpoint_name n (ex_occurrences s n + 1)"
  let ?s = "s\<lparr>ex_occurrences := (ex_occurrences s)(n := ex_occurrences s n + 1)\<rparr>"
  let ?s' = "set_queue (ex_queue s) q ?s"
  have m: "map_of (w_queues s) (ex_queue s) = Some q" using q(1) by (simp add: ex_db_def)
  have "worker_beginStep n s = (Inr (?c, ex_view s ?c), ?s')"
    using m q(1) by (simp add: worker_beginStep_def map_error_def context_beginStep_def Let_def bind_ts_def
        store_checkpointState_def sql_rows_eq ex_view_def)
  moreover have "ex_db ?s' = ex_db s" using q(1) ex_db_simps(1) [of ?s q] by simp
  moreover have "ex_outside ?s' = ex_outside s"
    using m by (auto simp: ex_outside_def fun_eq_iff)
  ultimately show ?thesis using assms by (auto simp: ex_ok_def ex_view_def fun_eq_iff)
qed

lemma ex_commit:
  assumes "ex_ok s" "worker_completeStep m c v s = (r, s')"
  shows "ex_ok s' \<and> ex_occurrences s' = ex_occurrences s \<and>
    ex_view s' = (case r of Inr _ \<Rightarrow> (ex_view s)(c \<mapsto> v) | Inl _ \<Rightarrow> ex_view s)"
proof -
  from assms(1) obtain q where q: "ex_db s = Some q"
    "unfenced_run (cr_task_id (ex_task s)) (cr_run_id (ex_task s)) q" by (auto simp: ex_ok_def)
  let ?ti = "cr_task_id (ex_task s)" and ?i = "cr_run_id (ex_task s)"
  let ?r = "set_task_checkpoint_state (w_db_now s) ?ti c (Some v) ?i (Some (ex_claimTimeout s)) q"
  have m: "map_of (w_queues s) (ex_queue s) = Some q" using q(1) by (simp add: ex_db_def)
  show ?thesis
  proof (cases ?r)
    case (Inl e)
    then have "\<exists>x. r = Inl x" "s' = s"
      using assms(2) m by (auto simp: worker_completeStep_def map_error_def context_completeStep_def bind_ts_def
          store_setCheckpointState_def sql_void_eq or_null_def)
    then show ?thesis using assms(1) by auto
  next
    case (Inr q')
    let ?s' = "(set_queue (ex_queue s) q' s)\<lparr>ex_extensions := Suc (ex_extensions s)\<rparr>"
    have s': "r = Inr ()" "s' = ?s'"
      using assms(2) m Inr by (auto simp: worker_completeStep_def map_error_def context_completeStep_def bind_ts_def
          store_setCheckpointState_def sql_void_eq or_null_def onLeaseExtension_def)
    note new = set_checkpoint_unfenced [OF q(2) Inr]
    obtain x where "find_run ?i q = Some x" using set_checkpoint_run [OF Inr] by blast
    from set_checkpoint_effect [OF Inr this]
    have other: "k \<noteq> c \<Longrightarrow> get_task_checkpoint_state ?ti k q' = get_task_checkpoint_state ?ti k q" for k by simp
    have db: "ex_db s' = Some q'" "ex_task s' = ex_task s" by (simp_all add: s'(2))
    have "ex_view s' = (ex_view s)(c \<mapsto> v)"
    proof
      fix k
      show "ex_view s' k = ((ex_view s)(c \<mapsto> v)) k"
        using new(2) other [of k] by (cases "k = c") (auto simp: ex_view_def db q(1) or_null_def)
    qed
    moreover have "ex_ok s'" using new(1) by (auto simp: ex_ok_def db)
    ultimately show ?thesis by (simp add: s'(1)) (simp add: s'(2))
  qed
qed

interpretation ex: step_backend worker_beginStep worker_completeStep ex_view ex_occurrences ex_outside ex_ok
  by unfold_locales (use ex_begin ex_commit in blast)+

text \<open>The in-memory checkpoints of \<open>TestCurrentTask\<close> stand for those on PostgreSQL.\<close>

interpretation td: test_double "tk_begin None" tk_complete tk_checkpoints tk_occurrences
    "\<lambda>s. (tk_id s, tk_headers s, tk_checkpoints s, tk_env s)" "\<lambda>_. True"
    worker_beginStep worker_completeStep ex_view ex_occurrences ex_outside ex_ok
  by unfold_locales (simp add: tk_complete_def makeMemory_complete_def)

lemma worker_commit_error:
  "worker_completeStep n c v s = (Inl e, s') \<Longrightarrow> \<exists>x. e = StepPersistenceError n ''complete'' x"
  by (auto simp: worker_completeStep_def map_error_def split: prod.splits sum.splits)

text \<open>
  Property C23: what passes under \<open>TestCurrentTask\<close> passes in production. A handler whose step bodies have the same
  outcomes returns or fails with the same value on the in-memory test task and on PostgreSQL, over the same visible
  checkpoints, and leaves the same checkpoints; the one thing that can differ is a \<open>StepPersistenceError\<close> of a
  checkpoint write that PostgreSQL refuses.
\<close>

theorem test_task_agrees:
  assumes "ex_ok t" "ex_view t = tk_checkpoints s" "ex_occurrences t = (\<lambda>_. 0)"
    "test_run_effect (exec_prog (tk_begin None) tk_complete (on_state p)) s = (r, s')"
    "exec_prog worker_beginStep worker_completeStep (on_state p) t = (x, t')"
  shows "x = r \<and> ex_view t' = tk_checkpoints s' \<or> (\<exists>n e. x = Inl (StepPersistenceError n ''complete'' e))"
proof -
  let ?s = "s\<lparr>tk_occurrences := (\<lambda>_. 0)\<rparr>"
  have "td.agree ?s t" using assms(1-3) by (simp add: td.agree_def)
  from td.script_agrees [OF this _ assms(5)] assms(4)
  have "x = r \<and> td.agree s' t' \<or> (\<exists>e. x = Inl e \<and> td.refused e)" by (simp add: test_run_effect_def)
  moreover have "\<exists>n y. e = StepPersistenceError n ''complete'' y" if "td.refused e" for e
    using that worker_commit_error unfolding td.refused_def by blast
  ultimately show ?thesis by (auto simp: td.agree_def)
qed

section \<open>The outcome of a claimed task\<close>

lemma ignore_terminal_eq:
  "ignoreTerminalTaskError (sql_void n f) w = (case map_of (w_queues w) n of
     None \<Rightarrow> (Inl (DbError undefined_table), w)
   | Some q \<Rightarrow> (case f (w_db_now w) q of
        Inl e \<Rightarrow> (if err_code e \<in> {''AB001'', ''AB002''} then Inr () else Inl (DbError e), w)
      | Inr q' \<Rightarrow> (Inr (), set_queue n q' w)))"
  by (auto simp: ignoreTerminalTaskError_def catch_ts_def sql_void_eq isTerminalTaskError_def pgErrorCode_def
      undefined_table_def ret_def throw_def split: option.splits sum.splits)

lemma truncate_world [simp]:
  "w_queues (world.truncate s) = w_queues s" "w_db_now (world.truncate s) = w_db_now s"
  "w_js_now (world.truncate s) = w_js_now s"
  by (simp_all add: world.truncate_def)

lemma make_context [simp]:
  "w_queues (makeTaskContext n row ct w) = w_queues w" "w_db_now (makeTaskContext n row ct w) = w_db_now w"
  "w_js_now (makeTaskContext n row ct w) = w_js_now w" "ex_queue (makeTaskContext n row ct w) = n"
  "ex_task (makeTaskContext n row ct w) = row" "ex_occurrences (makeTaskContext n row ct w) = (\<lambda>_. 0)"
  by (simp_all add: makeTaskContext_def world.defs)

lemma context_view:
  "ex_view (makeTaskContext n row ct w) k = Option.bind (map_of (w_queues w) n) (\<lambda>q.
     map_option (\<lambda>c. or_null (c_state c)) (get_task_checkpoint_state (cr_task_id row) k q))"
  by (simp add: ex_view_def ex_db_def)

text \<open>
  Property C20: the Effect SDK's workers recover from a crash as the TypeScript SDK's do. An execution of a handler made
  of steps returned \<open>a\<close> and was lost; the next execution, over a database that still has the checkpoints, completes
  the task with \<open>a\<close>, writes no checkpoint and touches no other queue.
\<close>

theorem effect_crash_recovery:
  assumes "ex_ok s" "ex_occurrences s = (\<lambda>_. 0)"
    "quiet_prog ex_ok (\<lambda>s. (ex_view s, ex_occurrences s)) (p (cr_params row))"
    "exec_prog worker_beginStep worker_completeStep (p (cr_params row)) s = (Inr a, s')"
    "registrations (cr_task_name row) = Some (\<lambda>j. exec_prog worker_beginStep worker_completeStep (p j))"
    "map_of (w_queues w) queue = Some q" "queue_inv q" "unfenced_run (cr_task_id row) (cr_run_id row) q"
    "find_run (cr_run_id row) q = Some r" "r_state r = Running" "r_task r = cr_task_id row"
    "\<And>n v. ex_view s' n = Some v \<Longrightarrow>
       map_option (\<lambda>c. or_null (c_state c)) (get_task_checkpoint_state (cr_task_id row) n q) = Some v"
  shows "\<exists>w' q'. executeClaimedTask so st queue row registrations ct w = (Inr (), w') \<and>
     map_of (w_queues w') queue = Some q' \<and>
     get_task_result (cr_task_id row) q'
       = Some \<lparr>tr_state = Completed, tr_result = Some a, tr_failure_reason = None\<rparr> \<and>
     checkpoints q' = checkpoints q \<and>
     (\<forall>m. m \<noteq> queue \<longrightarrow> map_of (w_queues w') m = map_of (w_queues w) m)"
proof -
  let ?t = "makeTaskContext queue row ct w"
  obtain t where t: "find_task (r_task r) q = Some t" using find_run_same_task [OF assms(7,9)] by blast
  have ok: "ex_ok ?t" using assms(6,8) by (simp add: ex_ok_def ex_db_def)
  have "ex_view ?t n = Some v" if "ex_view s' n = Some v" for n v
    using assms(12) [OF that] by (simp add: context_view assms(6))
  then have "ex_view s' \<subseteq>\<^sub>m ex_view ?t" by (auto simp: map_le_def)
  with ex.exec_replay [OF assms(1,3,4) ok] obtain s2 where
    s2: "exec_prog worker_beginStep worker_completeStep (p (cr_params row)) ?t = (Inr a, s2)"
      "ex_outside s2 = ex_outside ?t" using assms(2) by auto
  have same: "map_of (w_queues s2) = map_of (w_queues w)" using s2(2) by (simp add: ex_outside_def)
  from complete_run_result [OF assms(9,10) t] obtain q' where
    "complete_run (w_db_now s2) (cr_run_id row) (Some a) q = Inr q'"
    "get_task_result (cr_task_id row) q' = Some \<lparr>tr_state = Completed, tr_result = Some a, tr_failure_reason = None\<rparr>"
    "checkpoints q' = checkpoints q" using assms(11) by metis
  with same show ?thesis
    using assms(5,6) s2(1)
    by (simp add: executeClaimedTask_def eff_completeRun_def store_completeRun_def ignore_terminal_eq or_null_def)
qed

section \<open>The lease watchdog\<close>

lemma watchdog_from:
  "foldl (watchdog_step fatal) d signals = Terminated \<longleftrightarrow>
     d = Terminated \<or> d = Warned \<and> (\<exists>rest. signals = Expired # rest) \<or>
       d \<noteq> Silent \<and> fatal \<and> (\<exists>pre rest. signals = pre @ Expired # Expired # rest)"
proof (induction signals arbitrary: d)
  case (Cons x xs)
  have split: "(\<exists>pre rest. x # xs = pre @ Expired # Expired # rest) \<longleftrightarrow>
      (x = Expired \<and> (\<exists>rest. xs = Expired # rest)) \<or> (\<exists>pre rest. xs = pre @ Expired # Expired # rest)"
    by (auto simp: Cons_eq_append_conv)
  show ?case
    unfolding foldl.simps Cons.IH split by (cases d; cases x) (auto)
qed simp

text \<open>
  Property C24: the watchdog ends the process only for a task that stayed silent for two leases in a row. With a positive
  lease it has terminated exactly when it is fatal and the signals contain two consecutive expiries with no extension
  between them; without a lease, or when not fatal, it never terminates.
\<close>

theorem watchdog_fatal:
  "leaseWatchdog claimTimeout fatal signals = Terminated \<longleftrightarrow>
     0 < claimTimeout \<and> fatal \<and> (\<exists>pre rest. signals = pre @ Expired # Expired # rest)"
  by (auto simp: leaseWatchdog_def watchdog_from)

section \<open>Typed tasks end to end\<close>

lemma decode_all_member:
  "decode_all f xs = Inr ys \<Longrightarrow> y \<in> set ys \<Longrightarrow> \<exists>x \<in> set xs. f x = Inr y"
  by (induction xs arbitrary: ys) (auto simp: bind_result_Inr)

lemma decode_claimed_Inr:
  "decode_claimed row = Inr c \<Longrightarrow> cr_run_id c = ct_run_id row \<and> cr_task_id c = ct_task_id row \<and>
    cr_task_name c = ct_task_name row \<and> cr_params c = ct_params row \<and>
    (\<forall>kvs. ct_headers row = Some (JObj kvs) \<longrightarrow> cr_headers c = Some (JObj kvs))"
  by (auto simp: decode_claimed_def bind_result_Inr)

text \<open>What a claim hands out is the task as it was spawned.\<close>

lemma claimed_from_task:
  assumes "claim_task now worker timeout qty q = Inr (rows, q')" "queue_inv q" "row \<in> set rows"
    "find_task (ct_task_id row) q = Some t"
  shows "ct_params row = t_params t \<and> ct_task_name row = t_name t \<and> ct_headers row = t_headers t"
  using assms(1)
proof (cases rule: claim_task_cases)
  case (1 q1 q2)
  have "evolves q q1" "queue_inv q1"
    using apply_cancellations_evolves apply_cancellations_inv assms(2) 1(1) by blast+
  moreover have "evolves q1 q2" using sweep_expired_evolves [OF calculation(2) 1(2)] .
  ultimately have "evolves q q2" using evolves_trans by blast
  from evolves_find_task [OF this assms(4)] obtain t2 where
    t2: "find_task (ct_task_id row) q2 = Some t2" "task_change t t2" by blast
  from assms(3) 1(3) obtain r where "row = claimed_row q2 r" by auto
  then show ?thesis using t2 by (simp add: claimed_row_def Let_def task_change_def)
qed

lemma claimTasks_rows:
  assumes "store_claimTasks queue wid ct n w = (Inr rows, w')" "c \<in> set rows"
  obtains q q' claimed row where "map_of (w_queues w) queue = Some q"
    "claim_task (w_db_now w) wid ct n q = Inr (claimed, q')" "row \<in> set claimed" "decode_claimed row = Inr c"
proof -
  from assms(1) obtain claimed w1 where s: "sql queue (\<lambda>now. claim_task now wid ct n) w = (Inr claimed, w1)"
    and d: "decode_all decode_claimed claimed = Inr rows"
    by (cases "sql queue (\<lambda>now. claim_task now wid ct n) w")
      (auto simp: store_claimTasks_def bind_ts_def check_def split: sum.splits)
  from s obtain q q' where "map_of (w_queues w) queue = Some q" "claim_task (w_db_now w) wid ct n q = Inr (claimed, q')"
    by (rule sql_Inr)
  moreover from decode_all_member [OF d assms(2)] obtain row where "row \<in> set claimed" "decode_claimed row = Inr c"
    by blast
  ultimately show ?thesis by (rule that)
qed

lemma spawn_new_task:
  assumes "spawn_task now n p opts q = Inr (row, q')" "queue_inv q" "read_spawn_options opts = Inr cols"
    "\<forall>k. sc_idempotency_key cols = Some k \<longrightarrow> key_task k q = None"
  shows "\<exists>t. find_task (s_task row) q' = Some t \<and> t_name t = n \<and>
    t_params t = (case p of None \<Rightarrow> JNull | Some j \<Rightarrow> j) \<and> t_headers t = sc_headers cols"
  using assms(1)
proof (cases rule: spawn_task_cases)
  case (created cols' xs)
  have "find_task (uuids q) q = None"
    using queue_inv_coreD [OF assms(2)] by (fastforce simp: find_task_def core_inv_def tbl_simps)
  with created show ?thesis
    using assms(3) by (auto simp: find_task_def insert_task_def tbl_find_append)
next
  case (existing cols' t k)
  have "find_task (t_id t) q = Some t" using find_task_eq [OF assms(2) existing(4)] by simp
  moreover have "tbl_find (\<lambda>t. t_idempotency_key t = Some k) (tasks q) \<noteq> None" if "t_idempotency_key t = Some k"
    using existing(4) that by (auto simp: tbl_find_None simp del: not_None_eq)
  ultimately have "key_task k q \<noteq> None"
    using existing(7) by (auto simp: key_task_def split: storage_mode.splits)
  then show ?thesis using assms(3,4) existing(1,2) by simp
qed

text \<open>
  Property C21: a typed payload survives its way through the database. A task spawned with an input from which the
  payload \<open>p\<close> was constructed, and whose idempotency key, if it has one, no task of the queue had before, is claimed
  under its own name, and its handler is run on exactly \<open>p\<close>: the codec's encoding, the \<open>jsonb\<close> columns, whatever else
  happened in the queues meanwhile, and the decoding together are the identity. With a key that is in use the spawn
  gives the earlier task, which keeps its own payload.
\<close>

theorem task_payload_roundtrip:
  assumes "task_spawn def absurd_store input options w = (Inr i, w1)" "world_inv w"
    "td_construct def input = Inr p"
    "\<forall>k q. task_key def p options = Some k \<longrightarrow> map_of (w_queues w) (td_queue def) = Some q \<longrightarrow> key_task k q = None"
    "round_trips (td_encodePayload def) (td_decodePayload def)" "db_others w1 w2"
    "store_claimTasks (td_queue def) wid ct n w2 = (Inr rows, w3)" "row \<in> set rows" "cr_task_id row = i"
  shows "cr_task_name row = td_name def \<and>
     (\<forall>kvs. es_headers options = Some (JObj kvs) \<longrightarrow> cr_headers row = Some (JObj kvs)) \<and>
     ah_execute (task_handler def execute) (cr_params row) s =
       bind_ts (execute p) (\<lambda>v. map_error (TaskSuccessEncodeError (td_name def)) (check (td_encodeSuccess def v))) s"
proof -
  from assms(1) obtain payload encoded where "td_construct def input = Inr payload"
    "td_encodePayload def payload = Inr encoded"
    "store_spawn absurd_store \<lparr>rq_name = td_name def, rq_payload = encoded,
       rq_options = routedOptions def payload options\<rparr> w = (Inr i, w1)" by (rule pg.spawn_cases)
  then have enc: "td_encodePayload def p = Inr encoded"
    and sp: "absurd_spawn \<lparr>rq_name = td_name def, rq_payload = encoded, rq_options = routedOptions def p options\<rparr> w
      = (Inr i, w1)"
    using assms(3) by (simp_all add: absurd_store_def)
  from sp obtain q q1 r where 1: "map_of (w_queues w) (td_queue def) = Some q"
    "spawn_task (w_db_now w) (td_name def) (Some encoded)
       (Some (spawnOptionsToJson (routedOptions def p options))) q = Inr (r, q1)"
    "i = s_task r" "w1 = set_queue (td_queue def) q1 w"
    by (rule absurd_spawn_Inr) (simp add: routedOptions_def)
  obtain cols where cols: "read_spawn_options (Some (spawnOptionsToJson (routedOptions def p options))) = Inr cols"
    using spawn_task_options [OF 1(2)] by blast
  have k: "\<forall>k. sc_idempotency_key cols = Some k \<longrightarrow> key_task k q = None" "sc_headers cols = es_headers options"
    using spawnOptionsToJson_key [OF cols] assms(4) 1(1) by (simp_all add: routedOptions_def)
  have rq: "reachable (q_mode q) q" using assms(2) 1(1) by (simp add: world_inv_def)
  from spawn_new_task [OF 1(2) reachable_inv [OF rq] cols k(1)] obtain t where
    t: "find_task i q1 = Some t" "t_name t = td_name def" "t_params t = encoded" "t_headers t = es_headers options"
    by (auto simp: 1(3) k(2))
  have r1: "reachable (q_mode q) q1" using rq 1(2) by (blast intro: reachable.step queue_step.spawn)
  from assms(7,8) show ?thesis
  proof (rule claimTasks_rows)
    fix q2 q3 claimed c
    assume 2: "map_of (w_queues w2) (td_queue def) = Some q2" "claim_task (w_db_now w2) wid ct n q2 = Inr (claimed, q3)"
      "c \<in> set claimed" "decode_claimed c = Inr row"
    have "queue_step\<^sup>*\<^sup>* q1 q2" using db_othersD [OF assms(6), of "td_queue def" q1] 2(1) by (simp add: 1(4))
    from queue_steps_evolve [OF this reachable_inv [OF r1]] have "evolves q1 q2" "queue_inv q2" by simp_all
    moreover from evolves_find_task [OF this(1) t(1)] obtain t2 where
      "find_task i q2 = Some t2" "task_change t t2" by blast
    moreover note d = decode_claimed_Inr [OF 2(4)]
    ultimately have "ct_params c = encoded \<and> ct_task_name c = td_name def \<and> ct_headers c = es_headers options"
      using claimed_from_task [OF 2(2) _ 2(3), of t2] t assms(9) by (simp add: task_change_def)
    moreover have "td_decodePayload def encoded = Inr p" using assms(5) enc by (simp add: round_trips_def)
    ultimately show ?thesis
      using d by (simp add: task_handler_def bind_ts_def map_error_def)
  qed
qed

text \<open>
  Property C22: a typed result survives too, and is final. When the handler of a claimed task returned \<open>a\<close> while its run
  was running, the worker reports success, and \<open>Task.status\<close> answers \<open>Completed a\<close> from then on, whatever
  other operations follow.
\<close>

theorem task_result_roundtrip:
  assumes "registrations (cr_task_name row) = Some (executeHandler (task_handler def execute))"
    "td_decodePayload def (cr_params row) = Inr p"
    "execute p (makeTaskContext (td_queue def) row ct w) = (Inr a, s1)" "td_encodeSuccess def a = Inr v"
    "round_trips (td_encodeSuccess def) (td_decodeSuccess def)" "world_inv s1"
    "map_of (w_queues s1) (td_queue def) = Some q" "find_run (cr_run_id row) q = Some r" "r_state r = Running"
    "r_task r = cr_task_id row"
  shows "\<exists>w'. executeClaimedTask so st (td_queue def) row registrations ct w = (Inr (), w') \<and>
     (\<forall>w2. db_others w' w2 \<longrightarrow>
        fst (task_status def absurd_store show_id (cr_task_id row) w2) = Inr (Ts_Completed a))"
proof -
  let ?n = "td_queue def" and ?i = "cr_task_id row"
  have rq: "reachable (q_mode q) q" using assms(6,7) by (simp add: world_inv_def)
  obtain t where t: "find_task (r_task r) q = Some t"
    using find_run_same_task [OF reachable_inv [OF rq] assms(8)] by blast
  from complete_run_result [OF assms(8,9) t] obtain q' where c:
    "complete_run (w_db_now s1) (cr_run_id row) (Some v) q = Inr q'"
    "get_task_result ?i q' = Some \<lparr>tr_state = Completed, tr_result = Some v, tr_failure_reason = None\<rparr>"
    using assms(10) by metis
  let ?w = "set_queue ?n q' (world.truncate s1)"
  have run: "executeClaimedTask so st ?n row registrations ct w = (Inr (), ?w)"
    using assms(1-4,7) c(1)
    by (simp add: executeClaimedTask_def executeHandler_def task_handler_def eff_completeRun_def store_completeRun_def
        ignore_terminal_eq or_null_def map_error_def bind_ts_def)
  have r': "reachable (q_mode q) q'" using rq c(1) by (blast intro: reachable.step queue_step.complete)
  have "fst (task_status def absurd_store show_id ?i w2) = Inr (Ts_Completed a)" if o: "db_others ?w w2" for w2 :: world
  proof -
    obtain q2 where q2: "map_of (w_queues w2) ?n = Some q2" "queue_step\<^sup>*\<^sup>* q' q2"
      using db_othersD [OF o, of ?n q'] by auto
    from c(2) obtain t' where t': "find_task ?i q' = Some t'" "t_state t' = Completed" "t_completed_payload t' = Some v"
      by (auto simp: get_task_result_def split: if_splits)
    from evolves_find_task [OF _ t'(1)] queue_steps_evolve [OF q2(2) reachable_inv [OF r']]
    have "find_task ?i q2 = Some t'" using t'(2) by (auto simp: task_change_def)
    then have "get_task_result ?i q2 = Some \<lparr>tr_state = Completed, tr_result = Some v, tr_failure_reason = None\<rparr>"
      using t' by (simp add: get_task_result_def)
    moreover have "td_decodeSuccess def v = Inr a" using assms(4,5) by (simp add: round_trips_def)
    ultimately show ?thesis
      using q2(1) by (simp add: task_status_def absurd_store_def absurd_status_def store_taskResult_def sql_rows_eq
          bind_ts_def map_error_def statusFromRow_def or_null_def decodeStatus_def)
  qed
  with run show ?thesis by blast
qed

section \<open>The worker loop\<close>

lemma store_claimTasks_length:
  assumes "store_claimTasks queue wid ct n w = (Inr rows, w')"
  shows "int (length rows) \<le> max n 1"
proof -
  have len: "decode_all f xs = Inr ys \<Longrightarrow> length ys = length xs" for f :: "claimed_task \<Rightarrow> exn + ClaimedRow" and xs ys
    by (induction xs arbitrary: ys) (auto simp: bind_result_Inr)
  from assms obtain claimed w1 where s: "sql queue (\<lambda>now. claim_task now wid ct n) w = (Inr claimed, w1)"
    and d: "decode_all decode_claimed claimed = Inr rows"
    by (cases "sql queue (\<lambda>now. claim_task now wid ct n) w")
      (auto simp: store_claimTasks_def bind_ts_def check_def split: sum.splits)
  from s obtain q q' where "claim_task (w_db_now w) wid ct n q = Inr (claimed, q')" by (rule sql_Inr)
  then have "int (length claimed) \<le> max n 1" by (cases rule: claim_task_cases) auto
  with len [OF d] show ?thesis by simp
qed

lemma eff_claim_length:
  "eff_claim c n w = (Inr rows, w') \<Longrightarrow> int (length rows) \<le> max n 1"
  by (auto simp: eff_claim_def throw_def split: jsnum.splits dest: store_claimTasks_length)

interpretation eff_loop: polling_loop ew_phase "\<lambda>k. length (ew_executions k)" "\<lambda>k. \<not> ew_stop k" "ec_concurrency c"
    "eff_step c" for c
proof unfold_locales
  fix k k' :: eff_worker and w w' :: world
  assume "eff_step c (k, w) (k', w')"
  then show "loop_move (ec_concurrency c) (ew_phase k, length (ew_executions k), \<not> ew_stop k)
      (ew_phase k', length (ew_executions k'), \<not> ew_stop k')"
  proof (cases rule: eff_stepE)
    case poll
    then show ?thesis
      by (cases "ew_stop k") (auto simp: eff_poll_def Let_def intro: loop_move.intros)
  next
    case (claim n r)
    show ?thesis
    proof (cases "\<exists>x xs. r = Inr (x # xs)")
      case True
      then obtain x xs where r: "r = Inr (x # xs)" by blast
      with claim(3) eff_claim_length have "int (length (x # xs)) \<le> max n 1" by blast
      with loop_move.answer [of "length (x # xs)" n] show ?thesis
        by (simp add: claim(1,2) r eff_claimed_def)
    next
      case False
      then have "eff_claimed r k = k\<lparr>ew_phase := Waiting\<rparr>"
        by (auto simp: eff_claimed_def split: sum.split list.split)
      then show ?thesis by (simp add: claim(1,2) loop_move.nothing)
    qed
  next
    case (settle task)
    then have "length (ew_executions k) = Suc (length (ew_executions k'))"
      by (simp add: eff_settle_def length_remove1) (metis Suc_pred length_pos_if_in_set)
    then show ?thesis using settle by (auto simp: eff_settle_def intro: loop_move.intros)
  qed (auto intro: loop_move.intros)
next
  fix k :: eff_worker and w :: world
  assume k: "ew_phase k \<noteq> Stopped" "\<not> \<not> ew_stop k"
  show "\<exists>k' w'. eff_step c (k, w) (k', w') \<and>
      (ew_phase k' \<noteq> ew_phase k \<or> length (ew_executions k') \<noteq> length (ew_executions k))"
  proof (cases "ew_phase k")
    case Polling
    with eff_step.poll [OF Polling, of c w] k show ?thesis by (intro exI conjI) (auto simp: eff_poll_def)
  next
    case (Claiming n)
    obtain r w' where "eff_claim c n w = (r, w')" by fastforce
    moreover have "ew_phase (eff_claimed r k) \<in> {Waiting, Polling}"
      by (simp add: eff_claimed_def split: sum.split list.split)
    ultimately show ?thesis using eff_step.claim [OF Claiming] Claiming by fastforce
  next
    case Waiting
    with eff_step.timer [OF Waiting, of c w] show ?thesis by (intro exI conjI) auto
  next
    case Draining
    show ?thesis
    proof (cases "ew_executions k")
      case Nil
      with eff_step.drained [OF Draining Nil, of c w] Draining show ?thesis by (intro exI conjI) auto
    next
      case (Cons task ts)
      with eff_step.settle [of task k c w] show ?thesis by (intro exI conjI) (auto simp: eff_settle_def)
    qed
  qed (use k in simp)
qed

lemma eff_started_within: "0 \<le> ec_concurrency c \<Longrightarrow> eff_loop.within c eff_started"
  by (simp add: eff_loop.within_def eff_started_def)

text \<open>
  The Effect worker keeps to its concurrency and shuts down. Whatever order claims, executions, timers,
  availability tokens and a close come in, at most \<open>concurrency\<close> tasks are in execution, and once the worker has ended
  after a close no execution is under way; until then a closed worker always has a step that brings it nearer to
  its end.
\<close>

lemma effect_worker_capacity:
  assumes "(eff_step c)\<^sup>*\<^sup>* (eff_started, w0) (k, w)" "0 \<le> ec_concurrency c"
  shows "int (length (ew_executions k)) \<le> ec_concurrency c \<and>
     (ew_phase k = Stopped \<longrightarrow> ew_executions k = []) \<and>
     (ew_stop k \<and> ew_phase k \<noteq> Stopped \<longrightarrow> (\<exists>k' w'. eff_step c (k, w) (k', w') \<and>
        phase_bound (ew_phase k') + length (ew_executions k') < phase_bound (ew_phase k) + length (ew_executions k)))"
  using eff_loop.capacity(1) [OF assms(1) eff_started_within [OF assms(2)]]
    eff_loop.drained [OF eff_loop.steps_within [OF assms(1) eff_started_within [OF assms(2)]]]
    eff_loop.shutdown [of k c w]
  by (simp add: eff_loop.bound_def)

section \<open>Keys of the two stores\<close>

lemma run_entry_nil [simp]: "run_entry [] pretty m s = (Inr (), s)"
  by (simp add: run_entry_def byName_def ret_def split: option.split)

lemma one_key_one_task:
  assumes "absurd_spawn r1 w = (Inr i, w1)" "absurd_spawn r2 w1 = (Inr j, w2)" "world_inv w"
    "es_queue (rq_options r2) = es_queue (rq_options r1)"
    "es_idempotencyKey (rq_options r1) = Some k" "es_idempotencyKey (rq_options r2) = Some k"
  shows "j = i"
proof -
  from assms(1) obtain q q1 x where 1: "map_of (w_queues w) (es_queue (rq_options r1)) = Some q"
    "spawn_task (w_db_now w) (rq_name r1) (Some (rq_payload r1)) (Some (spawnOptionsToJson (rq_options r1))) q = Inr (x, q1)"
    "i = s_task x" "w1 = set_queue (es_queue (rq_options r1)) q1 w" by (rule absurd_spawn_Inr)
  from assms(2) obtain q2 y where 2: "j = s_task y"
    "spawn_task (w_db_now w1) (rq_name r2) (Some (rq_payload r2)) (Some (spawnOptionsToJson (rq_options r2))) q1 = Inr (y, q2)"
    by (rule absurd_spawn_Inr) (simp add: 1(4) assms(4))
  obtain cols cols2 where
    "read_spawn_options (Some (spawnOptionsToJson (rq_options r1))) = Inr cols"
    "read_spawn_options (Some (spawnOptionsToJson (rq_options r2))) = Inr cols2"
    using spawn_task_options [OF 1(2)] spawn_task_options [OF 2(2)] by blast
  moreover have "reachable (q_mode q) q" using assms(3) 1(1) by (simp add: world_inv_def)
  ultimately show ?thesis
    using spawn_again [OF _ 1(2) rtranclp.rtrancl_refl _ _ 2(2)] spawnOptionsToJson_key(1) assms(5,6) 1(3) 2(1) by metis
qed

lemma two_names_two_tasks:
  assumes "test_spawn [] pretty r1 (empty_store env) = (Inr a, s1)" "test_spawn [] pretty r2 s1 = (Inr b, s2)"
    "rq_name r2 \<noteq> rq_name r1" "es_queue (rq_options r2) = es_queue (rq_options r1)"
    "es_idempotencyKey (rq_options r1) = Some k" "es_idempotencyKey (rq_options r2) = Some k"
  shows "b \<noteq> a"
proof -
  have "scoped_key r2 k \<noteq> scoped_key r1 k" using assms(3,4) by (simp add: scoped_key_def)
  then have "a = test_id 1" "b = test_id (Suc (Suc 0))"
    using assms by (auto simp: test_spawn_def empty_store_def insert_entry_def Let_def bind_ts_def)
  then show ?thesis using test_id_inj by fastforce
qed

text \<open>
  The test store does not have the key rule of PostgreSQL. Two tasks of different names spawned in one
  queue with one idempotency key are one task on PostgreSQL, which silently drops the second task's payload; the
  in-memory \<open>TestTaskStore\<close>, which scopes keys by task name, makes two. A test therefore passes for code whose second
  task is never run.
\<close>

lemma test_store_key_scope:
  assumes "rq_name r2 \<noteq> rq_name r1" "es_queue (rq_options r2) = es_queue (rq_options r1)"
    "es_idempotencyKey (rq_options r1) = Some k" "es_idempotencyKey (rq_options r2) = Some k" "world_inv w"
    "absurd_spawn r1 w = (Inr i, w1)" "absurd_spawn r2 w1 = (Inr j, w2)"
    "test_spawn [] pretty r1 (empty_store env) = (Inr a, s1)" "test_spawn [] pretty r2 s1 = (Inr b, s2)"
  shows "j = i \<and> b \<noteq> a"
  using one_key_one_task [OF assms(6,7,5,2-4)] two_names_two_tasks [OF assms(8,9,1-4)] by simp

section \<open>Concrete instances\<close>

definition demo_row :: ClaimedRow where
  "demo_row = \<lparr>cr_run_id = 1, cr_task_id = 0, cr_attempt = 1, cr_task_name = ''job'', cr_params = JNum 1, cr_headers = None\<rparr>"

definition demo_exec :: execution where
  "demo_exec = makeTaskContext ''default'' demo_row 120 (demo_world demo_claimed)"

definition demo_script :: "json script" where
  "demo_script = Script_step ''a'' Inr Inr (Inr (JNum 1))
     (\<lambda>_. Script_step ''a'' Inr Inr (Inr (JNum 2)) Script_return)"

definition demo_exec_end :: execution where
  "demo_exec_end = snd (exec_prog worker_beginStep worker_completeStep (on_state demo_script) demo_exec)"

definition demo_kept :: qstate where
  "demo_kept = the (ex_db demo_exec_end)"

definition demo_again :: qstate where
  "demo_again = queue_after (claim_task 200000000 ''v'' 120 1 demo_kept)"

definition demo_second :: ClaimedRow where
  "demo_second = demo_row\<lparr>cr_run_id := 2, cr_attempt := 2\<rparr>"

lemma demo_exec_ok: "ex_ok demo_exec" "ex_occurrences demo_exec = (\<lambda>_. 0)"
proof -
  have "unfenced_run 0 1 demo_claimed" by code_simp
  then show "ex_ok demo_exec" "ex_occurrences demo_exec = (\<lambda>_. 0)"
    by (simp_all add: demo_exec_def ex_ok_def ex_db_def demo_world_def demo_row_def makeTaskContext_def world.defs)
qed

lemma demo_exec_runs:
  "exec_prog worker_beginStep worker_completeStep (on_state demo_script) demo_exec = (Inr (JNum 2), demo_exec_end)"
proof -
  have "fst (exec_prog worker_beginStep worker_completeStep (on_state demo_script) demo_exec) = Inr (JNum 2)" by code_simp
  then show ?thesis by (simp add: demo_exec_end_def prod_eq_iff)
qed

lemma demo_exec_end_facts:
  "ex_db demo_exec_end = Some demo_kept" "ex_task demo_exec_end = demo_row" "queue_inv demo_kept"
proof -
  have "ex_db demo_exec_end \<noteq> None" by code_simp
  then show "ex_db demo_exec_end = Some demo_kept" by (auto simp: demo_kept_def)
  show "ex_task demo_exec_end = demo_row" by code_simp
  show "queue_inv demo_kept" by code_simp
qed

lemma demo_again_run: "map_option (\<lambda>r. (r_state r, r_task r)) (find_run 2 demo_again) = Some (Running, 0)"
  by code_simp

lemma demo_again_checkpoints: "checkpoints demo_again = checkpoints demo_kept"
  by code_simp

lemma demo_again_unfenced: "unfenced_run 0 2 demo_again"
  by code_simp

lemma demo_again_inv: "queue_inv demo_again"
proof (cases "claim_task 200000000 ''v'' 120 1 demo_kept")
  case (Inl e)
  then show ?thesis
    by (simp add: demo_again_def queue_after_def) code_simp
next
  case (Inr x)
  then show ?thesis
    using claim_task_inv [of demo_kept 200000000 "''v''" 120 1 "fst x" "snd x"] demo_exec_end_facts(3)
    by (cases x) (simp add: demo_again_def queue_after_def)
qed

theorem test_task_agrees_witness:
  "exec_prog (tk_begin None) tk_complete (on_state demo_script) (test_make None None ())
     = (Inr (JNum 2), snd (exec_prog (tk_begin None) tk_complete (on_state demo_script) (test_make None None ()))) \<and>
   ex_view demo_exec_end
     = tk_checkpoints (snd (exec_prog (tk_begin None) tk_complete (on_state demo_script) (test_make None None ())))"
proof -
  let ?m = "exec_prog (tk_begin None) tk_complete (on_state demo_script) (test_make None None ())"
  have m: "fst ?m = Inr (JNum 2)" by code_simp
  have v: "ex_view demo_exec = tk_checkpoints (test_make None None ())"
  proof
    fix n
    have "checkpoints demo_claimed = []" by code_simp
    then show "ex_view demo_exec n = tk_checkpoints (test_make None None ()) n"
      by (simp add: demo_exec_def context_view demo_world_def test_make_def get_task_checkpoint_state_def find_checkpoint_def)
  qed
  have r: "test_run_effect (exec_prog (tk_begin None) tk_complete (on_state demo_script)) (test_make None None ())
      = (Inr (JNum 2), snd ?m)" using m by (simp add: test_run_effect_def test_make_def prod_eq_iff)
  from test_task_agrees [OF demo_exec_ok(1) v demo_exec_ok(2) r demo_exec_runs] show ?thesis
    using m by (simp add: prod_eq_iff)
qed

theorem effect_crash_recovery_witness:
  "\<exists>w' q'. executeClaimedTask (\<lambda>_. None) (\<lambda>_. []) ''default'' demo_second
       [''job'' \<mapsto> \<lambda>_. exec_prog worker_beginStep worker_completeStep (on_state demo_script)] 120 (demo_world demo_again)
       = (Inr (), w') \<and> map_of (w_queues w') ''default'' = Some q' \<and>
     get_task_result 0 q' = Some \<lparr>tr_state = Completed, tr_result = Some (JNum 2), tr_failure_reason = None\<rparr> \<and>
     checkpoints q' = checkpoints demo_kept"
proof -
  have quiet: "quiet_prog ex_ok (\<lambda>s. (ex_view s, ex_occurrences s)) (on_state demo_script)"
    by (simp add: demo_script_def round_trips_def quiet_def)
  obtain r where r: "find_run 2 demo_again = Some r" "r_state r = Running" "r_task r = 0"
    using demo_again_run by auto
  have seen: "map_option (\<lambda>c. or_null (c_state c)) (get_task_checkpoint_state 0 n demo_again) = Some v"
    if "ex_view demo_exec_end n = Some v" for n v
    using that by (simp add: ex_view_def demo_exec_end_facts demo_again_checkpoints demo_row_def
        get_task_checkpoint_state_def find_checkpoint_def)
  from effect_crash_recovery [OF demo_exec_ok, of "\<lambda>_. on_state demo_script" demo_second "JNum 2" demo_exec_end
      "[''job'' \<mapsto> \<lambda>_. exec_prog worker_beginStep worker_completeStep (on_state demo_script)]" "demo_world demo_again"
      "''default''" demo_again r "\<lambda>_. None" "\<lambda>_. []" 120]
  show ?thesis
    using quiet demo_exec_runs demo_again_inv demo_again_unfenced demo_again_checkpoints r seen
    by (auto simp: demo_second_def demo_row_def demo_world_def)
qed

definition demo_def :: "(json, json, json) Definition" where
  "demo_def = \<lparr>td_name = ''job'', td_queue = ''default'', td_construct = Inr, td_encodePayload = Inr,
     td_decodePayload = Inr, td_encodeSuccess = Inr, td_decodeSuccess = Inr, td_idempotencyKey = None,
     td_maxAttempts = None, td_cancellation = None\<rparr>"

definition demo_spawn_options :: TaskSpawnOptions where
  "demo_spawn_options = \<lparr>es_maxAttempts = None, es_retry = None, es_headers = None, es_cancellation = None,
     es_idempotencyKey = None\<rparr>"

definition demo_spawned :: "exn + uuid" where
  "demo_spawned = fst (task_spawn demo_def absurd_store (JNum 7) demo_spawn_options (demo_world (empty_queue Unpartitioned)))"

definition demo_spawned_world :: world where
  "demo_spawned_world = snd (task_spawn demo_def absurd_store (JNum 7) demo_spawn_options (demo_world (empty_queue Unpartitioned)))"

lemma demo_world_inv: "reachable Unpartitioned q \<Longrightarrow> world_inv (demo_world q)"
  by (auto simp: world_inv_def demo_world_def intro: reachable_self)

theorem task_payload_roundtrip_witness:
  "\<exists>w1 row w3. task_spawn demo_def absurd_store (JNum 7) demo_spawn_options (demo_world (empty_queue Unpartitioned)) = (Inr 0, w1) \<and>
     store_claimTasks ''default'' ''w'' 30 1 w1 = (Inr [row], w3) \<and> cr_task_name row = ''job'' \<and>
     ah_execute (task_handler demo_def (\<lambda>p. ret p)) (cr_params row) w3 = (Inr (JNum 7), w3)"
proof -
  let ?q = "empty_queue Unpartitioned"
  have "demo_spawned = Inr 0" by code_simp
  then have s: "task_spawn demo_def absurd_store (JNum 7) demo_spawn_options (demo_world ?q) = (Inr 0, demo_spawned_world)"
    by (simp add: demo_spawned_def demo_spawned_world_def prod_eq_iff)
  let ?m = "store_claimTasks ''default'' ''w'' 30 1 demo_spawned_world"
  have "(case fst ?m of Inr rows \<Rightarrow> map cr_task_id rows = [0] \<and> map cr_params rows = [JNum 7] | Inl _ \<Rightarrow> False)" by code_simp
  then obtain row w3 where m: "?m = (Inr [row], w3)" "cr_task_id row = 0" "cr_params row = JNum 7"
    by (cases ?m) (auto split: sum.splits)
  have inv: "world_inv (demo_world ?q)" by (rule demo_world_inv) (rule reachable.intros)
  from task_payload_roundtrip [OF s inv, of "JNum 7" demo_spawned_world "''w''" 30 1 "[row]" w3 row ret w3] m s
  show ?thesis
    by (auto simp: demo_def_def demo_spawn_options_def task_key_def round_trips_def db_others_refl map_error_def bind_ts_def)
qed

theorem task_result_roundtrip_witness:
  "\<exists>w'. executeClaimedTask (\<lambda>_. None) (\<lambda>_. []) ''default'' demo_row
       [''job'' \<mapsto> executeHandler (task_handler demo_def (\<lambda>p. ret (JArr [p])))] 120 (demo_world demo_claimed) = (Inr (), w') \<and>
     fst (task_status demo_def absurd_store uuid_text 0 w') = Inr (Ts_Completed (JArr [JNum 1]))"
proof -
  have "map_option (\<lambda>r. (r_state r, r_task r)) (find_run 1 demo_claimed) = Some (Running, 0)" by code_simp
  then obtain r where r: "find_run 1 demo_claimed = Some r" "r_state r = Running" "r_task r = 0" by auto
  have inv: "world_inv (makeTaskContext ''default'' demo_row 120 (demo_world demo_claimed))"
    using demo_world_inv [OF demo_claimed_reachable] by (simp add: world_inv_def)
  from task_result_roundtrip [of "[''job'' \<mapsto> executeHandler (task_handler demo_def (\<lambda>p. ret (JArr [p])))]" demo_row demo_def
      "\<lambda>p. ret (JArr [p])" "JNum 1" 120 "demo_world demo_claimed" "JArr [JNum 1]" _ "JArr [JNum 1]" demo_claimed r
      "\<lambda>_. None" "\<lambda>_. []" uuid_text] inv r db_others_refl
  show ?thesis by (simp add: demo_def_def demo_row_def round_trips_def demo_world_def del: db_others_refl) blast
qed

definition demo_request :: "string \<Rightarrow> SpawnRequest" where
  "demo_request n = \<lparr>rq_name = n, rq_payload = JNum 7, rq_options = \<lparr>es_maxAttempts = None, es_retry = None,
     es_headers = None, es_cancellation = None, es_idempotencyKey = Some ''k'', es_queue = ''default''\<rparr>\<rparr>"

end
