(* ===== verification/Interleave.thy ===== *)
theory Interleave
  imports Main
begin

text \<open>
  Programs made of atomic statements, as trees: a program has ended with a failure or a value, or its next statement
  takes the state it meets to a new state and the program that remains. The statements of other processes run between
  those of a program; \<open>ends env\<close> are all ways in which it can end when the others move by \<open>env\<close>. What the workflow
  engine of the Effect SDK does is of this kind, with one statement for every query it sends.
\<close>

datatype ('s, 'e, 'a) proc = Exit "'e + 'a" | Act "'s \<Rightarrow> ('s, 'e, 'a) proc \<times> 's"

section \<open>Building programs\<close>

primrec match_proc :: "('s, 'e, 'a) proc \<Rightarrow> ('e + 'a \<Rightarrow> ('s, 'f, 'b) proc) \<Rightarrow> ('s, 'f, 'b) proc" where
  "match_proc (Exit r) k = k r"
| "match_proc (Act f) k = Act (\<lambda>s. map_prod (\<lambda>p. match_proc p k) (\<lambda>x. x) (f s))"

definition give :: "'a \<Rightarrow> ('s, 'e, 'a) proc" where
  "give a = Exit (Inr a)"

definition fail :: "'e \<Rightarrow> ('s, 'e, 'a) proc" where
  "fail e = Exit (Inl e)"

definition bind_proc :: "('s, 'e, 'a) proc \<Rightarrow> ('a \<Rightarrow> ('s, 'e, 'b) proc) \<Rightarrow> ('s, 'e, 'b) proc" where
  "bind_proc p k = match_proc p (\<lambda>r. case r of Inl e \<Rightarrow> fail e | Inr a \<Rightarrow> k a)"

text \<open>One statement, and one that cannot fail.\<close>

definition atomic :: "('s \<Rightarrow> ('e + 'a) \<times> 's) \<Rightarrow> ('s, 'e, 'a) proc" where
  "atomic m = Act (\<lambda>s. case m s of (r, s') \<Rightarrow> (Exit r, s'))"

definition local :: "('s \<Rightarrow> 'a \<times> 's) \<Rightarrow> ('s, 'e, 'a) proc" where
  "local m = Act (\<lambda>s. case m s of (a, s') \<Rightarrow> (Exit (Inr a), s'))"

definition get :: "('s \<Rightarrow> 'a) \<Rightarrow> ('s, 'e, 'a) proc" where
  "get f = local (\<lambda>s. (f s, s))"

definition modify :: "('s \<Rightarrow> 's) \<Rightarrow> ('s, 'e, unit) proc" where
  "modify f = local (\<lambda>s. ((), f s))"

text \<open>A loop over a list that ends at the first element for which \<open>p\<close> gives true.\<close>

primrec some_proc :: "('a \<Rightarrow> ('s, 'e, bool) proc) \<Rightarrow> 'a list \<Rightarrow> ('s, 'e, bool) proc" where
  "some_proc p [] = give False"
| "some_proc p (x # xs) = bind_proc (p x) (\<lambda>b. if b then give True else some_proc p xs)"

text \<open>A loop over a list with an accumulator.\<close>

primrec fold_proc :: "('a \<Rightarrow> 'b \<Rightarrow> ('s, 'e, 'b) proc) \<Rightarrow> 'a list \<Rightarrow> 'b \<Rightarrow> ('s, 'e, 'b) proc" where
  "fold_proc f [] b = give b"
| "fold_proc f (x # xs) b = bind_proc (f x b) (\<lambda>b'. fold_proc f xs b')"

section \<open>Running programs\<close>

text \<open>Without other processes.\<close>

primrec run_proc :: "('s, 'e, 'a) proc \<Rightarrow> 's \<Rightarrow> ('e + 'a) \<times> 's" where
  "run_proc (Exit r) = (\<lambda>s. (r, s))"
| "run_proc (Act f) = (\<lambda>s. case map_prod run_proc (\<lambda>x. x) (f s) of (g, s') \<Rightarrow> g s')"

text \<open>As one statement, of which nothing is left when it fails: a transaction.\<close>

definition transaction :: "('s, 'e, 'a) proc \<Rightarrow> ('s, 'e, 'a) proc" where
  "transaction p = atomic (\<lambda>s. case run_proc p s of (Inl e, _) \<Rightarrow> (Inl e, s) | (Inr a, s') \<Rightarrow> (Inr a, s'))"

text \<open>Among other processes.\<close>

inductive ends :: "('s \<Rightarrow> 's \<Rightarrow> bool) \<Rightarrow> ('s, 'e, 'a) proc \<Rightarrow> 's \<Rightarrow> 'e + 'a \<Rightarrow> 's \<Rightarrow> bool" for env where
  exit: "env\<^sup>*\<^sup>* s s' \<Longrightarrow> ends env (Exit r) s r s'"
| act: "env\<^sup>*\<^sup>* s s1 \<Longrightarrow> f s1 = (p, s2) \<Longrightarrow> ends env p s2 r s' \<Longrightarrow> ends env (Act f) s r s'"

inductive_cases ends_exitE: "ends env (Exit x) s r s'"
inductive_cases ends_actE: "ends env (Act f) s r s'"

lemma ends_exit_iff [simp]: "ends env (Exit x) s r s' \<longleftrightarrow> r = x \<and> env\<^sup>*\<^sup>* s s'"
  by (auto elim: ends_exitE intro: ends.exit)

lemma ends_act_iff [simp]:
  "ends env (Act f) s r s' \<longleftrightarrow> (\<exists>s1. env\<^sup>*\<^sup>* s s1 \<and> ends env (fst (f s1)) (snd (f s1)) r s')"
  by (auto elim!: ends_actE intro: ends.act [OF _ prod.collapse [symmetric]])

lemma ends_later: "env\<^sup>*\<^sup>* s s1 \<Longrightarrow> ends env p s1 r s' \<Longrightarrow> ends env p s r s'"
  by (cases p) (auto intro: rtranclp_trans)

lemma ends_on: "ends env p s r s1 \<Longrightarrow> env\<^sup>*\<^sup>* s1 s' \<Longrightarrow> ends env p s r s'"
  by (induction rule: ends.induct) (auto intro: ends.act rtranclp_trans simp del: ends_act_iff)

lemma ends_match:
  "ends env (match_proc p k) s r s' \<longleftrightarrow> (\<exists>x s1. ends env p s x s1 \<and> ends env (k x) s1 r s')"
proof (induction p arbitrary: s)
  case (Exit x)
  then show ?case using ends_later by (auto intro!: exI [of _ s])
next
  case (Act f)
  have "ends env (match_proc (fst (f s1)) k) s2 r s' \<longleftrightarrow>
      (\<exists>x s3. ends env (fst (f s1)) s2 x s3 \<and> ends env (k x) s3 r s')" for s1 s2
    by (rule Act.IH [of "f s1"]) (auto simp: prod_set_simps(1) fsts.simps)
  then show ?case by auto
qed

text \<open>How the statements and loops run.\<close>

lemma ends_give [simp]: "ends env (give a) s r s' \<longleftrightarrow> r = Inr a \<and> env\<^sup>*\<^sup>* s s'"
  by (auto simp: give_def)

lemma ends_fail [simp]: "ends env (fail e) s r s' \<longleftrightarrow> r = Inl e \<and> env\<^sup>*\<^sup>* s s'"
  by (auto simp: fail_def)

lemma ends_bind:
  "ends env (bind_proc p k) s r s' \<longleftrightarrow>
     (\<exists>e. r = Inl e \<and> ends env p s (Inl e) s') \<or> (\<exists>a s1. ends env p s (Inr a) s1 \<and> ends env (k a) s1 r s')"
proof -
  have "ends env (bind_proc p k) s r s' \<longleftrightarrow>
      (\<exists>e s1. ends env p s (Inl e) s1 \<and> r = Inl e \<and> env\<^sup>*\<^sup>* s1 s') \<or>
      (\<exists>a s1. ends env p s (Inr a) s1 \<and> ends env (k a) s1 r s')"
    unfolding bind_proc_def ends_match by (auto split: sum.splits) (metis sum.exhaust)+
  then show ?thesis using ends_on by fast
qed

lemma ends_bind_InrE:
  assumes "ends env (bind_proc p k) s (Inr a) s'"
  obtains b s1 where "ends env p s (Inr b) s1" "ends env (k b) s1 (Inr a) s'"
  using assms by (auto simp: ends_bind)

lemma ends_atomic [simp]:
  "ends env (atomic m) s r s' \<longleftrightarrow> (\<exists>s1 s2. env\<^sup>*\<^sup>* s s1 \<and> m s1 = (r, s2) \<and> env\<^sup>*\<^sup>* s2 s')"
  by (auto simp: atomic_def split: prod.splits) (metis prod.collapse)+

lemma ends_local [simp]:
  "ends env (local m) s r s' \<longleftrightarrow>
     (\<exists>a s1 s2. r = Inr a \<and> env\<^sup>*\<^sup>* s s1 \<and> m s1 = (a, s2) \<and> env\<^sup>*\<^sup>* s2 s')"
  by (auto simp: local_def split: prod.splits) (metis prod.collapse)+

lemma ends_get [simp]:
  "ends env (get f) s r s' \<longleftrightarrow> (\<exists>s1. r = Inr (f s1) \<and> env\<^sup>*\<^sup>* s s1 \<and> env\<^sup>*\<^sup>* s1 s')"
  by (auto simp: get_def)

lemma ends_modify [simp]:
  "ends env (modify f) s r s' \<longleftrightarrow> (\<exists>s1. r = Inr () \<and> env\<^sup>*\<^sup>* s s1 \<and> env\<^sup>*\<^sup>* (f s1) s')"
  by (auto simp: modify_def)

text \<open>Alone, a program runs in one way.\<close>

lemma ends_alone: "ends (\<lambda>_ _. False) p s r s' \<longleftrightarrow> run_proc p s = (r, s')"
proof (induction p arbitrary: s)
  case (Act f)
  have "ends (\<lambda>_ _. False) (fst (f s)) (snd (f s)) r s' \<longleftrightarrow> run_proc (fst (f s)) (snd (f s)) = (r, s')"
    by (rule Act.IH [of "f s"]) (auto simp: fsts.simps)
  then show ?case by (auto simp: split_beta elim: rtranclp.cases)
qed (auto elim: rtranclp.cases)

lemma run_match: "run_proc (match_proc p k) s = (case run_proc p s of (r, s') \<Rightarrow> run_proc (k r) s')"
proof (induction p arbitrary: s)
  case (Act f)
  have "run_proc (match_proc (fst (f s)) k) (snd (f s)) = (case run_proc (fst (f s)) (snd (f s)) of (r, s') \<Rightarrow> run_proc (k r) s')"
    by (rule Act.IH [of "f s"]) (auto simp: fsts.simps)
  then show ?case by (simp add: split_beta)
qed simp

lemma run_bind:
  "run_proc (bind_proc p k) s = (case run_proc p s of (Inl e, s') \<Rightarrow> (Inl e, s') | (Inr a, s') \<Rightarrow> run_proc (k a) s')"
  by (auto simp: bind_proc_def run_match fail_def split: prod.splits sum.splits)

lemma run_statements [simp]:
  "run_proc (give a) s = (Inr a, s)" "run_proc (fail e) s = (Inl e, s)" "run_proc (get f) s = (Inr (f s), s)"
  "run_proc (modify g) s = (Inr (), g s)" "run_proc (atomic m) s = m s"
  by (simp_all add: give_def fail_def get_def modify_def local_def atomic_def split_beta)

lemma run_proc_ends: "run_proc p s = (r, s') \<Longrightarrow> ends env p s r s'"
proof (induction p arbitrary: s)
  case (Act f)
  have "run_proc (fst (f s)) (snd (f s)) = (r, s') \<Longrightarrow> ends env (fst (f s)) (snd (f s)) r s'"
    by (rule Act.IH [of "f s"]) (auto simp: fsts.simps)
  then show ?case using Act.prems by (auto simp: split_beta)
qed simp

lemma ends_transaction:
  "ends env (transaction p) s (Inr a) s' \<longleftrightarrow> (\<exists>x y. env\<^sup>*\<^sup>* s x \<and> run_proc p x = (Inr a, y) \<and> env\<^sup>*\<^sup>* y s')"
proof -
  have "(case run_proc p x of (Inl e, _) \<Rightarrow> (Inl e, x) | (Inr b, s'') \<Rightarrow> (Inr b, s'')) = (Inr a, y) \<longleftrightarrow> run_proc p x = (Inr a, y)" for x y
    by (cases "run_proc p x"; cases "fst (run_proc p x)") auto
  then show ?thesis unfolding transaction_def ends_atomic by auto
qed

section \<open>A program that is stopped on the way\<close>

inductive ahead :: "('s \<Rightarrow> 's \<Rightarrow> bool) \<Rightarrow> ('s, 'e, 'a) proc \<Rightarrow> 's \<Rightarrow> ('s, 'e, 'a) proc \<Rightarrow> 's \<Rightarrow> bool" for env where
  here: "env\<^sup>*\<^sup>* s s' \<Longrightarrow> ahead env p s p s'"
| further: "env\<^sup>*\<^sup>* s s1 \<Longrightarrow> f s1 = (p, s2) \<Longrightarrow> ahead env p s2 q s' \<Longrightarrow> ahead env (Act f) s q s'"

text \<open>Whoever lets it go on afterwards sees one of its runs.\<close>

lemma ahead_ends: "ahead env p s q s1 \<Longrightarrow> ends env q s1 r s' \<Longrightarrow> ends env p s r s'"
  by (induction rule: ahead.induct) (auto intro: ends_later ends.act simp del: ends_act_iff)

end
