(* ===== verification/Reserved.thy ===== *)
theory Reserved
  imports Prelude
begin

text \<open>
  \<open>sdks/effect/src/unstable/workflow/Reserved.ts\<close>: the names that the workflow engine writes into checkpoints, events
  and headers.
\<close>

definition namespace :: string where
  "namespace = ''$absurd:effect:v1''"

text \<open>\<open>segments.join(":")\<close>; a number among them is its decimal text.\<close>

fun join_colon :: "string list \<Rightarrow> string" where
  "join_colon [] = []"
| "join_colon [s] = s"
| "join_colon (s # t # ss) = s @ CHR '':'' # join_colon (t # ss)"

definition reserved_identifier :: "string list \<Rightarrow> string" where
  "reserved_identifier segments = join_colon (namespace # segments)"

definition activityCheckpointName :: "string \<Rightarrow> int \<Rightarrow> string" where
  "activityCheckpointName name attempt = reserved_identifier [''activity'', name, int_dec attempt]"

definition deferredCheckpointName :: "string \<Rightarrow> string" where
  "deferredCheckpointName name = reserved_identifier [''deferred'', name]"

definition clockDeadlineCheckpointName :: "string \<Rightarrow> string" where
  "clockDeadlineCheckpointName deferredName = reserved_identifier [''clock'', deferredName]"

definition interruptCheckpointName :: string where
  "interruptCheckpointName = reserved_identifier [''interrupt'']"

definition parentExecutionHeaderKey :: string where
  "parentExecutionHeaderKey = reserved_identifier [''parent'']"

definition deferredEventName :: "string \<Rightarrow> string \<Rightarrow> string \<Rightarrow> string" where
  "deferredEventName workflowTag executionId deferredName =
     reserved_identifier [''deferred-event'', workflowTag, executionId, deferredName]"

record DoorbellNames =
  db_checkpointName :: string
  db_eventName :: string

definition doorbellNames :: "string \<Rightarrow> string \<Rightarrow> DoorbellNames" where
  "doorbellNames executionId i =
     \<lparr>db_checkpointName = reserved_identifier [''wake'', i], db_eventName = reserved_identifier [''wake-event'', executionId, i]\<rparr>"

section \<open>Different things have different names\<close>

lemmas name_defs = activityCheckpointName_def deferredCheckpointName_def clockDeadlineCheckpointName_def
  interruptCheckpointName_def deferredEventName_def doorbellNames_def reserved_identifier_def

lemma cut_colon:
  "a @ CHR '':'' # b = c @ CHR '':'' # d \<Longrightarrow> CHR '':'' \<notin> set a \<Longrightarrow> CHR '':'' \<notin> set c \<Longrightarrow> a = c \<and> b = d"
proof (induction a arbitrary: c)
  case Nil
  then show ?case by (cases c) auto
next
  case (Cons x xs)
  then show ?case by (cases c) auto
qed

lemma last_colon:
  assumes "a @ CHR '':'' # b = c @ CHR '':'' # d" "CHR '':'' \<notin> set b" "CHR '':'' \<notin> set d"
  shows "a = c \<and> b = d"
proof -
  have "rev b @ CHR '':'' # rev a = rev d @ CHR '':'' # rev c"
    using arg_cong [OF assms(1), of rev] by simp
  from cut_colon [OF this] assms(2,3) show ?thesis by simp
qed

lemma int_dec_inj: "int_dec m = int_dec n \<longleftrightarrow> m = n"
proof -
  have "\<not> is_digit (CHR ''-'')" by (simp add: is_digit_def)
  then have sign: "CHR ''-'' \<notin> set (nat_dec k)" for k using nat_dec_digits by blast
  have "nat_dec a \<noteq> CHR ''-'' # nat_dec b" for a b using sign [of a] by auto
  then show ?thesis by (auto simp: int_dec_def) metis+
qed

lemma int_dec_plain: "CHR '':'' \<notin> set (int_dec n)"
proof -
  have "\<not> is_digit (CHR '':'')" by (simp add: is_digit_def)
  then have "CHR '':'' \<notin> set (nat_dec k)" for k
    using nat_dec_digits by blast
  then show ?thesis by (simp add: int_dec_def)
qed

end
