(* ===== verification/Workflow_Types.thy ===== *)
theory Workflow_Types
  imports Effect_Sql Interleave Reserved
begin

text \<open>
  The data of \<open>sdks/effect/src/unstable/workflow/AbsurdWorkflowEngine.ts\<close> and its pure functions. An effect is a program
  of atomic statements, which fails with a cause. Durations of the options are finite, in milliseconds.
\<close>

section \<open>Effects, exits and results\<close>

text \<open>
  A cause is its list of reasons. An exit has a cause or a value, which may be \<open>undefined\<close>; a result of a workflow or
  an activity is an exit or a suspension.
\<close>

datatype reason = Fail json | Die exn | Interrupt

type_synonym cause = "reason list"
type_synonym exit_value = "cause + json option"
type_synonym ('s, 'a) wf = "('s, cause, 'a) proc"

datatype wf_result = Complete exit_value | Suspended

definition die :: "exn \<Rightarrow> ('s, 'a) wf" where
  "die e = fail [Die e]"

text \<open>\<open>Effect.orDie\<close> of a query, and a step that may throw.\<close>

definition orDie :: "('s, 'a) ts \<Rightarrow> ('s, 'a) wf" where
  "orDie m = atomic (\<lambda>s. case m s of (Inl e, s') \<Rightarrow> (Inl [Die e], s') | (Inr a, s') \<Rightarrow> (Inr a, s'))"

definition or_throw :: "exn + 'a \<Rightarrow> ('s, 'a) wf" where
  "or_throw r = (case r of Inl e \<Rightarrow> die e | Inr a \<Rightarrow> give a)"

lemma ends_orDie:
  "ends env (orDie m) s r s' \<longleftrightarrow> (\<exists>s1 s2 x. env\<^sup>*\<^sup>* s s1 \<and> m s1 = (x, s2) \<and> env\<^sup>*\<^sup>* s2 s' \<and>
     r = (case x of Inl e \<Rightarrow> Inl [Die e] | Inr a \<Rightarrow> Inr a))"
proof -
  have "(case m s1 of (Inl e, s') \<Rightarrow> (Inl [Die e], s') | (Inr a, s') \<Rightarrow> (Inr a, s')) = (r, s2) \<longleftrightarrow>
      (\<exists>x. m s1 = (x, s2) \<and> r = (case x of Inl e \<Rightarrow> Inl [Die e] | Inr a \<Rightarrow> Inr a))" for s1 s2
    by (cases "m s1"; cases "fst (m s1)") auto
  then show ?thesis unfolding orDie_def ends_atomic by blast
qed

lemma ends_orDie_Inr [simp]:
  "ends env (orDie m) s (Inr a) s' \<longleftrightarrow> (\<exists>s1 s2. env\<^sup>*\<^sup>* s s1 \<and> m s1 = (Inr a, s2) \<and> env\<^sup>*\<^sup>* s2 s')"
proof -
  have "Inr a = (case x of Inl e \<Rightarrow> Inl [Die e] | Inr b \<Rightarrow> Inr b) \<longleftrightarrow> x = Inr a" for x by (cases x) auto
  then show ?thesis by (auto simp: ends_orDie)
qed

lemma run_orDie: "run_proc (orDie m) s = (case m s of (Inl e, s') \<Rightarrow> (Inl [Die e], s') | (Inr a, s') \<Rightarrow> (Inr a, s'))"
  by (simp add: orDie_def)

lemma or_throw_simps [simp]: "or_throw (Inl e) = die e" "or_throw (Inr a) = give a"
  by (simp_all add: or_throw_def)

lemma ends_die [simp]: "ends env (die e) s r s' \<longleftrightarrow> r = Inl [Die e] \<and> env\<^sup>*\<^sup>* s s'"
  by (auto simp: die_def)

text \<open>
  \<open>Exit.map(exit, (value) => value ?? null)\<close>, and the structural codec of exits, whose schema is a parameter; both of
  its directions may throw.
\<close>

definition exitWithNullishValues :: "exit_value \<Rightarrow> exit_value" where
  "exitWithNullishValues e = (case e of Inl c \<Rightarrow> Inl c | Inr v \<Rightarrow> Inr (Some (or_null v)))"

record exit_codec =
  xc_encode :: "exit_value \<Rightarrow> exn + json"
  xc_decode :: "json \<Rightarrow> exn + exit_value"

definition encodeStructuralExit :: "exit_codec \<Rightarrow> exit_value \<Rightarrow> exn + json" where
  "encodeStructuralExit codec e = xc_encode codec (exitWithNullishValues e)"

definition decodeStructuralExit :: "exit_codec \<Rightarrow> json \<Rightarrow> exn + exit_value" where
  "decodeStructuralExit codec stored = xc_decode codec stored"

section \<open>Queues and durations\<close>

definition wf_validateQueueName :: "string \<Rightarrow> exn + string" where
  "wf_validateQueueName queueName =
     (if queueName = [] \<or> \<not> list_all word_char queueName
      then Inl (throw_error (''Invalid Absurd queue name '' @ CHR 0x22 # queueName @ CHR 0x22 #
                             '': expected non-empty [A-Za-z0-9_].''))
      else if 57 < length queueName
      then Inl (throw_error (''Queue name '' @ CHR 0x22 # queueName @ CHR 0x22 # '' is too long (max 57 characters).''))
      else Inr queueName)"

definition toPositiveWholeSeconds :: "rat \<Rightarrow> int" where
  "toPositiveWholeSeconds duration = max 1 (round (duration / 1000))"

definition heartbeatInterval :: "rat \<Rightarrow> rat" where
  "heartbeatInterval claimTimeout = max (of_int (toPositiveWholeSeconds claimTimeout) / 2 * 1000) 500"

definition minimumDefined :: "int option \<Rightarrow> int option \<Rightarrow> int option" where
  "minimumDefined left right =
     (case left of None \<Rightarrow> right
      | Some l \<Rightarrow> (case right of None \<Rightarrow> left | Some r \<Rightarrow> Some (min l r)))"

record QueueOptions =
  qo_concurrency :: "rat option"
  qo_pollInterval :: "rat option"
  qo_claimTimeout :: "rat option"
  qo_childStatusPollInterval :: "rat option"

record QueueConfig =
  qc_name :: string
  qc_concurrency :: int
  qc_pollInterval :: rat
  qc_claimTimeout :: rat
  qc_childStatusPollInterval :: rat

definition default_to :: "'a \<Rightarrow> 'a option \<Rightarrow> 'a" where
  "default_to d x = (case x of None \<Rightarrow> d | Some v \<Rightarrow> v)"

definition queue_config :: "string \<times> QueueOptions \<Rightarrow> exn + QueueConfig" where
  "queue_config = (\<lambda>(name, queueOptions).
     bind_result (wf_validateQueueName name) (\<lambda>n.
     Inr \<lparr>qc_name = n,
          qc_concurrency = max 1 \<lfloor>default_to 1 (qo_concurrency queueOptions)\<rfloor>,
          qc_pollInterval = default_to 250 (qo_pollInterval queueOptions),
          qc_claimTimeout = default_to 120000 (qo_claimTimeout queueOptions),
          qc_childStatusPollInterval = default_to 30000 (qo_childStatusPollInterval queueOptions)\<rparr>))"

definition queue_configs :: "(string \<times> QueueOptions) list \<Rightarrow> exn + QueueConfig list" where
  "queue_configs queues = decode_all queue_config queues"

section \<open>Workflows\<close>

text \<open>
  A workflow has its tag, the annotation \<open>Queue\<close>, the two annotations of Effect that decide about failures, and the
  codecs of its payload and result, which are parameters.
\<close>

record 'p workflow =
  wf_tag :: string
  wf_queue :: "string option"
  wf_captureDefects :: bool
  wf_suspendOnFailure :: bool
  wf_encodePayload :: "'p \<Rightarrow> exn + json"
  wf_decodePayload :: "json \<Rightarrow> exn + 'p"
  wf_encodeResult :: "wf_result \<Rightarrow> exn + json"
  wf_decodeResult :: "json \<Rightarrow> exn + wf_result"

definition inQueue :: "string \<Rightarrow> 'p workflow \<Rightarrow> exn + 'p workflow" where
  "inQueue queueName w = bind_result (wf_validateQueueName queueName) (\<lambda>_. Inr (w\<lparr>wf_queue := Some queueName\<rparr>))"

definition queueFor :: "QueueConfig list \<Rightarrow> 'p workflow \<Rightarrow> exn + string" where
  "queueFor configs w =
     (case wf_queue w of
        None \<Rightarrow> Inl (throw_error ''Workflow has no Absurd queue annotation'')
      | Some q \<Rightarrow>
          if q = [] then Inl (throw_error ''Workflow has no Absurd queue annotation'')
          else if q \<notin> qc_name ` set configs
          then Inl (throw_error ''Workflow is bound to a queue that is absent from AbsurdWorkflowEngine.layer.'')
          else Inr q)"

record ExecutionReference =
  xr_queue :: string
  xr_executionId :: string

definition reference_json :: "ExecutionReference \<Rightarrow> json" where
  "reference_json parent =
     JObj [(''queue'', JStr (xr_queue parent)), (''executionId'', JStr (xr_executionId parent))]"

definition parentExecutionHeaders :: "ExecutionReference \<Rightarrow> json" where
  "parentExecutionHeaders parent = JObj [(parentExecutionHeaderKey, reference_json parent)]"

definition read_reference :: "json \<Rightarrow> exn + ExecutionReference" where
  "read_reference j =
     (case (json_get ''queue'' j, json_get ''executionId'' j) of
        (Some (JStr q), Some (JStr i)) \<Rightarrow> Inr \<lparr>xr_queue = q, xr_executionId = i\<rparr>
      | _ \<Rightarrow> Inl SchemaError)"

text \<open>Headers are null or an object; the parent's key may be absent, but is an object when it is there.\<close>

definition decodeParentExecution :: "json option \<Rightarrow> exn + ExecutionReference option" where
  "decodeParentExecution headers =
     (case headers of
        None \<Rightarrow> Inr None
      | Some JNull \<Rightarrow> Inr None
      | Some (JObj kvs) \<Rightarrow>
          (case map_of kvs parentExecutionHeaderKey of
             None \<Rightarrow> Inr None
           | Some j \<Rightarrow> bind_result (read_reference j) (\<lambda>r. Inr (Some r)))
      | Some _ \<Rightarrow> Inl SchemaError)"

section \<open>Instances and claims\<close>

text \<open>The state of one run of a workflow or an activity; sets are lists without duplicates.\<close>

record wf_instance =
  in_suspended :: bool
  in_interrupted :: bool
  in_awaitedDeferreds :: "string list"

definition initial_instance :: wf_instance where
  "initial_instance = \<lparr>in_suspended = False, in_interrupted = False, in_awaitedDeferreds = []\<rparr>"

text \<open>
  The fixed part of a claim, with tag and execution id of its instance, and its mutable part beside the database:
  \<open>cl_root\<close> is the instance of the workflow, \<open>cl_inner\<close> that of the activity whose body is running.
\<close>

record ActiveClaim =
  ac_queue :: string
  ac_taskId :: uuid
  ac_runId :: uuid
  ac_workflowTag :: string
  ac_executionId :: string
  ac_childStatusPollInterval :: rat

record claim_state = world +
  cl_awaitedChildren :: "(string \<times> ExecutionReference) list"
  cl_pendingDeferreds :: "string list"
  cl_root :: wf_instance
  cl_inner :: "wf_instance option"

definition enter_claim :: "world \<Rightarrow> claim_state" where
  "enter_claim w = world.extend w
     \<lparr>cl_awaitedChildren = [], cl_pendingDeferreds = [], cl_root = initial_instance, cl_inner = None\<rparr>"

definition current :: "claim_state \<Rightarrow> wf_instance" where
  "current s = (case cl_inner s of None \<Rightarrow> cl_root s | Some i \<Rightarrow> i)"

definition update_current :: "(wf_instance \<Rightarrow> wf_instance) \<Rightarrow> claim_state \<Rightarrow> claim_state" where
  "update_current f s =
     (case cl_inner s of None \<Rightarrow> s\<lparr>cl_root := f (cl_root s)\<rparr> | Some i \<Rightarrow> s\<lparr>cl_inner := Some (f i)\<rparr>)"

definition set_add :: "'a \<Rightarrow> 'a list \<Rightarrow> 'a list" where
  "set_add x xs = (if x \<in> set xs then xs else xs @ [x])"

definition set_delete :: "'a \<Rightarrow> 'a list \<Rightarrow> 'a list" where
  "set_delete x xs = filter (\<lambda>y. y \<noteq> x) xs"

lemma set_set_add [simp]: "set (set_add x xs) = insert x (set xs)"
  by (auto simp: set_add_def)

lemma set_set_delete [simp]: "set (set_delete x xs) = set xs - {x}"
  by (auto simp: set_delete_def)

section \<open>Doorbells\<close>

text \<open>\<open>n.toString(36)\<close>.\<close>

definition base36_char :: "nat \<Rightarrow> char" where
  "base36_char d = (if d < 10 then char_of (48 + d) else char_of (87 + d))"

fun base36_nat :: "nat \<Rightarrow> string" where
  "base36_nat n = (if n < 36 then [base36_char n] else base36_nat (n div 36) @ [base36_char (n mod 36)])"

declare base36_nat.simps [simp del]

definition base36 :: "int \<Rightarrow> string" where
  "base36 n = (if n < 0 then CHR ''-'' # base36_nat (nat (- n)) else base36_nat (nat n))"

text \<open>The two random integers are a parameter.\<close>

definition makeDoorbell :: "int \<times> int \<Rightarrow> string \<Rightarrow> DoorbellNames" where
  "makeDoorbell random executionId = doorbellNames executionId (base36 (fst random) @ CHR '':'' # base36 (snd random))"

text \<open>A number in JSON.\<close>

fun json_number :: "json \<Rightarrow> rat option" where
  "json_number (JNum x) = Some x"
| "json_number _ = None"

end
