(* ===== verification/Workflow.thy ===== *)
theory Workflow
  imports Workflow_Types
begin

text \<open>
  The workflow engine of \<open>AbsurdWorkflowEngine.ts\<close>: registration, the doorbells that wake suspended runs, parking, the
  execution of activities, deferreds and clocks, and the operations on executions. Every query is one atomic
  statement; other processes run between any two.
\<close>

section \<open>Registration\<close>

text \<open>
  What a process has registered, and the queues whose workers are released. A registration's execution is a program
  over the state of its claim, which it gets as its context. The token stands for the identity of the registration
  object.
\<close>

record 'p Registration =
  wr_workflow :: "'p workflow"
  wr_queue :: string
  wr_execute :: "ActiveClaim \<Rightarrow> 'p \<Rightarrow> string \<Rightarrow> (claim_state, json option) wf"
  wr_token :: nat

record 'p engine =
  en_configs :: "QueueConfig list"
  en_registrations :: "string \<Rightarrow> 'p Registration option"
  en_ready :: "string list"
  en_tokens :: nat

definition makeEngine :: "(string \<times> QueueOptions) list \<Rightarrow> exn + 'p engine" where
  "makeEngine queues = bind_result (queue_configs queues) (\<lambda>cs.
     Inr \<lparr>en_configs = cs, en_registrations = (\<lambda>_. None), en_ready = [], en_tokens = 0\<rparr>)"

definition registerWorkflow ::
    "'p workflow \<Rightarrow> (ActiveClaim \<Rightarrow> 'p \<Rightarrow> string \<Rightarrow> (claim_state, json option) wf) \<Rightarrow> ('p engine, unit) wf" where
  "registerWorkflow w execute =
     bind_proc (get en_configs) (\<lambda>configs.
     bind_proc (or_throw (queueFor configs w)) (\<lambda>queue.
     bind_proc (get en_registrations) (\<lambda>registrations.
       if registrations (wf_tag w) \<noteq> None
       then die (Thrown (JStr (''Workflow is already registered'')))
       else modify (\<lambda>e. e\<lparr>
              en_registrations := (en_registrations e)(wf_tag w \<mapsto>
                \<lparr>wr_workflow = w, wr_queue = queue, wr_execute = execute, wr_token = en_tokens e\<rparr>),
              en_ready := set_add queue (en_ready e), en_tokens := Suc (en_tokens e)\<rparr>))))"

text \<open>The finalizer of the registration with that token.\<close>

definition unregisterWorkflow :: "string \<Rightarrow> nat \<Rightarrow> 'p engine \<Rightarrow> 'p engine" where
  "unregisterWorkflow tag token e =
     (if map_option wr_token (en_registrations e tag) = Some token
      then e\<lparr>en_registrations := (en_registrations e)(tag := None)\<rparr> else e)"

section \<open>Doorbells and wake sources\<close>

definition wf_failMissingExecutionId :: "string \<Rightarrow> ClaimedRow \<Rightarrow> ('w world_scheme, unit) wf" where
  "wf_failMissingExecutionId queue claimed =
     orDie (store_failRun queue (cr_run_id claimed)
       (JObj [(''name'', JStr ''AbsurdEffectWorkflowProtocolError''), (''reason'', JStr ''MissingExecutionId''),
              (''workflowName'', JStr (cr_task_name claimed))]))"

definition deferUnknownRun :: "int \<times> int \<Rightarrow> string \<Rightarrow> ClaimedRow \<Rightarrow> ('w world_scheme, unit) wf" where
  "deferUnknownRun random queue claimed =
     (let doorbell = makeDoorbell random (uuid_text (cr_task_id claimed))
      in bind_proc (orDie (store_awaitEvent queue (cr_task_id claimed) (cr_run_id claimed)
           (db_checkpointName doorbell) (db_eventName doorbell)
           (Some (15 + eff_deterministicJitterSeconds (uuid_text (cr_run_id claimed)) 15)))) (\<lambda>_. give ()))"

text \<open>One renewal of the lease; the loop renews after every \<open>heartbeatInterval\<close>.\<close>

definition heartbeat_beat :: "ActiveClaim \<Rightarrow> rat \<Rightarrow> ('w world_scheme, unit) wf" where
  "heartbeat_beat claim claimTimeout =
     orDie (store_extendClaim (ac_queue claim) (ac_runId claim) (toPositiveWholeSeconds claimTimeout))"

definition ringCurrentDoorbell :: "string \<Rightarrow> uuid \<Rightarrow> ('w world_scheme, unit) wf" where
  "ringCurrentDoorbell queue runId =
     bind_proc (orDie (store_currentWakeEvent queue runId)) (\<lambda>eventName.
       case eventName of None \<Rightarrow> give () | Some n \<Rightarrow> orDie (store_emitEvent queue n JNull))"

definition ring_task :: "string \<Rightarrow> string \<Rightarrow> ('w world_scheme, unit) wf" where
  "ring_task queue executionId =
     bind_proc (orDie (store_taskByExecutionId queue executionId)) (\<lambda>task.
       case Option.bind task xt_last_attempt_run of
         None \<Rightarrow> give () | Some runId \<Rightarrow> ringCurrentDoorbell queue runId)"

definition ringExecutionDoorbell :: "ExecutionReference \<Rightarrow> ('w world_scheme, unit) wf" where
  "ringExecutionDoorbell execution = ring_task (xr_queue execution) (xr_executionId execution)"

definition checkpoint :: "ActiveClaim \<Rightarrow> string \<Rightarrow> ('w world_scheme, json option) wf" where
  "checkpoint claim n = orDie (store_checkpointState (ac_queue claim) (ac_taskId claim) n)"

definition write_checkpoint :: "ActiveClaim \<Rightarrow> string \<Rightarrow> json \<Rightarrow> ('w world_scheme, unit) wf" where
  "write_checkpoint claim n v = orDie (store_setCheckpointState (ac_queue claim) (ac_taskId claim) n v (ac_runId claim) None)"

definition deferredAvailable :: "ActiveClaim \<Rightarrow> string \<Rightarrow> ('w world_scheme, bool) wf" where
  "deferredAvailable claim deferredName =
     bind_proc (checkpoint claim (deferredCheckpointName deferredName)) (\<lambda>c.
       if c \<noteq> None then give True
       else bind_proc (orDie (store_eventPayload (ac_queue claim)
              (deferredEventName (ac_workflowTag claim) (ac_executionId claim) deferredName)))
            (\<lambda>event. give (event \<noteq> None)))"

definition childIsTerminal :: "ExecutionReference \<Rightarrow> ('w world_scheme, bool) wf" where
  "childIsTerminal child =
     bind_proc (orDie (store_taskByExecutionId (xr_queue child) (xr_executionId child))) (\<lambda>task.
       give (case task of None \<Rightarrow> False | Some t \<Rightarrow> isTerminalTaskState (xt_state t)))"

definition deadline :: "ActiveClaim \<Rightarrow> string \<Rightarrow> ('w world_scheme, rat option) wf" where
  "deadline claim deferredName =
     bind_proc (checkpoint claim (clockDeadlineCheckpointName deferredName))
       (\<lambda>d. give (Option.bind d json_number))"

text \<open>\<open>Clock.currentTimeMillis\<close>.\<close>

definition clock_now :: "('w world_scheme, int) wf" where
  "clock_now = get w_js_now"

definition activeWakeAvailable :: "ActiveClaim \<Rightarrow> (claim_state, bool) wf" where
  "activeWakeAvailable claim =
     bind_proc clock_now (\<lambda>now.
     bind_proc (get cl_pendingDeferreds) (some_proc (\<lambda>deferredName.
       bind_proc (deferredAvailable claim deferredName) (\<lambda>available.
         if available then give True
         else bind_proc (deadline claim deferredName) (\<lambda>d.
           give (case d of None \<Rightarrow> False | Some t \<Rightarrow> t \<le> of_int now))))))"

section \<open>Parking a suspended run\<close>

definition reschedule :: "ActiveClaim \<Rightarrow> ('w world_scheme, unit) wf" where
  "reschedule claim = orDie (store_scheduleRunInSeconds (ac_queue claim) (ac_runId claim) 0)"

definition interruptRequested :: "ActiveClaim \<Rightarrow> ('w world_scheme, bool) wf" where
  "interruptRequested claim = bind_proc (checkpoint claim interruptCheckpointName) (\<lambda>c. give (c \<noteq> None))"

definition anyChildTerminal :: "(claim_state, bool) wf" where
  "anyChildTerminal = bind_proc (get cl_awaitedChildren) (\<lambda>cs. some_proc childIsTerminal (map snd cs))"

text \<open>The loop over the awaited deferreds: those not available yet, and the earliest deadline among them.\<close>

definition survey_one ::
    "ActiveClaim \<Rightarrow> string \<Rightarrow> rat option \<times> string list \<Rightarrow> ('w world_scheme, rat option \<times> string list) wf" where
  "survey_one claim deferredName = (\<lambda>(earliest, unresolved).
     bind_proc (deferredAvailable claim deferredName) (\<lambda>available.
       if available then give (earliest, unresolved)
       else bind_proc (deadline claim deferredName) (\<lambda>d.
         give (case d of
                 None \<Rightarrow> earliest
               | Some t \<Rightarrow> (case earliest of None \<Rightarrow> Some t | Some e \<Rightarrow> Some (min e t)),
               unresolved @ [deferredName]))))"

definition survey :: "ActiveClaim \<Rightarrow> (claim_state, rat option \<times> string list) wf" where
  "survey claim =
     bind_proc (get (\<lambda>s. in_awaitedDeferreds (cl_root s))) (\<lambda>ds. fold_proc (survey_one claim) ds (None, []))"

definition clockTimeoutSeconds :: "rat option \<Rightarrow> ('w world_scheme, int option) wf" where
  "clockTimeoutSeconds earliestDeadline =
     (case earliestDeadline of
        None \<Rightarrow> give None
      | Some t \<Rightarrow> bind_proc clock_now (\<lambda>now. give (Some (max 0 \<lceil>(t - of_int now) / 1000\<rceil>))))"

definition childPollTimeoutSeconds :: "ActiveClaim \<Rightarrow> (claim_state, int option) wf" where
  "childPollTimeoutSeconds claim =
     get (\<lambda>s. if cl_awaitedChildren s = [] then None
              else Some (toPositiveWholeSeconds (ac_childStatusPollInterval claim)))"

text \<open>After the registration of the wait: every source of a wake is looked at again.\<close>

definition recheck :: "ActiveClaim \<Rightarrow> string \<Rightarrow> string list \<Rightarrow> (claim_state, unit) wf" where
  "recheck claim eventName unresolvedDeferreds =
     (let ring = orDie (store_emitEvent (ac_queue claim) eventName JNull)
      in bind_proc (interruptRequested claim) (\<lambda>racedInterrupt.
         if racedInterrupt then ring
         else bind_proc (some_proc (deferredAvailable claim) unresolvedDeferreds) (\<lambda>available.
         if available then ring
         else bind_proc anyChildTerminal (\<lambda>terminal.
         if terminal then ring else give ()))))"

definition register_doorbell ::
    "ActiveClaim \<Rightarrow> DoorbellNames \<Rightarrow> rat option \<Rightarrow> (claim_state, bool) wf" where
  "register_doorbell claim doorbell earliestDeadline =
     bind_proc (clockTimeoutSeconds earliestDeadline) (\<lambda>clockTimeout.
     bind_proc (childPollTimeoutSeconds claim) (\<lambda>childTimeout.
       orDie (store_awaitEvent (ac_queue claim) (ac_taskId claim) (ac_runId claim)
         (db_checkpointName doorbell) (db_eventName doorbell) (minimumDefined clockTimeout childTimeout))))"

definition parkSuspended :: "int \<times> int \<Rightarrow> ActiveClaim \<Rightarrow> (claim_state, unit) wf" where
  "parkSuspended random claim =
     bind_proc (interruptRequested claim) (\<lambda>interrupted.
     if interrupted then reschedule claim
     else bind_proc anyChildTerminal (\<lambda>terminal.
     if terminal then reschedule claim
     else bind_proc (survey claim) (\<lambda>(earliestDeadline, unresolvedDeferreds).
     let doorbell = makeDoorbell random (ac_executionId claim)
     in bind_proc (register_doorbell claim doorbell earliestDeadline) (\<lambda>should_suspend.
        if \<not> should_suspend then reschedule claim
        else recheck claim (db_eventName doorbell) unresolvedDeferreds))))"

end
