(* ===== verification/Workflow_Engine.thy ===== *)
theory Workflow_Engine
  imports Workflow
begin

text \<open>
  The rest of the workflow engine: activities, deferreds and clocks, which run inside a handler; the processing of a
  claim; and the operations on executions.
\<close>

section \<open>Results of runs\<close>

text \<open>
  \<open>Workflow.intoResult\<close> of Effect, which turns the exit of a run into a result by the flags of its instance. The
  scopes that it closes are not modelled.
\<close>

definition is_die :: "reason \<Rightarrow> bool" where
  "is_die r = (case r of Die _ \<Rightarrow> True | _ \<Rightarrow> False)"

definition result_of_cause :: "'p workflow \<Rightarrow> wf_instance \<Rightarrow> cause \<Rightarrow> cause + wf_result" where
  "result_of_cause w i c =
     (let reasons = filter (\<lambda>r. r \<noteq> Interrupt) c;
          hasInterruptsOnly = (reasons = []);
          filtered = (if reasons = [] then c else reasons)
      in if in_suspended i \<and> hasInterruptsOnly then Inr Suspended
         else if \<not> in_interrupted i \<and> hasInterruptsOnly \<or> \<not> wf_captureDefects w \<and> list_ex is_die c
         then Inl filtered
         else Inr (Complete (Inl filtered)))"

definition suspendOnFailure :: "'p workflow \<Rightarrow> exit_value \<Rightarrow> (claim_state, exit_value) wf" where
  "suspendOnFailure w r =
     (case r of
        Inl c \<Rightarrow>
          if wf_suspendOnFailure w
          then bind_proc (modify (update_current (\<lambda>i. i\<lparr>in_suspended := True\<rparr>))) (\<lambda>_. give (Inl [Interrupt]))
          else give r
      | Inr _ \<Rightarrow> give r)"

definition intoResult :: "'p workflow \<Rightarrow> (claim_state, json option) wf \<Rightarrow> (claim_state, wf_result) wf" where
  "intoResult w effect =
     match_proc effect (\<lambda>r.
     bind_proc (suspendOnFailure w r) (\<lambda>r'.
       case r' of
         Inr v \<Rightarrow> give (Complete (Inr v))
       | Inl c \<Rightarrow> bind_proc (get current) (\<lambda>i. Exit (result_of_cause w i c))))"

text \<open>
  \<open>Effect.onExit\<close>: a failing finalizer adds its cause to that of the exit, in which equal reasons occur once.
\<close>

definition causeCombine :: "cause \<Rightarrow> cause \<Rightarrow> cause" where
  "causeCombine c1 c2 = (if c1 = [] then c2 else if c2 = [] then c1 else rev (remdups (rev (c1 @ c2))))"

definition onExit :: "('s, 'a) wf \<Rightarrow> (cause + 'a \<Rightarrow> ('s, unit) wf) \<Rightarrow> ('s, 'a) wf" where
  "onExit effect finalizer =
     match_proc effect (\<lambda>r. match_proc (finalizer r) (\<lambda>x.
       case x of
         Inr _ \<Rightarrow> Exit r
       | Inl c \<Rightarrow> fail (case r of Inl c0 \<Rightarrow> causeCombine c0 c | Inr _ \<Rightarrow> c)))"

section \<open>Activities\<close>

text \<open>The body of an activity runs with an instance of its own.\<close>

definition with_instance :: "(claim_state, 'a) wf \<Rightarrow> (claim_state, 'a) wf" where
  "with_instance effect =
     bind_proc (get cl_inner) (\<lambda>outer.
     bind_proc (modify (\<lambda>s. s\<lparr>cl_inner := Some initial_instance\<rparr>)) (\<lambda>_.
       match_proc effect (\<lambda>r. bind_proc (modify (\<lambda>s. s\<lparr>cl_inner := outer\<rparr>)) (\<lambda>_. Exit r))))"

definition activityExecute ::
    "exit_codec \<Rightarrow> ActiveClaim \<Rightarrow> 'p workflow \<Rightarrow> string \<Rightarrow> int \<Rightarrow> (claim_state, json option) wf \<Rightarrow>
     (claim_state, wf_result) wf" where
  "activityExecute codec claim w activityName attempt body =
     (let checkpointName = activityCheckpointName activityName attempt
      in bind_proc (checkpoint claim checkpointName) (\<lambda>stored.
         case stored of
           Some v \<Rightarrow> bind_proc (or_throw (decodeStructuralExit codec v)) (\<lambda>e. give (Complete e))
         | None \<Rightarrow>
             bind_proc (interruptRequested claim) (\<lambda>interrupted.
             if interrupted
             then bind_proc (modify (update_current (\<lambda>i. i\<lparr>in_interrupted := True, in_suspended := False\<rparr>)))
                    (\<lambda>_. fail [Interrupt])
             else bind_proc (with_instance (intoResult w body)) (\<lambda>result.
               case result of
                 Suspended \<Rightarrow> give Suspended
               | Complete e \<Rightarrow>
                   bind_proc (or_throw (encodeStructuralExit codec e)) (\<lambda>encoded.
                   bind_proc (write_checkpoint claim checkpointName encoded) (\<lambda>_.
                     give (Complete (exitWithNullishValues e))))))))"

section \<open>Deferreds and clocks\<close>

definition at_workflow_level :: "(claim_state, bool) wf" where
  "at_workflow_level = get (\<lambda>s. cl_inner s = None)"

definition note_pending :: "(string list \<Rightarrow> string list) \<Rightarrow> (claim_state, unit) wf" where
  "note_pending f =
     bind_proc at_workflow_level (\<lambda>root.
       if root then modify (\<lambda>s. s\<lparr>cl_pendingDeferreds := f (cl_pendingDeferreds s)\<rparr>) else give ())"

definition deferredResult :: "exit_codec \<Rightarrow> ActiveClaim \<Rightarrow> string \<Rightarrow> (claim_state, exit_value option) wf" where
  "deferredResult codec claim deferredName =
     (let checkpointName = deferredCheckpointName deferredName
      in bind_proc (checkpoint claim checkpointName) (\<lambda>stored.
         case stored of
           Some v \<Rightarrow>
             bind_proc (note_pending (set_delete deferredName)) (\<lambda>_.
             bind_proc (or_throw (decodeStructuralExit codec v)) (\<lambda>e. give (Some e)))
         | None \<Rightarrow>
             bind_proc (orDie (store_eventPayload (ac_queue claim)
               (deferredEventName (ac_workflowTag claim) (ac_executionId claim) deferredName))) (\<lambda>event.
             case event of
               None \<Rightarrow> bind_proc (note_pending (set_add deferredName)) (\<lambda>_. give None)
             | Some v \<Rightarrow>
                 bind_proc (write_checkpoint claim checkpointName v) (\<lambda>_.
                 bind_proc (note_pending (set_delete deferredName)) (\<lambda>_.
                 bind_proc (or_throw (decodeStructuralExit codec v)) (\<lambda>e. give (Some e)))))))"

text \<open>\<open>Workflow.suspend\<close> of Effect: the instance is marked, and the fiber interrupts itself.\<close>

definition wf_suspend :: "(claim_state, 'a) wf" where
  "wf_suspend = bind_proc (modify (update_current (\<lambda>i. i\<lparr>in_suspended := True\<rparr>))) (\<lambda>_. fail [Interrupt])"

text \<open>
  \<open>DurableDeferred.await\<close> of Effect, which the handlers call: the name is entered before the read, and a pending
  deferred suspends the instance.
\<close>

definition await_deferred :: "exit_codec \<Rightarrow> ActiveClaim \<Rightarrow> string \<Rightarrow> (claim_state, json option) wf" where
  "await_deferred codec claim deferredName =
     bind_proc (modify (update_current (\<lambda>i. i\<lparr>in_awaitedDeferreds := set_add deferredName (in_awaitedDeferreds i)\<rparr>))) (\<lambda>_.
     bind_proc (deferredResult codec claim deferredName) (\<lambda>r.
       case r of
         None \<Rightarrow> wf_suspend
       | Some e \<Rightarrow> Exit e))"

definition find_queues :: "QueueConfig list \<Rightarrow> string \<Rightarrow> ('w world_scheme, string list) wf" where
  "find_queues configs executionId =
     fold_proc (\<lambda>config matches.
       bind_proc (orDie (store_taskByExecutionId (qc_name config) executionId)) (\<lambda>task.
         give (if task \<noteq> None then matches @ [qc_name config] else matches))) configs []"

definition queueForDeferred :: "'p engine \<Rightarrow> string \<Rightarrow> string \<Rightarrow> ('w world_scheme, string) wf" where
  "queueForDeferred e workflowName executionId =
     (case en_registrations e workflowName of
        Some registered \<Rightarrow> give (wr_queue registered)
      | None \<Rightarrow>
          bind_proc (find_queues (en_configs e) executionId) (\<lambda>matches.
            case matches of
              [q] \<Rightarrow> give q
            | _ \<Rightarrow> die (Thrown (JStr (''Expected exactly one Absurd queue'')))))"

definition deferredDone ::
    "exit_codec \<Rightarrow> 'p engine \<Rightarrow> string \<Rightarrow> string \<Rightarrow> string \<Rightarrow> exit_value \<Rightarrow> ('w world_scheme, unit) wf" where
  "deferredDone codec e workflowName executionId deferredName outcome =
     bind_proc (queueForDeferred e workflowName executionId) (\<lambda>queue.
     bind_proc (or_throw (encodeStructuralExit codec outcome)) (\<lambda>encoded.
     bind_proc (orDie (store_emitEvent queue (deferredEventName workflowName executionId deferredName) encoded)) (\<lambda>_.
       ring_task queue executionId)))"

definition scheduleClock ::
    "exit_codec \<Rightarrow> ActiveClaim \<Rightarrow> string \<Rightarrow> string \<Rightarrow> string \<Rightarrow> rat \<Rightarrow> (claim_state, unit) wf" where
  "scheduleClock codec claim workflowTag executionId deferredName duration =
     (let deadlineCheckpoint = clockDeadlineCheckpointName deferredName
      in bind_proc (checkpoint claim deadlineCheckpoint) (\<lambda>existing.
         bind_proc clock_now (\<lambda>now.
         let due = (case Option.bind existing json_number of Some t \<Rightarrow> t | None \<Rightarrow> of_int now + duration)
         in bind_proc (if existing = None then write_checkpoint claim deadlineCheckpoint (JNum due) else give ()) (\<lambda>_.
            if of_int now < due then give ()
            else bind_proc (or_throw (encodeStructuralExit codec (Inr (Some JNull)))) (\<lambda>completion.
                 bind_proc (write_checkpoint claim (deferredCheckpointName deferredName) completion) (\<lambda>_.
                   orDie (store_emitEvent (ac_queue claim)
                     (deferredEventName workflowTag executionId deferredName) completion)))))))"

section \<open>Processing a claim\<close>

text \<open>The start: the execution id, the registration and the payload, or the end of a claim without them.\<close>

definition begin_claim ::
    "'p engine \<Rightarrow> QueueConfig \<Rightarrow> int \<times> int \<Rightarrow> ClaimedRow \<Rightarrow>
     ('w world_scheme, ('p Registration \<times> 'p \<times> string) option) wf" where
  "begin_claim e config random claimed =
     bind_proc (orDie (store_executionIdForTask (qc_name config) (cr_task_id claimed))) (\<lambda>executionId.
       case executionId of
         None \<Rightarrow> bind_proc (wf_failMissingExecutionId (qc_name config) claimed) (\<lambda>_. give None)
       | Some i \<Rightarrow>
           (case en_registrations e (cr_task_name claimed) of
              None \<Rightarrow> bind_proc (deferUnknownRun random (qc_name config) claimed) (\<lambda>_. give None)
            | Some registration \<Rightarrow>
                bind_proc (or_throw (wf_decodePayload (wr_workflow registration) (cr_params claimed)))
                  (\<lambda>payload. give (Some (registration, payload, i)))))"

definition active_claim :: "QueueConfig \<Rightarrow> ClaimedRow \<Rightarrow> 'p Registration \<Rightarrow> string \<Rightarrow> ActiveClaim" where
  "active_claim config claimed registration executionId =
     \<lparr>ac_queue = qc_name config, ac_taskId = cr_task_id claimed, ac_runId = cr_run_id claimed,
      ac_workflowTag = wf_tag (wr_workflow registration), ac_executionId = executionId,
      ac_childStatusPollInterval = qc_childStatusPollInterval config\<rparr>"

text \<open>
  The handler: an interruption from outside is a suspension unless the instance is interrupted, and at the end the
  durable marker turns whatever the handler gave into an interruption.
\<close>

definition on_interrupt :: "exit_value \<Rightarrow> (claim_state, unit) wf" where
  "on_interrupt r =
     (case r of
        Inl c \<Rightarrow>
          if Interrupt \<in> set c
          then modify (\<lambda>s. if in_interrupted (cl_root s) then s else s\<lparr>cl_root := (cl_root s)\<lparr>in_suspended := True\<rparr>\<rparr>)
          else give ()
      | Inr _ \<Rightarrow> give ())"

definition commit_boundary :: "ActiveClaim \<Rightarrow> (claim_state, unit) wf" where
  "commit_boundary claim =
     bind_proc (interruptRequested claim) (\<lambda>interrupted.
       if \<not> interrupted then give ()
       else bind_proc (modify (\<lambda>s. s\<lparr>cl_root := (cl_root s)\<lparr>in_interrupted := True, in_suspended := False\<rparr>\<rparr>))
              (\<lambda>_. fail [Interrupt]))"

definition run_handler ::
    "ActiveClaim \<Rightarrow> 'p Registration \<Rightarrow> 'p \<Rightarrow> (claim_state, wf_result) wf" where
  "run_handler claim registration payload =
     intoResult (wr_workflow registration)
       (onExit (onExit (wr_execute registration claim payload (ac_executionId claim)) on_interrupt)
         (\<lambda>_. commit_boundary claim))"

definition commit_result ::
    "ActiveClaim \<Rightarrow> 'p Registration \<Rightarrow> ClaimedRow \<Rightarrow> wf_result \<Rightarrow> (claim_state, unit) wf" where
  "commit_result claim registration claimed outcome =
     bind_proc (or_throw (wf_encodeResult (wr_workflow registration) outcome)) (\<lambda>stored.
     bind_proc (or_throw (decodeParentExecution (cr_headers claimed))) (\<lambda>parent.
       transaction
         (bind_proc (orDie (store_completeRun (ac_queue claim) (ac_runId claim) stored)) (\<lambda>_.
            case parent of None \<Rightarrow> give () | Some p \<Rightarrow> ringExecutionDoorbell p))))"

definition settle_outcome ::
    "int \<times> int \<Rightarrow> ActiveClaim \<Rightarrow> 'p Registration \<Rightarrow> ClaimedRow \<Rightarrow> wf_result \<Rightarrow> (claim_state, unit) wf" where
  "settle_outcome random claim registration claimed outcome =
     (case outcome of
        Complete _ \<Rightarrow> commit_result claim registration claimed outcome
      | Suspended \<Rightarrow> parkSuspended random claim)"

text \<open>
  The race of handler, lease renewal and active wake, among the statements \<open>env\<close> of other processes. When the handler
  does not win, it is interrupted after some of its statements; its finalizers then only touch its instance.
\<close>

inductive processClaim ::
    "(claim_state \<Rightarrow> claim_state \<Rightarrow> bool) \<Rightarrow> 'p engine \<Rightarrow> QueueConfig \<Rightarrow> int \<times> int \<Rightarrow> ClaimedRow \<Rightarrow>
     world \<Rightarrow> cause + unit \<Rightarrow> claim_state \<Rightarrow> bool"
  for env e config random claimed where
  not_begun: "ends env (begin_claim e config random claimed) (enter_claim w) (Inl c) s \<Longrightarrow>
    processClaim env e config random claimed w (Inl c) s"
| set_aside: "ends env (begin_claim e config random claimed) (enter_claim w) (Inr None) s \<Longrightarrow>
    processClaim env e config random claimed w (Inr ()) s"
| handler: "ends env (begin_claim e config random claimed) (enter_claim w) (Inr (Some (registration, payload, i))) s \<Longrightarrow>
    claim = active_claim config claimed registration i \<Longrightarrow>
    ends env (bind_proc (run_handler claim registration payload) (settle_outcome random claim registration claimed)) s r s' \<Longrightarrow>
    processClaim env e config random claimed w r s'"
| active_wake: "ends env (begin_claim e config random claimed) (enter_claim w) (Inr (Some (registration, payload, i))) s \<Longrightarrow>
    claim = active_claim config claimed registration i \<Longrightarrow>
    ahead env (run_handler claim registration payload) s rest s1 \<Longrightarrow>
    ends env (activeWakeAvailable claim) s1 (Inr True) s2 \<Longrightarrow>
    ends env (reschedule claim) s2 r s' \<Longrightarrow>
    processClaim env e config random claimed w r s'"
| lease_lost: "ends env (begin_claim e config random claimed) (enter_claim w) (Inr (Some (registration, payload, i))) s \<Longrightarrow>
    claim = active_claim config claimed registration i \<Longrightarrow>
    ahead env (run_handler claim registration payload) s rest s1 \<Longrightarrow>
    ends env (heartbeat_beat claim (qc_claimTimeout config)) s1 (Inl c) s' \<Longrightarrow>
    processClaim env e config random claimed w (Inl c) s'"

section \<open>Operations on executions\<close>

definition resultFromSnapshot :: "'p workflow \<Rightarrow> result_row \<Rightarrow> ('s, wf_result) wf" where
  "resultFromSnapshot w snapshot =
     (case tr_state snapshot of
        Completed \<Rightarrow> or_throw (wf_decodeResult w (or_null (tr_result snapshot)))
      | Failed \<Rightarrow> die (throw_error ''Workflow ended in state failed'')
      | Cancelled \<Rightarrow> die (throw_error ''Workflow ended in state cancelled'')
      | _ \<Rightarrow> give Suspended)"

datatype execution_status =
    Ex_NotFound
  | Ex_Pending
  | Ex_Running
  | Ex_Sleeping
  | Ex_Completed exit_value
  | Ex_Failed json
  | Ex_Cancelled

definition find_snapshot :: "string \<Rightarrow> string \<Rightarrow> ('w world_scheme, result_row option) wf" where
  "find_snapshot queue executionId =
     bind_proc (orDie (store_taskByExecutionId queue executionId)) (\<lambda>task.
       case task of
         None \<Rightarrow> give None
       | Some t \<Rightarrow> orDie (store_taskResult queue (xt_task_id t)))"

definition getExecutionStatus :: "QueueConfig list \<Rightarrow> 'p workflow \<Rightarrow> string \<Rightarrow> ('w world_scheme, execution_status) wf" where
  "getExecutionStatus configs w executionId =
     bind_proc (or_throw (queueFor configs w)) (\<lambda>queue.
     bind_proc (find_snapshot queue executionId) (\<lambda>snapshot.
       case snapshot of
         None \<Rightarrow> give Ex_NotFound
       | Some row \<Rightarrow>
           (case tr_state row of
              Pending \<Rightarrow> give Ex_Pending
            | Running \<Rightarrow> give Ex_Running
            | Sleeping \<Rightarrow> give Ex_Sleeping
            | Completed \<Rightarrow>
                bind_proc (or_throw (wf_decodeResult w (or_null (tr_result row)))) (\<lambda>result.
                  case result of
                    Complete e \<Rightarrow> give (Ex_Completed e)
                  | Suspended \<Rightarrow> die (Thrown (JStr ''Completed Absurd task contained a suspended Effect workflow result.'')))
            | Failed \<Rightarrow> give (Ex_Failed (or_null (tr_failure_reason row)))
            | Cancelled \<Rightarrow> give Ex_Cancelled)))"

definition engine_poll :: "QueueConfig list \<Rightarrow> 'p workflow \<Rightarrow> string \<Rightarrow> ('w world_scheme, wf_result option) wf" where
  "engine_poll configs w executionId =
     bind_proc (or_throw (queueFor configs w)) (\<lambda>queue.
     bind_proc (find_snapshot queue executionId) (\<lambda>snapshot.
       case snapshot of
         None \<Rightarrow> give None
       | Some row \<Rightarrow>
           if tr_state row = Pending \<or> tr_state row = Running then give None
           else bind_proc (resultFromSnapshot w row) (\<lambda>r. give (Some r))))"

definition cancelByExecutionId :: "QueueConfig list \<Rightarrow> 'p workflow \<Rightarrow> string \<Rightarrow> ('w world_scheme, unit) wf" where
  "cancelByExecutionId configs w executionId =
     bind_proc (or_throw (queueFor configs w)) (\<lambda>queue.
     bind_proc (orDie (store_taskByExecutionId queue executionId)) (\<lambda>task.
       case task of None \<Rightarrow> give () | Some t \<Rightarrow> orDie (store_cancelTask queue (xt_task_id t))))"

definition interruptByExecutionId :: "QueueConfig list \<Rightarrow> 'p workflow \<Rightarrow> string \<Rightarrow> ('w world_scheme, unit) wf" where
  "interruptByExecutionId configs w executionId =
     bind_proc (or_throw (queueFor configs w)) (\<lambda>queue.
       transaction
         (bind_proc (orDie (store_taskByExecutionId queue executionId)) (\<lambda>task.
            case task of
              None \<Rightarrow> give ()
            | Some t \<Rightarrow>
                if isTerminalTaskState (xt_state t) then give ()
                else (case xt_last_attempt_run t of
                        None \<Rightarrow> die (Thrown (JStr ''Active Absurd task has no run.''))
                      | Some runId \<Rightarrow>
                          bind_proc (orDie (store_setCheckpointState queue (xt_task_id t) interruptCheckpointName
                            (JBool True) runId None)) (\<lambda>_.
                          ringCurrentDoorbell queue runId)))))"

definition engine_resume :: "QueueConfig list \<Rightarrow> 'p workflow \<Rightarrow> string \<Rightarrow> ('w world_scheme, unit) wf" where
  "engine_resume configs w executionId =
     bind_proc (or_throw (queueFor configs w)) (\<lambda>queue. ring_task queue executionId)"

definition workflow_spawn_options :: "string \<Rightarrow> ExecutionReference option \<Rightarrow> json" where
  "workflow_spawn_options executionId parent =
     JObj ([(''idempotency_key'', JStr executionId), (''max_attempts'', JNum 5),
            (''retry_strategy'', JObj [(''kind'', JStr ''fixed''), (''base_seconds'', JNum 1)])] @
           opt_field ''headers'' (map_option parentExecutionHeaders parent))"

text \<open>
  \<open>note\<close> enters a child into the map of the claim that executes it; outside a claim it does nothing. The result is
  \<open>None\<close> for an execution whose result is discarded.
\<close>

definition child_key :: "ExecutionReference \<Rightarrow> string" where
  "child_key child = xr_queue child @ CHR '':'' # xr_executionId child"

definition note_child :: "ExecutionReference \<Rightarrow> claim_state \<Rightarrow> claim_state" where
  "note_child child s = s\<lparr>cl_awaitedChildren := AList.update (child_key child) child (cl_awaitedChildren s)\<rparr>"

definition engine_execute ::
    "QueueConfig list \<Rightarrow> (ExecutionReference \<Rightarrow> 'w world_scheme \<Rightarrow> 'w world_scheme) \<Rightarrow> 'p workflow \<Rightarrow> string \<Rightarrow> 'p \<Rightarrow>
     ('p workflow \<times> string) option \<Rightarrow> bool \<Rightarrow> ('w world_scheme, wf_result option) wf" where
  "engine_execute configs note w executionId payload parent discard =
     bind_proc (or_throw (queueFor configs w)) (\<lambda>queue.
     bind_proc (case parent of
         None \<Rightarrow> give None
       | Some (pw, px) \<Rightarrow> bind_proc (or_throw (queueFor configs pw)) (\<lambda>q.
           give (Some \<lparr>xr_queue = q, xr_executionId = px\<rparr>))) (\<lambda>parentRef.
     bind_proc (or_throw (wf_encodePayload w payload)) (\<lambda>storedPayload.
     bind_proc (orDie (store_spawnTask queue (wf_tag w) storedPayload (workflow_spawn_options executionId parentRef)))
       (\<lambda>taskId.
     bind_proc (if parentRef = None then give ()
                else modify (note \<lparr>xr_queue = queue, xr_executionId = executionId\<rparr>)) (\<lambda>_.
     if discard then give None
     else bind_proc (orDie (store_taskResult queue taskId)) (\<lambda>snapshot.
       case snapshot of
         None \<Rightarrow> die (Thrown (JStr ''Absurd task vanished from queue''))
       | Some row \<Rightarrow> bind_proc (resultFromSnapshot w row) (\<lambda>r. give (Some r))))))))"

section \<open>The worker loop\<close>

text \<open>
  One fiber of a queue: it claims and processes; an error of the processing is logged, but one of the claim ends the
  fiber, because \<open>Effect.orDie\<close> stands outside the \<open>catchCause\<close>.
\<close>

datatype fiber = Looping | Ended

inductive workerLoop ::
    "(claim_state \<Rightarrow> claim_state \<Rightarrow> bool) \<Rightarrow> (world \<Rightarrow> world \<Rightarrow> bool) \<Rightarrow> 'p engine \<Rightarrow> QueueConfig \<Rightarrow> string \<Rightarrow>
     fiber \<times> world \<Rightarrow> fiber \<times> world \<Rightarrow> bool"
  for env outside e config workerId where
  nothing: "store_claimTask (qc_name config) workerId (toPositiveWholeSeconds (qc_claimTimeout config)) w = (Inr None, w') \<Longrightarrow>
    workerLoop env outside e config workerId (Looping, w) (Looping, w')"
| claimed: "store_claimTask (qc_name config) workerId (toPositiveWholeSeconds (qc_claimTimeout config)) w = (Inr (Some row), w1) \<Longrightarrow>
    processClaim env e config random row w1 r s \<Longrightarrow>
    workerLoop env outside e config workerId (Looping, w) (Looping, world.truncate s)"
| claim_fails: "store_claimTask (qc_name config) workerId (toPositiveWholeSeconds (qc_claimTimeout config)) w = (Inl err, w') \<Longrightarrow>
    workerLoop env outside e config workerId (Looping, w) (Ended, w')"
| others: "outside w w' \<Longrightarrow> workerLoop env outside e config workerId (k, w) (k, w')"

text \<open>The fibers of a queue, which start when the first workflow is registered on it.\<close>

definition worker_fibers :: "'p engine \<Rightarrow> QueueConfig \<Rightarrow> fiber list" where
  "worker_fibers e config =
     (if qc_name config \<in> set (en_ready e) then replicate (nat (qc_concurrency config)) Looping else [])"

text \<open>One of them moves; what the rest of the engine and other processes do is \<open>outside\<close>.\<close>

inductive queue_workers ::
    "(claim_state \<Rightarrow> claim_state \<Rightarrow> bool) \<Rightarrow> (world \<Rightarrow> world \<Rightarrow> bool) \<Rightarrow> 'p engine \<Rightarrow> QueueConfig \<Rightarrow> string \<Rightarrow>
     fiber list \<times> world \<Rightarrow> fiber list \<times> world \<Rightarrow> bool"
  for env outside e config workerId where
  fiber: "i < length fs \<Longrightarrow> workerLoop env outside e config workerId (fs ! i, w) (k, w') \<Longrightarrow>
    queue_workers env outside e config workerId (fs, w) (fs[i := k], w')"

end
