(* ===== verification/Workflow_Wake.thy ===== *)
theory Workflow_Wake
  imports Workflow_Engine Effect_Store
begin

text \<open>
  Parking and waking, with the statements of other processes between those of the engine: what a park that leaves its
  run asleep has seen, and that a producer wakes what it finds asleep.
\<close>

section \<open>Other processes\<close>

text \<open>
  A run is asleep on a doorbell when it waits for the doorbell's event and that has not been emitted. Other processes
  move the queues by the stored functions, but none of them puts the run to sleep on this very doorbell, whose name
  is random; they do not touch what is local to the process.
\<close>

definition asleep_on :: "string \<Rightarrow> uuid \<Rightarrow> uuid \<Rightarrow> qstate \<Rightarrow> bool" where
  "asleep_on bell ti i q \<longleftrightarrow> event_payload bell q = None \<and>
     (\<exists>r. find_run i q = Some r \<and> r_task r = ti \<and> r_state r = Sleeping \<and> r_wake_event r = Some bell)"

definition queue_others :: "string \<Rightarrow> uuid \<Rightarrow> uuid \<Rightarrow> qstate \<Rightarrow> qstate \<Rightarrow> bool" where
  "queue_others bell ti i q q' \<longleftrightarrow> queue_step\<^sup>*\<^sup>* q q' \<and> (asleep_on bell ti i q' \<longrightarrow> asleep_on bell ti i q)"

definition others :: "string \<Rightarrow> string \<Rightarrow> uuid \<Rightarrow> uuid \<Rightarrow> 'w world_scheme \<Rightarrow> 'w world_scheme \<Rightarrow> bool" where
  "others n bell ti i s s' \<longleftrightarrow> world.more s' = world.more s \<and> db_others s s' \<and>
     (\<forall>q q'. map_of (w_queues s) n = Some q \<longrightarrow> map_of (w_queues s') n = Some q' \<longrightarrow>
        asleep_on bell ti i q' \<longrightarrow> asleep_on bell ti i q)"

lemma queue_others_refl [simp]: "queue_others bell ti i q q"
  by (simp add: queue_others_def)

lemma queue_others_trans:
  "queue_others bell ti i q q1 \<Longrightarrow> queue_others bell ti i q1 q2 \<Longrightarrow> queue_others bell ti i q q2"
  unfolding queue_others_def by auto

lemma others_queue:
  assumes "others n bell ti i s s'" "map_of (w_queues s) n = Some q"
  shows "\<exists>q'. map_of (w_queues s') n = Some q' \<and> queue_others bell ti i q q'"
  using assms unfolding others_def queue_others_def by (meson db_othersD)

lemma others_star:
  assumes "(others n bell ti i)\<^sup>*\<^sup>* s s'"
  shows "world.more s' = world.more s" "map_of (w_queues s) n = Some q \<Longrightarrow>
    \<exists>q'. map_of (w_queues s') n = Some q' \<and> queue_others bell ti i q q'"
proof -
  have "world.more s' = world.more s \<and> (\<forall>q. map_of (w_queues s) n = Some q \<longrightarrow>
      (\<exists>q'. map_of (w_queues s') n = Some q' \<and> queue_others bell ti i q q'))"
    using assms
  proof (induction rule: rtranclp_induct)
    case (step y z)
    have "world.more z = world.more y" using step.hyps(2) by (simp add: others_def)
    with step.IH show ?case using others_queue [OF step.hyps(2)] queue_others_trans by metis
  qed simp
  then show "world.more s' = world.more s" "map_of (w_queues s) n = Some q \<Longrightarrow>
    \<exists>q'. map_of (w_queues s') n = Some q' \<and> queue_others bell ti i q q'" by blast+
qed

lemma queue_others_kept:
  "queue_others bell ti i q q' \<Longrightarrow> queue_inv q \<Longrightarrow> queue_inv q' \<and> events_kept q q' \<and> evolves q q'"
  using queue_steps_kept queue_steps_evolve by (auto simp: queue_others_def)

section \<open>Statements that only read\<close>

lemma set_queue_same [simp]: "map_of (w_queues w) n = Some q \<Longrightarrow> set_queue n q w = w"
proof -
  have "map_of xs n = Some q \<Longrightarrow> AList.update n q xs = xs" for xs :: "(string \<times> qstate) list"
    by (induction xs) (auto split: if_splits)
  then show "map_of (w_queues w) n = Some q \<Longrightarrow> set_queue n q w = w"
    by (cases w) (simp add: set_queue_def)
qed

lemma more_set_queue [simp]: "world.more (set_queue n q w) = world.more w"
  by (simp add: set_queue_def)

definition reads :: "('s \<Rightarrow> 's \<Rightarrow> bool) \<Rightarrow> ('s, 'e, 'a) proc \<Rightarrow> bool" where
  "reads env p \<longleftrightarrow> (\<forall>s r s'. ends env p s r s' \<longrightarrow> env\<^sup>*\<^sup>* s s')"

named_theorems reading \<open>statements and programs that only read\<close>

lemma readsD: "reads env p \<Longrightarrow> ends env p s r s' \<Longrightarrow> env\<^sup>*\<^sup>* s s'"
  by (auto simp: reads_def)

lemma reads_give [reading]: "reads env (give a)" and reads_fail [reading]: "reads env (fail e)"
  and reads_die [reading]: "reads env (die x)"
  by (auto simp: reads_def)

lemma reads_get [reading]: "reads env (get f)"
  by (auto simp: reads_def)

lemma reads_bind [reading]: "reads env p \<Longrightarrow> (\<And>a. reads env (k a)) \<Longrightarrow> reads env (bind_proc p k)"
  unfolding reads_def ends_bind by (meson rtranclp_trans)

lemma reads_orDie: "(\<And>s. snd (m s) = s) \<Longrightarrow> reads env (orDie m)"
  unfolding reads_def ends_orDie by (metis rtranclp_trans snd_conv)

lemma reads_some [reading]: "(\<And>x. reads env (p x)) \<Longrightarrow> reads env (some_proc p xs)"
  by (induction xs) (auto intro!: reading)

lemma reads_fold [reading]: "(\<And>x b. reads env (f x b)) \<Longrightarrow> reads env (fold_proc f xs b)"
  by (induction xs arbitrary: b) (auto intro!: reading)

lemma snd_sql_rows [simp]: "snd (sql_rows n f w) = w"
  by (auto simp: sql_rows_eq split: option.splits sum.splits)

lemma snd_check [simp]: "snd (check r w) = w"
  by (cases r) simp_all

lemma snd_bind_check [simp]: "(\<And>a. snd (f a w) = w) \<Longrightarrow> snd (bind_ts (check r) f w) = w"
  by (cases r) (simp_all add: bind_ts_def)

lemma reads_queries [reading]:
  "reads env (orDie (store_checkpointState n ti c))" "reads env (orDie (store_eventPayload n ev))"
  "reads env (orDie (store_taskByExecutionId n x))" "reads env (orDie (store_currentWakeEvent n i))"
  by (rule reads_orDie; simp add: store_checkpointState_def store_eventPayload_def store_taskByExecutionId_def
      store_currentWakeEvent_def)+

lemma reads_polymorphic [reading]:
  "reads env (interruptRequested claim)" "reads env (deferredAvailable claim d)" "reads env (childIsTerminal child)"
  "reads env (deadline claim d)" "reads env (clockTimeoutSeconds t)"
  by (auto simp: interruptRequested_def deferredAvailable_def childIsTerminal_def deadline_def
      clockTimeoutSeconds_def clock_now_def checkpoint_def intro!: reading split: option.splits)

lemma reads_local [reading]:
  "reads env anyChildTerminal" "reads env (childPollTimeoutSeconds claim)"
  by (auto simp: anyChildTerminal_def childPollTimeoutSeconds_def intro!: reading)

lemma reads_survey_one [reading]: "reads env (survey_one claim d x)"
  by (auto simp: survey_one_def intro!: reading split: prod.splits)

lemma reads_survey [reading]: "reads env (survey claim)"
  by (auto simp: survey_def intro!: reading)

text \<open>A loop that found nothing has looked at every element.\<close>

lemma some_proc_none:
  assumes "ends env (some_proc p xs) s (Inr False) s'" "\<And>x. reads env (p x)" "x \<in> set xs"
  shows "\<exists>s1 s2. env\<^sup>*\<^sup>* s s1 \<and> ends env (p x) s1 (Inr False) s2 \<and> env\<^sup>*\<^sup>* s2 s'"
  using assms(1,3)
proof (induction xs arbitrary: s)
  case (Cons y ys)
  from Cons.prems(1) obtain s1 where y: "ends env (p y) s (Inr False) s1" "ends env (some_proc p ys) s1 (Inr False) s'"
    by (auto simp: ends_bind split: if_splits)
  have "env\<^sup>*\<^sup>* s1 s'" using y(2) readsD reads_some assms(2) by metis
  show ?case
  proof (cases "x = y")
    case True
    with y \<open>env\<^sup>*\<^sup>* s1 s'\<close> show ?thesis by blast
  next
    case False
    then have "x \<in> set ys" using Cons.prems(2) by simp
    from Cons.IH [OF y(2) this] obtain s2 s3 where "env\<^sup>*\<^sup>* s1 s2" "ends env (p x) s2 (Inr False) s3" "env\<^sup>*\<^sup>* s3 s'" by blast
    moreover have "env\<^sup>*\<^sup>* s s1" using readsD [OF assms(2) y(1)] .
    ultimately show ?thesis by (blast intro: rtranclp_trans)
  qed
qed simp

end
