(* ===== verification/Run_Life.thy ===== *)
theory Run_Life
  imports Store_Props
begin

text \<open>
  Runs keep their ids and their tasks: every stored function leaves the owners of the runs as they were, or adds a run
  at the end.
\<close>

definition owners :: "qstate \<Rightarrow> (uuid \<times> uuid) list" where
  "owners q = map (\<lambda>r. (r_id r, r_task r)) (runs q)"

definition owners_kept :: "qstate \<Rightarrow> qstate \<Rightarrow> bool" where
  "owners_kept q q' \<longleftrightarrow> (\<exists>zs. owners q' = owners q @ zs)"

lemma owners_keptI: "owners q' = owners q @ zs \<Longrightarrow> owners_kept q q'"
  by (auto simp: owners_kept_def)

lemma owners_same: "owners q' = owners q \<Longrightarrow> owners_kept q q'"
  by (auto intro: owners_keptI [of _ _ "[]"])

lemma owners_kept_refl [simp]: "owners_kept q q"
  by (rule owners_same) simp

lemma owners_kept_trans: "owners_kept q1 q2 \<Longrightarrow> owners_kept q2 q3 \<Longrightarrow> owners_kept q1 q3"
  unfolding owners_kept_def by fastforce

lemma owners_updates [simp]:
  "(\<And>x. r_id (f x) = r_id x \<and> r_task (f x) = r_task x) \<Longrightarrow> owners (update_runs P f q) = owners q"
  "owners (update_tasks Q g q) = owners q" "owners (delete_waits W q) = owners q"
  by (simp_all add: owners_def store_updates map_tbl_update)

lemma owners_cong: "runs q' = runs q \<Longrightarrow> owners q' = owners q"
  by (simp add: owners_def)

lemma owners_upsert [simp]: "owners (upsert_checkpoint c q) = owners q"
  by (simp add: owners_def upsert_checkpoint_def)

lemma owners_ensure [simp]: "owners (ensure_event n q) = owners q"
  by (simp add: owners_def)

lemma fail_run_owners: "fail_run now i reason retry_at q = Inr q' \<Longrightarrow> owners_kept q q'"
  by (erule fail_run_cases) (auto intro!: owners_keptI simp: owners_def new_run_def apply_fail_outcome_def settle_task_def
      mark_run_failed_def store_updates map_tbl_update Let_def split: fail_outcome.splits)

lemma cancel_task_owners: "cancel_task now i q = Inr q' \<Longrightarrow> owners_kept q q'"
  by (auto intro!: owners_same simp: cancel_task_def split: option.splits if_splits)

lemma fold_owners:
  assumes "fold_result f xs q = Inr q'" "\<And>x s s'. f x s = Inr s' \<Longrightarrow> owners_kept s s'"
  shows "owners_kept q q'"
  by (rule fold_result_invariant [OF assms(1), of "owners_kept q"])
    (auto dest: assms(2) intro: owners_kept_trans)

lemma claim_task_owners: "claim_task now worker timeout qty q = Inr (rows, q') \<Longrightarrow> owners_kept q q'"
proof (erule claim_task_cases)
  fix q1 q2
  assume a: "apply_cancellations now q = Inr q1" "sweep_expired now (nat (max qty 1)) q1 = Inr q2"
    "q' = take_runs now (if worker = [] then ''worker'' else worker)
       (if timeout > 0 then Some (now + timeout * second) else None)
       (candidates now (nat (max qty 1)) q2) q2"
  from a(1) obtain ids where "fold_result (cancel_task now) ids q = Inr q1"
    by (auto simp: apply_cancellations_def bind_result_Inr)
  then have "owners_kept q q1" by (rule fold_owners) (rule cancel_task_owners)
  moreover have "owners_kept q1 q2"
    using a(2) unfolding sweep_expired_def by (rule fold_owners) (rule fail_run_owners)
  moreover have "owners_kept q2 q'"
    unfolding a(3) by (rule owners_same) (simp add: take_runs_def)
  ultimately show "owners_kept q q'" by (blast intro: owners_kept_trans)
qed

lemma spawn_task_owners:
  assumes "spawn_task now n p opts q = Inr (row, q')"
  shows "owners_kept q q'"
  using assms
  by (cases rule: spawn_task_cases) (auto intro!: owners_keptI simp: owners_def insert_task_def)

lemma retry_task_owners:
  assumes "retry_task now i opts q = Inr (row, q')"
  shows "owners_kept q q'"
  using assms
proof (cases rule: retry_task_cases)
  case respawn
  then show ?thesis by (blast intro: spawn_task_owners)
next
  case revive
  then show ?thesis by (auto intro!: owners_keptI simp: owners_def store_updates)
qed

lemma await_event_owners:
  assumes c: "await_event now ti i step ev timeout q = Inr (w, q')"
  shows "owners_kept q q'"
  using c
proof (cases rule: await_event_cases)
  case (saved p)
  then show ?thesis by simp
next
  case (live r t q1)
  have q1: "owners q1 = owners q" by (simp add: live(6))
  have reg: "owners (register_wait now ti i step ev d q1) = owners q1" for d
    by (simp add: register_wait_def) (simp add: owners_def)
  show ?thesis using live(7) q1 reg by (intro owners_same) auto
qed

lemma emit_event_owners:
  assumes "emit_event now n p q = Inr q'"
  shows "owners_kept q q'"
  using assms
proof (cases rule: emit_event_cases)
  case again
  then show ?thesis by simp
next
  case (first q1)
  have "owners q1 = owners q"
    using first(1) by (intro owners_cong) (auto simp: record_event_def split: option.splits if_splits)
  moreover have "owners (fold upsert_checkpoint cs q1) = owners q1" for cs
    by (rule owners_cong) (simp add: fold_upsert_checkpoint)
  ultimately show ?thesis
    by (intro owners_same) (simp add: first(2) wake_waiters_def Let_def owners_def fold_upsert_checkpoint
        store_updates map_tbl_update)
qed

lemma queue_step_owners: "queue_step q q' \<Longrightarrow> owners_kept q q'"
proof (induction rule: queue_step.induct)
  case (complete now i p q q')
  then show ?case by (auto intro!: owners_same simp: complete_run_def split: option.splits if_splits)
next
  case (schedule i w q q')
  then show ?case by (auto intro!: owners_same simp: schedule_run_def split: option.splits)
next
  case (checkpoint now ti n st i ext q q' r)
  then show ?case
    by (auto intro!: owners_same simp: set_task_checkpoint_state_def Let_def split: option.splits if_splits)
next
  case (extend now i ext q q')
  then show ?case by (auto intro!: owners_same simp: extend_claim_def split: option.splits if_splits)
qed (blast intro: spawn_task_owners claim_task_owners fail_run_owners retry_task_owners cancel_task_owners
      await_event_owners emit_event_owners)+

lemma queue_steps_owners: "queue_step\<^sup>*\<^sup>* q q' \<Longrightarrow> owners_kept q q'"
  by (induction rule: rtranclp_induct) (auto intro: owners_kept_trans queue_step_owners)

text \<open>The task of a run, whatever happens.\<close>

definition owned_by :: "uuid \<Rightarrow> uuid \<Rightarrow> qstate \<Rightarrow> bool" where
  "owned_by ti i q \<longleftrightarrow> (\<exists>r. find_run i q = Some r \<and> r_task r = ti)"

lemma find_owner: "map_option r_task (find_run i q) = map_of (owners q) i"
proof -
  have "map_option r_task (tbl_find (\<lambda>r. r_id r = i) rs) = map_of (map (\<lambda>r. (r_id r, r_task r)) rs) i" for rs
    by (induction rs) auto
  then show ?thesis by (simp add: find_run_def owners_def)
qed

lemma owned_by_iff: "owned_by ti i q \<longleftrightarrow> map_of (owners q) i = Some ti"
  by (simp add: owned_by_def flip: find_owner)

lemma owned_by_kept: "owners_kept q q' \<Longrightarrow> owned_by ti i q \<Longrightarrow> owned_by ti i q'"
  by (auto simp: owned_by_iff owners_kept_def map_add_Some_iff)

lemma owned_byD: "owned_by ti i q \<Longrightarrow> find_run i q = Some r \<Longrightarrow> r_task r = ti"
  by (simp add: owned_by_def)

end
