(* ===== verification/Sleep_Life.thy ===== *)
theory Sleep_Life
  imports Run_Life Run_Spec
begin

text \<open>
  No run sleeps through its event: a sleeping run that waits for an event still has its wait, or the event has been
  emitted and the run is available since.
\<close>

definition heard :: "wait_row list \<Rightarrow> event_row list \<Rightarrow> run_row \<Rightarrow> bool" where
  "heard ws es r \<longleftrightarrow> (\<forall>n. r_state r = Sleeping \<and> r_wake_event r = Some n \<longrightarrow>
     (\<exists>w \<in> set ws. w_run w = r_id r \<and> w_event w = n) \<or>
     (\<exists>e \<in> set es. e_name e = n \<and> e_payload e \<noteq> None \<and> r_available_at r \<le> At (e_emitted_at e)))"

definition sleepers_inv :: "qstate \<Rightarrow> bool" where
  "sleepers_inv q \<longleftrightarrow> (\<forall>r \<in> set (runs q). heard (waits q) (events q) r)"

lemma heard_awake: "r_state r \<noteq> Sleeping \<or> r_wake_event r = None \<Longrightarrow> heard ws es r"
  by (auto simp: heard_def)

lemma heard_waits:
  assumes "heard ws es r" "\<And>w. w \<in> set ws \<Longrightarrow> w_run w = r_id r \<Longrightarrow> w \<in> set ws'" "set es \<subseteq> set es'"
  shows "heard ws' es' r"
  unfolding heard_def
proof (intro allI impI)
  fix n assume "r_state r = Sleeping \<and> r_wake_event r = Some n"
  then consider w where "w \<in> set ws" "w_run w = r_id r" "w_event w = n"
    | e where "e \<in> set es" "e_name e = n" "e_payload e \<noteq> None" "r_available_at r \<le> At (e_emitted_at e)"
    using assms(1) by (auto simp: heard_def)
  then show "(\<exists>w \<in> set ws'. w_run w = r_id r \<and> w_event w = n) \<or>
     (\<exists>e \<in> set es'. e_name e = n \<and> e_payload e \<noteq> None \<and> r_available_at r \<le> At (e_emitted_at e))"
    using assms(2,3) by cases blast+
qed

lemma sleepers_invI:
  assumes "sleepers_inv q" "set (events q) \<subseteq> set (events q')"
    and "\<And>r'. r' \<in> set (runs q') \<Longrightarrow> r_state r' = Sleeping \<Longrightarrow> r_wake_event r' \<noteq> None \<Longrightarrow>
      r' \<in> set (runs q) \<and> (\<forall>w \<in> set (waits q). w_run w = r_id r' \<longrightarrow> w \<in> set (waits q'))"
  shows "sleepers_inv q'"
  unfolding sleepers_inv_def
proof
  fix r' assume r': "r' \<in> set (runs q')"
  show "heard (waits q') (events q') r'"
  proof (cases "r_state r' = Sleeping \<and> r_wake_event r' \<noteq> None")
    case True
    then have "r' \<in> set (runs q)" "\<forall>w \<in> set (waits q). w_run w = r_id r' \<longrightarrow> w \<in> set (waits q')"
      using assms(3) [OF r'] by blast+
    then show ?thesis using assms(1,2) heard_waits by (auto simp: sleepers_inv_def)
  next
    case False
    then show ?thesis by (intro heard_awake) blast
  qed
qed

lemma sleepers_move:
  assumes "sleepers_inv q" "runs q' = tbl_update P f (runs q) @ new" "events q' = events q"
    and "\<And>x. x \<in> set (runs q) \<Longrightarrow> P x \<Longrightarrow> r_state (f x) \<noteq> Sleeping \<or> r_wake_event (f x) = None"
    and "\<And>x. x \<in> set new \<Longrightarrow> r_wake_event x = None"
    and "\<And>x w. x \<in> set (runs q) \<Longrightarrow> \<not> P x \<Longrightarrow> r_state x = Sleeping \<Longrightarrow> w \<in> set (waits q) \<Longrightarrow> w_run w = r_id x \<Longrightarrow>
      w \<in> set (waits q')"
  shows "sleepers_inv q'"
proof (rule sleepers_invI [OF assms(1)])
  show "set (events q) \<subseteq> set (events q')" by (simp add: assms(3))
  fix r' assume r': "r' \<in> set (runs q')" "r_state r' = Sleeping" "r_wake_event r' \<noteq> None"
  then have "r' \<in> set (tbl_update P f (runs q))" using assms(2,5) by auto
  then obtain x where x: "x \<in> set (runs q)" "r' = (if P x then f x else x)" unfolding in_tbl_update ..
  with r' assms(4) [OF x(1)] have "\<not> P x" "r' = x" by (auto split: if_splits)
  then show "r' \<in> set (runs q) \<and> (\<forall>w \<in> set (waits q). w_run w = r_id r' \<longrightarrow> w \<in> set (waits q'))"
    using assms(6) [OF x(1)] x(1) r'(2) by auto
qed

lemmas sleepers_added = sleepers_move [where P = "\<lambda>_. False" and f = id]

lemma spawn_task_sleepers:
  assumes "spawn_task now n p opts q = Inr (row, q')" "sleepers_inv q"
  shows "sleepers_inv q'"
  using assms(1)
proof (cases rule: spawn_task_cases)
  case (created cols xs)
  show ?thesis
    by (rule sleepers_added [OF assms(2), of _ "[new_run (Suc (uuids q)) (uuids q) 1 Pending now now]"])
      (simp_all add: created(4) insert_task_def new_run_def tbl_update_def)
next
  case (existing cols t k)
  show ?thesis by (rule sleepers_added [OF assms(2), of _ "[]"]) (simp_all add: existing(6) tbl_update_def)
qed

lemma complete_run_sleepers:
  assumes "complete_run now i p q = Inr q'" "sleepers_inv q"
  shows "sleepers_inv q'"
  by (rule sleepers_move [OF assms(2), of _ "\<lambda>x. r_id x = i"
        "\<lambda>x. x\<lparr>r_state := Completed, r_completed_at := Some now, r_result := p\<rparr>" "[]"])
    (use assms(1) in \<open>auto simp: complete_run_def store_updates tbl_simps split: option.splits if_splits\<close>)

lemma schedule_run_sleepers:
  assumes "schedule_run i t q = Inr q'" "sleepers_inv q"
  shows "sleepers_inv q'"
  by (rule sleepers_move [OF assms(2), of _ "\<lambda>x. r_id x = i"
        "\<lambda>x. x\<lparr>r_state := Sleeping, r_claimed_by := None, r_claim_expires_at := None,
               r_available_at := At t, r_wake_event := None\<rparr>" "[]"])
    (use assms(1) in \<open>auto simp: schedule_run_def store_updates split: option.splits\<close>)

lemma fail_run_sleepers:
  assumes "fail_run now i reason retry_at q = Inr q'" "sleepers_inv q"
  shows "sleepers_inv q'"
  using assms(1)
proof (cases rule: fail_run_cases)
  case (1 r outcome)
  let ?new = "case outcome of Retry_at t \<Rightarrow>
    [new_run (uuids q) (r_task r) (r_attempt r + 1) (if t > now then Sleeping else Pending) t now] | _ \<Rightarrow> []"
  show ?thesis
    by (rule sleepers_move [OF assms(2), of _ "\<lambda>x. r_id x = i" "\<lambda>x. x\<lparr>r_state := Failed, r_wake_event := None,
          r_failed_at := Some now, r_failure_reason := reason\<rparr>" ?new])
      (auto simp: 1(4) apply_fail_outcome_def settle_task_def mark_run_failed_def new_run_def Let_def
        store_updates tbl_simps split: fail_outcome.splits)
qed

lemma wait_owner:
  assumes "queue_inv q" "w \<in> set (waits q)" "x \<in> set (runs q)" "w_run w = r_id x"
  shows "waits_for w x"
proof -
  obtain r where r: "r \<in> set (runs q)" "waits_for w r"
    using queue_inv_waitD [OF assms(1)] assms(2) by (auto simp: wait_inv_def)
  then have "r = x"
    using queue_inv_run_unique [OF queue_inv_coreD [OF assms(1)] r(1) assms(3)] assms(4) by (simp add: waits_for_def)
  with r show ?thesis by simp
qed

lemma cancel_task_sleepers:
  assumes "cancel_task now ti q = Inr q'" "sleepers_inv q" "queue_inv q"
  shows "sleepers_inv q'"
proof (cases "q' = q")
  case False
  have "w_task w = r_task x" if "w \<in> set (waits q)" "w_run w = r_id x" "x \<in> set (runs q)" for w x
    using wait_owner [OF assms(3) that(1,3,2)] by (simp add: waits_for_def)
  then show ?thesis
    by (intro sleepers_move [OF assms(2), of _ "\<lambda>r. r_task r = ti \<and> \<not> terminal (r_state r)"
          "\<lambda>r. r\<lparr>r_state := Cancelled, r_claimed_by := None, r_claim_expires_at := None\<rparr>" "[]"])
      (use assms(1) False in \<open>auto simp: cancel_task_def store_updates tbl_simps terminal_def split: option.splits if_splits\<close>)
qed (use assms in simp)

lemma fold_sleepers:
  assumes "fold_result f xs q = Inr q'" "\<And>x s s'. f x s = Inr s' \<Longrightarrow> queue_inv s \<Longrightarrow> queue_inv s'"
    "\<And>x s s'. f x s = Inr s' \<Longrightarrow> sleepers_inv s \<Longrightarrow> queue_inv s \<Longrightarrow> sleepers_inv s'" "sleepers_inv q" "queue_inv q"
  shows "sleepers_inv q' \<and> queue_inv q'"
  by (rule fold_result_invariant [OF assms(1), of "\<lambda>q. sleepers_inv q \<and> queue_inv q"]) (use assms in auto)

lemma claim_task_sleepers:
  assumes "claim_task now worker timeout qty q = Inr (rows, q')" "sleepers_inv q" "queue_inv q"
  shows "sleepers_inv q'"
  using assms(1)
proof (cases rule: claim_task_cases)
  case (1 q1 q2)
  from 1(1) obtain ids where ids: "fold_result (cancel_task now) ids q = Inr q1"
    by (auto simp: apply_cancellations_def bind_result_Inr)
  have q1: "sleepers_inv q1 \<and> queue_inv q1"
    by (rule fold_sleepers [OF ids _ _ assms(2,3)]) (erule cancel_task_inv [rotated] cancel_task_sleepers, assumption+)+
  have "sleepers_inv q2 \<and> queue_inv q2"
    using 1(2) unfolding sweep_expired_def
    by (rule fold_sleepers) (use q1 in \<open>blast intro: fail_run_sleepers fail_run_inv\<close>)+
  then have q2: "sleepers_inv q2" by simp
  define cs where "cs = candidates now (nat (max qty 1)) q2"
  define worker_id where "worker_id = (if worker = [] then ''worker'' else worker)"
  define until where "until = (if timeout > 0 then Some (now + timeout * second) else None)"
  have q': "q' = take_runs now worker_id until cs q2" by (simp add: 1(4) cs_def worker_id_def until_def)
  show ?thesis
    by (rule sleepers_move [OF q2, of _ "\<lambda>r. r_id r \<in> r_id ` set cs"
          "\<lambda>r. r\<lparr>r_state := Running, r_claimed_by := Some worker_id, r_claim_expires_at := until,
                 r_started_at := Some now, r_available_at := At now\<rparr>" "[]"])
      (auto simp: q' take_runs_def store_updates tbl_simps)
qed

lemma retry_task_sleepers:
  assumes "retry_task now i opts q = Inr (row, q')" "sleepers_inv q"
  shows "sleepers_inv q'"
  using assms(1)
proof (cases rule: retry_task_cases)
  case respawn
  then show ?thesis using spawn_task_sleepers assms(2) by blast
next
  case (revive t requested m)
  show ?thesis
    by (rule sleepers_added [OF assms(2), of _ "[new_run (uuids q) i (t_attempts t + 1) Pending now now]"])
      (simp_all add: revive(7) new_run_def store_updates tbl_update_def)
qed

lemma checkpoint_sleepers:
  assumes "set_task_checkpoint_state now ti n st i ext q = Inr q'" "sleepers_inv q"
  shows "sleepers_inv q'"
proof (cases "ext \<noteq> None \<and> the ext > 0")
  case True
  show ?thesis
    by (rule sleepers_move [OF assms(2), of _ "\<lambda>x. r_id x = i \<and> r_state x = Running \<and> r_claim_expires_at x \<noteq> None"
          "\<lambda>x. x\<lparr>r_claim_expires_at := Some (now + the ext * second)\<rparr>" "[]"])
      (use assms(1) True in \<open>auto simp: set_task_checkpoint_state_def upsert_checkpoint_def store_updates Let_def
         split: option.splits if_splits\<close>)
next
  case False
  show ?thesis
    by (rule sleepers_added [OF assms(2), of _ "[]"])
      (use assms(1) False in \<open>auto simp: set_task_checkpoint_state_def upsert_checkpoint_def tbl_update_def Let_def
         split: option.splits if_splits\<close>)
qed

lemma running_unique:
  assumes "queue_inv q" "find_run i q = Some r" "x \<in> set (runs q)" "r_id x = i"
  shows "x = r"
  using queue_inv_run_unique [OF queue_inv_coreD [OF assms(1)] assms(3), of r] find_runD [OF assms(2)] assms(4) by simp

lemma extend_claim_sleepers:
  assumes "extend_claim now i ext q = Inr q'" "sleepers_inv q" "queue_inv q"
  shows "sleepers_inv q'"
proof -
  from assms(1) obtain r where r: "find_run i q = Some r" "r_state r = Running"
      "q' = update_runs (\<lambda>x. r_id x = i) (\<lambda>x. x\<lparr>r_claim_expires_at := Some (now + ext * second)\<rparr>) q"
    by (auto simp: extend_claim_def split: option.splits if_splits)
  show ?thesis
    by (rule sleepers_move [OF assms(2), of _ "\<lambda>x. r_id x = i"
          "\<lambda>x. x\<lparr>r_claim_expires_at := Some (now + ext * second)\<rparr>" "[]"])
      (use running_unique [OF assms(3) r(1)] r(2,3) in \<open>auto simp: store_updates\<close>)
qed

lemma tbl_upsert_there:
  assumes "Q new" "\<And>x. P x \<Longrightarrow> Q (f x)"
  shows "\<exists>w \<in> set (tbl_upsert P f new ws). Q w"
proof (cases "list_ex P ws")
  case True
  then obtain x where "x \<in> set ws" "P x" by (auto simp: list_ex_iff)
  then have "f x \<in> set (tbl_update P f ws)" unfolding in_tbl_update by force
  with True \<open>P x\<close> assms(2) show ?thesis by (auto simp: tbl_upsert_def)
qed (simp add: tbl_upsert_def assms(1))

lemma tbl_upsert_keeps: "w \<in> set ws \<Longrightarrow> \<not> P w \<Longrightarrow> w \<in> set (tbl_upsert P f new ws)"
  by (force simp: tbl_upsert_def in_tbl_update)

lemma await_event_sleepers:
  assumes "await_event now ti i step ev timeout q = Inr (w, q')" "sleepers_inv q" "queue_inv q"
  shows "sleepers_inv q'"
  using assms(1)
proof (cases rule: await_event_cases)
  case (saved p)
  then show ?thesis using assms(2) by simp
next
  case (live r t q1)
  have other: "r_state x = Running" if "x \<in> set (runs q)" "r_id x = i" for x
    using running_unique [OF assms(3) live(2) that] live(3) by simp
  have q0: "sleepers_inv (ensure_event ev q)"
    by (rule sleepers_invI [OF assms(2)]) (auto simp: ensure_event_def split: option.splits)
  then have q1: "sleepers_inv q1"
    unfolding live(6)
    by (auto intro!: sleepers_move [OF q0, of _ "\<lambda>x. r_id x = i" "\<lambda>x. x\<lparr>r_event_payload := None\<rparr>" "[]"]
        simp: store_updates other)
  from live(7) show ?thesis
  proof (elim disjE exE conjE)
    fix p assume q': "q' = upsert_checkpoint \<lparr>c_task = ti, c_name = step, c_state = Some p,
            c_status = ''committed'', c_owner_run = Some i, c_updated_at = now\<rparr> q1"
    show ?thesis by (rule sleepers_added [OF q1, of _ "[]"]) (simp_all add: q' upsert_checkpoint_def tbl_update_def)
  next
    assume q': "q' = update_runs (\<lambda>x. r_id x = i) (\<lambda>x. x\<lparr>r_wake_event := None\<rparr>) q1"
    show ?thesis
      by (rule sleepers_move [OF q1, of _ "\<lambda>x. r_id x = i" "\<lambda>x. x\<lparr>r_wake_event := None\<rparr>" "[]"])
        (simp_all add: q' store_updates)
  next
    assume q': "q' = register_wait now ti i step ev (map_option (\<lambda>s. now + s * second) timeout) q1"
    let ?d = "map_option (\<lambda>s. now + s * second) timeout"
    have ws: "waits q' = tbl_upsert (\<lambda>w. (w_run w, w_step w) = (i, step))
         (\<lambda>w. w\<lparr>w_event := ev, w_timeout_at := ?d, w_created_at := now\<rparr>)
         \<lparr>w_task = ti, w_run = i, w_step = step, w_event = ev, w_timeout_at = ?d, w_created_at = now\<rparr> (waits q1)"
      by (simp add: q' register_wait_def store_updates)
    have "\<exists>w \<in> set (waits q'). w_run w = i \<and> w_event w = ev"
      unfolding ws by (rule tbl_upsert_there) simp_all
    moreover have "w \<in> set (waits q')" if "w \<in> set (waits q1)" "w_run w \<noteq> i" for w
      unfolding ws by (rule tbl_upsert_keeps) (use that in simp_all)
    moreover have "(r_id x = i \<and> r_wake_event x = Some ev) \<or> (x \<in> set (runs q1) \<and> r_id x \<noteq> i)" if "x \<in> set (runs q')" for x
    proof -
      let ?f = "\<lambda>y. y\<lparr>r_state := Sleeping, r_claimed_by := None, r_claim_expires_at := None,
        r_available_at := (case ?d of None \<Rightarrow> Infinity | Some t \<Rightarrow> At t), r_wake_event := Some ev, r_event_payload := None\<rparr>"
      have "runs q' = tbl_update (\<lambda>y. r_id y = i) ?f (runs q1)" by (simp add: q' register_wait_def store_updates)
      with that obtain y where "y \<in> set (runs q1)" "x = (if r_id y = i then ?f y else y)"
        by (auto simp only: in_tbl_update)
      then show ?thesis by (cases "r_id y = i") simp_all
    qed
    moreover have "events q' = events q1" by (simp add: q' register_wait_def store_updates)
    moreover have "heard (waits q') (events q') x"
      if "r_id x = i \<and> r_wake_event x = Some ev" "\<exists>w \<in> set (waits q'). w_run w = i \<and> w_event w = ev" for x
      using that by (auto simp: heard_def)
    moreover have "heard (waits q') (events q') x"
      if "x \<in> set (runs q1)" "r_id x \<noteq> i" "\<And>w. w \<in> set (waits q1) \<Longrightarrow> w_run w \<noteq> i \<Longrightarrow> w \<in> set (waits q')"
        "events q' = events q1" for x
      by (rule heard_waits [of "waits q1" "events q1"]) (use q1 that in \<open>auto simp: sleepers_inv_def\<close>)
    ultimately show ?thesis unfolding sleepers_inv_def by blast
  qed
qed

lemma record_event_events:
  assumes "record_event now n p q = Some q'" "queue_inv q"
  shows "runs q' = runs q" "waits q' = waits q" "\<exists>e \<in> set (events q'). e_name e = n \<and> e_payload e = Some p \<and> e_emitted_at e = now"
    "\<And>e. e \<in> set (events q) \<Longrightarrow> e_payload e \<noteq> None \<Longrightarrow> e \<in> set (events q')"
proof -
  show "runs q' = runs q" "waits q' = waits q"
    using assms(1) by (auto simp: record_event_def split: option.splits if_splits)
  have uniq: "distinct (map e_name (events q))" using assms(2) by (simp add: queue_inv_def key_inv_def)
  show "\<exists>e \<in> set (events q'). e_name e = n \<and> e_payload e = Some p \<and> e_emitted_at e = now"
    using assms(1)
    by (auto simp: record_event_def find_event_def tbl_simps split: option.splits if_splits dest!: tbl_find_SomeD
        intro!: bexI [rotated])
  fix e assume e: "e \<in> set (events q)" "e_payload e \<noteq> None"
  have "x = e" if "find_event n q = Some x" "e_name e = n" for x
    using that e(1) key_inj [OF uniq] tbl_find_SomeD by (fastforce simp: find_event_def)
  then have "find_event n q \<noteq> None \<Longrightarrow> e_payload (the (find_event n q)) = None \<Longrightarrow> e_name e \<noteq> n"
    using e(2) by auto
  then show "e \<in> set (events q')"
    using assms(1) e by (force simp: record_event_def in_tbl_update split: option.splits if_splits)
qed

lemma woken_runs:
  assumes "x \<in> set (runs (wake_waiters now n p q))"
  shows "r_state x = Pending \<or> (x \<in> set (runs q) \<and> r_id x \<notin> w_run ` set (woken_waits now n q))"
proof -
  let ?ids = "w_run ` set (woken_waits now n q)"
  have "runs (wake_waiters now n p q) = tbl_update (\<lambda>r. r_id r \<in> ?ids)
      (\<lambda>r. r\<lparr>r_state := Pending, r_available_at := At now, r_wake_event := None,
             r_event_payload := Some p, r_claimed_by := None, r_claim_expires_at := None\<rparr>) (runs q)"
    by (simp add: wake_waiters_def Let_def store_updates fold_upsert_checkpoint)
  with assms obtain y where "y \<in> set (runs q)" "x = (if r_id y \<in> ?ids
      then y\<lparr>r_state := Pending, r_available_at := At now, r_wake_event := None,
             r_event_payload := Some p, r_claimed_by := None, r_claim_expires_at := None\<rparr> else y)"
    by (auto simp only: in_tbl_update)
  then show ?thesis by (cases "r_id y \<in> ?ids") simp_all
qed

lemma emit_event_sleepers:
  assumes "emit_event now n p q = Inr q'" "sleepers_inv q" "queue_inv q"
  shows "sleepers_inv q'"
  using assms(1)
proof (cases rule: emit_event_cases)
  case again
  then show ?thesis using assms(2) by simp
next
  case (first q1)
  let ?p = "case p of None \<Rightarrow> JNull | Some j \<Rightarrow> j"
  note ev = record_event_events [OF first(1) assms(3)]
  have events: "events q' = events q1" by (simp add: first(2) wake_waiters_fields)
  have waits: "w \<in> set (waits q')" if "w \<in> set (waits q)" "w_event w \<noteq> n" for w
    using that ev(2) by (auto simp: first(2) wake_waiters_fields tbl_simps)
  have inv: "heard (waits q') (events q') r" if r: "r \<in> set (runs q)" "r \<in> set (runs q')" for r
    unfolding heard_def
  proof (intro allI impI)
    fix m assume s: "r_state r = Sleeping \<and> r_wake_event r = Some m"
    have "(\<exists>w \<in> set (waits q). w_run w = r_id r \<and> w_event w = m) \<or>
       (\<exists>e \<in> set (events q). e_name e = m \<and> e_payload e \<noteq> None \<and> r_available_at r \<le> At (e_emitted_at e))"
      using assms(2) r(1) s by (auto simp: sleepers_inv_def heard_def)
    then consider w where "w \<in> set (waits q)" "w_run w = r_id r" "w_event w = m" "m \<noteq> n"
      | e where "e \<in> set (events q)" "e_name e = m" "e_payload e \<noteq> None" "r_available_at r \<le> At (e_emitted_at e)"
      | w where "w \<in> set (waits q)" "w_run w = r_id r" "w_event w = m" "m = n" by blast
    then show "(\<exists>w \<in> set (waits q'). w_run w = r_id r \<and> w_event w = m) \<or>
       (\<exists>e \<in> set (events q'). e_name e = m \<and> e_payload e \<noteq> None \<and> r_available_at r \<le> At (e_emitted_at e))"
    proof cases
      case 1
      then show ?thesis using waits by blast
    next
      case 2
      then show ?thesis using ev(4) events by auto
    next
      case 3
      obtain r0 where r0: "r0 \<in> set (runs q)" "waits_for w r0"
        using queue_inv_waitD [OF assms(3)] 3(1) by (auto simp: wait_inv_def)
      then have "r0 = r"
        using queue_inv_run_unique [OF queue_inv_coreD [OF assms(3)] r0(1) r(1)] 3(2) by (simp add: waits_for_def)
      then have avail: "r_available_at r = (case w_timeout_at w of None \<Rightarrow> Infinity | Some t \<Rightarrow> At t)"
        using r0(2) by (simp add: waits_for_def)
      have "\<not> wait_live now w"
      proof
        assume "wait_live now w"
        then have "w \<in> set (woken_waits now n q1)"
          using 3 r(1) s ev(1,2) by (auto simp: woken_waits_def)
        then have "r_id r \<in> w_run ` set (woken_waits now n q1)" using 3(2) by force
        with woken_runs [of r now n ?p q1] show False using r(2) s first(2) by simp
      qed
      then have "r_available_at r \<le> At now" using avail by (auto simp: wait_live_def split: option.splits)
      then show ?thesis using ev(3) events 3(3,4) by fastforce
    qed
  qed
  have "x \<in> set (runs q) \<or> r_state x = Pending" if "x \<in> set (runs q')" for x
    using woken_runs [of x now n ?p q1] that ev(1) first(2) by auto
  then show ?thesis
    unfolding sleepers_inv_def using inv heard_awake by (metis task_state.distinct(3))
qed

lemma queue_step_sleepers: "queue_step q q' \<Longrightarrow> queue_inv q \<Longrightarrow> sleepers_inv q \<Longrightarrow> sleepers_inv q'"
  by (induction rule: queue_step.induct)
    (blast intro: spawn_task_sleepers claim_task_sleepers complete_run_sleepers schedule_run_sleepers fail_run_sleepers
      retry_task_sleepers cancel_task_sleepers checkpoint_sleepers extend_claim_sleepers await_event_sleepers
      emit_event_sleepers)+

lemma queue_steps_sleepers: "queue_step\<^sup>*\<^sup>* q q' \<Longrightarrow> queue_inv q \<Longrightarrow> sleepers_inv q \<Longrightarrow> sleepers_inv q'"
  by (induction rule: rtranclp_induct) (auto intro: queue_step_sleepers dest: queue_steps_kept)

lemma reachable_sleepers: "reachable mode q \<Longrightarrow> sleepers_inv q"
proof (induction rule: reachable.induct)
  case start
  then show ?case by (simp add: sleepers_inv_def empty_queue_def)
next
  case (step q q')
  then show ?case using queue_step_sleepers reachable_inv by blast
qed

text \<open>
  Property C15: nobody sleeps through an event. Whatever the calls so far, and in whatever order a wait and its event
  came, a run that sleeps on an event that has been emitted can be claimed from the moment of the emission.
\<close>

theorem emitted_event_claimable:
  assumes "reachable mode q" "find_run i q = Some r" "r_state r = Sleeping" "r_wake_event r = Some n"
    and "find_event n q = Some e" "e_payload e \<noteq> None" "e_emitted_at e \<le> now"
  shows "claimable now q r"
proof -
  have inv: "queue_inv q" by (rule reachable_inv [OF assms(1)])
  have r: "r \<in> set (runs q)" using find_runD [OF assms(2)] by simp
  have "event_payload n q \<noteq> None" using assms(5,6) by (simp add: event_payload_def)
  then have "w_event w \<noteq> n" if "w \<in> set (waits q)" for w
    using reachable_waits_open [OF assms(1)] that by (auto simp: waits_open_def)
  then obtain e' where e': "e' \<in> set (events q)" "e_name e' = n" "r_available_at r \<le> At (e_emitted_at e')"
    using reachable_sleepers [OF assms(1)] r assms(3,4) unfolding sleepers_inv_def heard_def by blast
  have "e \<in> set (events q)" "e_name e = n" using assms(5) by (auto simp: find_event_def dest: tbl_find_SomeD)
  then have "e' = e" using e'(1,2) inv key_inj by (metis queue_inv_keyD key_inv_def)
  then have "r_available_at r \<le> At now" using e'(3) assms(7) by (cases "r_available_at r") simp_all
  moreover obtain t where "find_task (r_task r) q = Some t" "t \<in> set (tasks q)" "t_id t = r_task r"
    using find_run_same_task [OF inv assms(2)] by blast
  moreover from this have "t_state t = r_state r"
    using core_inv_active_state [OF queue_inv_coreD [OF inv], of t r] r assms(3) by (simp add: active_def)
  ultimately show ?thesis using assms(3) by (simp add: claimable_def active_def)
qed

definition demo_late :: qstate where
  "demo_late = (case emit_event 70000000 ''go'' None demo_waiting of Inr q \<Rightarrow> q | Inl _ \<Rightarrow> demo_waiting)"

theorem emitted_event_claimable_witness:
  "\<exists>r. find_run 1 demo_late = Some r \<and> claimable 70000000 demo_late r"
proof -
  have "emit_event 70000000 ''go'' None demo_waiting = Inr demo_late" by code_simp
  then have q: "reachable Unpartitioned demo_late"
    by (rule reachable.step [OF demo_waiting_reachable queue_step.emit])
  have "map_option (\<lambda>r. (r_state r, r_wake_event r)) (find_run 1 demo_late) = Some (Sleeping, Some ''go'')" by code_simp
  then obtain r where r: "find_run 1 demo_late = Some r" "r_state r = Sleeping" "r_wake_event r = Some ''go''" by auto
  have "map_option (\<lambda>e. (e_payload e, e_emitted_at e)) (find_event ''go'' demo_late) = Some (Some JNull, 70000000)"
    by code_simp
  then obtain e where e: "find_event ''go'' demo_late = Some e" "e_payload e \<noteq> None" "e_emitted_at e \<le> 70000000" by auto
  from emitted_event_claimable [OF q r e] r(1) show ?thesis by blast
qed

end
