(* ===== verification/Workflow_Demo.thy ===== *)
theory Workflow_Demo
  imports Workflow_Engine Client_Spec Effect_Store
begin

text \<open>
  The demonstration of the engine: the workflow \<open>flow\<close> waits for its deferred \<open>d\<close> and returns its value. The
  execution \<open>x\<close> is started and claimed; the worlds on its way are the concrete states of the witnesses.
\<close>

section \<open>The workflow and its engine\<close>

definition demo_encode_exit :: "exit_value \<Rightarrow> exn + json" where
  "demo_encode_exit e =
     (case e of
        Inr v \<Rightarrow> Inr (JArr [or_null v])
      | Inl c \<Rightarrow> if c = [Interrupt] then Inr (JStr ''interrupted'') else Inl SchemaError)"

fun demo_decode_exit :: "json \<Rightarrow> exn + exit_value" where
  "demo_decode_exit (JArr [v]) = Inr (Inr (Some v))"
| "demo_decode_exit (JStr _) = Inr (Inl [Interrupt])"
| "demo_decode_exit _ = Inl SchemaError"

definition demo_codec :: exit_codec where
  "demo_codec = \<lparr>xc_encode = demo_encode_exit, xc_decode = demo_decode_exit\<rparr>"

definition demo_flow :: "bool \<Rightarrow> json workflow" where
  "demo_flow suspends =
     \<lparr>wf_tag = ''flow'', wf_queue = Some ''default'', wf_captureDefects = True, wf_suspendOnFailure = suspends,
      wf_encodePayload = Inr, wf_decodePayload = Inr,
      wf_encodeResult = (\<lambda>r. case r of Suspended \<Rightarrow> Inr (JStr ''suspended'') | Complete e \<Rightarrow> demo_encode_exit e),
      wf_decodeResult = (\<lambda>j. case demo_decode_exit j of Inl e \<Rightarrow> Inl e | Inr e \<Rightarrow> Inr (Complete e))\<rparr>"

definition demo_wait :: "ActiveClaim \<Rightarrow> json \<Rightarrow> string \<Rightarrow> (claim_state, json option) wf" where
  "demo_wait claim payload executionId = await_deferred demo_codec claim ''d''"

definition demo_config :: QueueConfig where
  "demo_config = projr (queue_config (''default'', \<lparr>qo_concurrency = None, qo_pollInterval = None,
     qo_claimTimeout = None, qo_childStatusPollInterval = None\<rparr>))"

definition demo_registration :: "bool \<Rightarrow> json Registration" where
  "demo_registration suspends =
     \<lparr>wr_workflow = demo_flow suspends, wr_queue = ''default'', wr_execute = demo_wait, wr_token = 0\<rparr>"

definition demo_engine :: "bool \<Rightarrow> json engine" where
  "demo_engine suspends =
     \<lparr>en_configs = [demo_config], en_registrations = [''flow'' \<mapsto> demo_registration suspends], en_ready = [''default''],
      en_tokens = 1\<rparr>"

lemma demo_config_fields:
  "qc_name demo_config = ''default''" "toPositiveWholeSeconds (qc_claimTimeout demo_config) = 120"
  by code_simp+

text \<open>It is the engine that registration makes.\<close>

lemma demo_engine_registered:
  "run_proc (registerWorkflow (demo_flow suspends) demo_wait)
     (projr (makeEngine [(''default'', \<lparr>qo_concurrency = None, qo_pollInterval = None, qo_claimTimeout = None,
        qo_childStatusPollInterval = None\<rparr>)])) = (Inr (), demo_engine suspends)"
proof -
  have "queue_config (''default'', \<lparr>qo_concurrency = None, qo_pollInterval = None, qo_claimTimeout = None,
      qo_childStatusPollInterval = None\<rparr>) = Inr demo_config"
    by code_simp
  then show ?thesis
    by (simp add: demo_config_fields makeEngine_def queue_configs_def demo_engine_def demo_registration_def registerWorkflow_def run_bind
        queueFor_def demo_flow_def set_add_def)
qed

section \<open>An execution on its way\<close>

definition demo_columns :: spawn_columns where
  "demo_columns = \<lparr>sc_headers = None, sc_retry_strategy = Some (JObj [(''kind'', JStr ''fixed''), (''base_seconds'', JNum 1)]),
     sc_max_attempts = Some 5, sc_cancellation = None, sc_idempotency_key = Some ''x''\<rparr>"
lemma demo_options: "read_spawn_options (Some (workflow_spawn_options ''x'' None)) = Inr demo_columns"
proof -
  let ?p = "workflow_spawn_options ''x'' None"
  have get: "json_get ''retry_strategy'' ?p = Some (JObj [(''kind'', JStr ''fixed''), (''base_seconds'', JNum 1)])"
    "json_has_key ''max_attempts'' ?p = True" "cast_int4 (json_get ''max_attempts'' ?p) = Inr (Some 5)"
    "json_get ''headers'' ?p = None" "json_get ''cancellation'' ?p = None" "json_get ''idempotency_key'' ?p = Some (JStr ''x'')"
    by code_simp+
  have "float8_check 1 = Some 1" by (simp add: float8_check_def)
  then have "retry_delay_seconds (Some (JObj [(''kind'', JStr ''fixed''), (''base_seconds'', JNum 1)])) 1 = Inr 1"
    by (simp add: retry_delay_seconds_def strategy_kind_def cast_float8_def invalid_number_def within_limit_def retry_limit_def)
  then show ?thesis by (simp add: read_spawn_options_def get demo_columns_def)
qed

definition demo_requested :: world where
  "demo_requested = demo_world (insert_task 100 0 1 ''flow'' (JNum 1) demo_columns ((empty_queue Unpartitioned)\<lparr>uuids := 2\<rparr>))"

text \<open>Its task and its run, and its queue in the states that follow.\<close>

definition flow_task :: "task_state \<Rightarrow> task_row" where
  "flow_task state = \<lparr>t_id = 0, t_name = ''flow'', t_params = JNum 1, t_headers = None,
     t_retry_strategy = Some (JObj [(''kind'', JStr ''fixed''), (''base_seconds'', JNum 1)]), t_max_attempts = Some 5,
     t_cancellation = None, t_enqueue_at = 100, t_first_started_at = Some 100, t_state = state, t_attempts = 1,
     t_last_attempt_run = Some 1, t_completed_payload = None, t_cancelled_at = None, t_idempotency_key = Some ''x''\<rparr>"

definition flow_run :: run_row where
  "flow_run = (new_run 1 0 1 Running 100 100)\<lparr>r_claimed_by := Some ''w'', r_claim_expires_at := Some 120000100,
     r_started_at := Some 100\<rparr>"

definition flow_running :: qstate where
  "flow_running = \<lparr>q_mode = Unpartitioned, tasks = [flow_task Running], runs = [flow_run], checkpoints = [], events = [],
     waits = [], idempotency = [], uuids = 2\<rparr>"

definition flow_asleep :: qstate where
  "flow_asleep =
     (let bell = makeDoorbell (1, 2) ''x''
      in \<lparr>q_mode = Unpartitioned, tasks = [flow_task Sleeping],
          runs = [flow_run\<lparr>r_state := Sleeping, r_claimed_by := None, r_claim_expires_at := None,
                    r_available_at := Infinity, r_wake_event := Some (db_eventName bell)\<rparr>],
          checkpoints = [], events = [\<lparr>e_name = db_eventName bell, e_payload = None, e_emitted_at = 0\<rparr>],
          waits = [\<lparr>w_task = 0, w_run = 1, w_step = db_checkpointName bell, w_event = db_eventName bell,
                     w_timeout_at = None, w_created_at = 100\<rparr>], idempotency = [], uuids = 2\<rparr>)"

definition demo_taken :: "ClaimedRow \<times> world" where
  "demo_taken = (\<lparr>cr_run_id = 1, cr_task_id = 0, cr_attempt = 1, cr_task_name = ''flow'', cr_params = JNum 1,
     cr_headers = None\<rparr>, demo_world flow_running)"

definition demo_own :: ActiveClaim where
  "demo_own = active_claim demo_config (fst demo_taken) (demo_registration False) ''x''"

definition demo_started :: claim_state where
  "demo_started = enter_claim (snd demo_taken)"

lemma demo_spawns:
  "spawn_task 100 ''flow'' (Some (JNum 1)) (Some (workflow_spawn_options ''x'' None)) (empty_queue Unpartitioned) =
     Inr (\<lparr>s_task = 0, s_run = Some 1, s_attempt = 1, s_created = True\<rparr>,
       insert_task 100 0 1 ''flow'' (JNum 1) demo_columns ((empty_queue Unpartitioned)\<lparr>uuids := 2\<rparr>))"
proof -
  have "is_blank ''flow'' = False" by code_simp
  then show ?thesis
    by (simp add: spawn_task_def Let_def demo_options empty_queue_def demo_columns_def tbl_find_def numeral_2_eq_2)
qed

lemma demo_execute:
  "run_proc (engine_execute [demo_config] (\<lambda>_ w. w) (demo_flow suspends) ''x'' (JNum 1) None True)
     (demo_world (empty_queue Unpartitioned)) = (Inr None, demo_requested)"
  by (simp add: engine_execute_def run_bind queueFor_def demo_flow_def demo_config_fields run_orDie store_spawnTask_def
      bind_ts_def ret_def sql_eq demo_world_def demo_spawns demo_requested_def set_queue_def)

lemma demo_claimTask: "store_claimTask ''default'' ''w'' 120 demo_requested = (Inr (Some (fst demo_taken)), snd demo_taken)"
  by code_simp

lemma demo_row_fields:
  "cr_task_id (fst demo_taken) = 0" "cr_run_id (fst demo_taken) = 1" "cr_task_name (fst demo_taken) = ''flow''"
  "cr_params (fst demo_taken) = JNum 1" "cr_headers (fst demo_taken) = None"
  by code_simp+

lemma demo_begin:
  "run_proc (begin_claim (demo_engine suspends) demo_config random (fst demo_taken)) demo_started =
     (Inr (Some (demo_registration suspends, JNum 1, ''x'')), demo_started)"
proof -
  have "store_executionIdForTask ''default'' 0 demo_started = (Inr (Some ''x''), demo_started)" by code_simp
  then show ?thesis
    by (simp add: begin_claim_def run_bind run_orDie demo_row_fields demo_config_fields demo_engine_def
        demo_registration_def demo_flow_def)
qed

lemma demo_own_claim: "active_claim demo_config (fst demo_taken) (demo_registration suspends) ''x'' = demo_own"
  by (simp add: demo_own_def active_claim_def demo_registration_def demo_flow_def)

text \<open>The queue of a state of it.\<close>

definition demo_queue :: "'w world_scheme \<Rightarrow> qstate" where
  "demo_queue s = the (map_of (w_queues s) ''default'')"

text \<open>Its handler suspends.\<close>

definition demo_suspended :: claim_state where
  "demo_suspended = demo_started\<lparr>cl_pendingDeferreds := [''d''],
     cl_root := \<lparr>in_suspended = True, in_interrupted = False, in_awaitedDeferreds = [''d'']\<rparr>\<rparr>"

lemma demo_suspends:
  "run_proc (run_handler demo_own (demo_registration False) (JNum 1)) demo_started = (Inr Suspended, demo_suspended)"
  by code_simp

text \<open>It is parked; \<open>demo_asleep\<close> is the state in which its run sleeps on its doorbell.\<close>

definition demo_asleep :: claim_state where
  "demo_asleep = set_queue ''default'' flow_asleep demo_suspended"

lemma demo_falls_asleep: "run_proc (parkSuspended (1, 2) demo_own) demo_suspended = (Inr (), demo_asleep)"
  by code_simp

lemma demo_processed:
  "run_proc (bind_proc (run_handler demo_own (demo_registration False) (JNum 1))
     (settle_outcome (1, 2) demo_own (demo_registration False) (fst demo_taken))) demo_started = (Inr (), demo_asleep)"
  by (simp add: run_bind demo_suspends settle_outcome_def demo_falls_asleep)

section \<open>The queues are reachable\<close>

lemma demo_own_fields:
  "ac_queue demo_own = ''default''" "ac_taskId demo_own = 0" "ac_runId demo_own = 1" "ac_workflowTag demo_own = ''flow''"
  "ac_executionId demo_own = ''x''"
  by code_simp+

lemma demo_requested_inv: "world_inv demo_requested"
proof -
  have "reachable Unpartitioned (insert_task 100 0 1 ''flow'' (JNum 1) demo_columns ((empty_queue Unpartitioned)\<lparr>uuids := 2\<rparr>))"
    by (rule reachable.step [OF reachable.start queue_step.spawn [OF demo_spawns]])
  moreover have "q_mode (insert_task 100 0 1 ''flow'' (JNum 1) demo_columns ((empty_queue Unpartitioned)\<lparr>uuids := 2\<rparr>)) = Unpartitioned"
    by (simp add: insert_task_def empty_queue_def)
  ultimately show ?thesis by (simp add: world_inv_def demo_requested_def demo_world_def)
qed

end
