(* ===== verification/Workflow_Moves.thy ===== *)
theory Workflow_Moves
  imports Workflow_Wake Run_Life Workflow_Demo
begin

text \<open>
  What the engine does to the database is done by the stored functions: every statement of its programs leaves the
  queues as they are or moves one of them by a step of \<open>queue_step\<close>. So what \<open>Store_Props\<close> and the theories after it
  prove of reachable queues holds of the queues of a workflow engine.
\<close>

section \<open>Worlds that move by the stored functions\<close>

lemma db_others_trans:
  assumes "db_others w w1" "db_others w1 w2"
  shows "db_others w w2"
  unfolding db_others_def
proof (intro conjI allI impI)
  fix n q assume "map_of (w_queues w) n = Some q"
  then obtain q1 where "map_of (w_queues w1) n = Some q1" "queue_step\<^sup>*\<^sup>* q q1" using db_othersD [OF assms(1)] by blast
  moreover from this obtain q2 where "map_of (w_queues w2) n = Some q2" "queue_step\<^sup>*\<^sup>* q1 q2"
    using db_othersD [OF assms(2)] by blast
  ultimately show "\<exists>q'. map_of (w_queues w2) n = Some q' \<and> queue_step\<^sup>*\<^sup>* q q'" by (meson rtranclp_trans)
next
  fix n q assume n: "map_of (w_queues w) n = None" "map_of (w_queues w2) n = Some q"
  show "reachable (q_mode q) q"
  proof (cases "map_of (w_queues w1) n")
    case None
    then show ?thesis using assms(2) n(2) by (simp add: db_others_def)
  next
    case (Some q1)
    then have "reachable (q_mode q1) q1" using assms(1) n(1) by (simp add: db_others_def)
    moreover have "queue_step\<^sup>*\<^sup>* q1 q" using db_othersD [OF assms(2) Some] n(2) by simp
    ultimately show ?thesis using step_reachable by blast
  qed
qed

lemma db_others_star:
  assumes "env\<^sup>*\<^sup>* s s'" "\<And>s s'. env s s' \<Longrightarrow> db_others s s'"
  shows "db_others s s'"
  using assms(1) by (induction rule: rtranclp_induct) (auto intro: db_others_trans assms(2))

lemma db_others_same: "w_queues w' = w_queues w \<Longrightarrow> db_others w w'"
  by (auto simp: db_others_def)

lemma db_others_set: "map_of (w_queues w) n = Some q \<Longrightarrow> queue_step q q' \<Longrightarrow> db_others w (set_queue n q' w)"
  by (auto simp: db_others_def)

lemma world_inv_others:
  assumes "world_inv s" "db_others s s'"
  shows "world_inv s'"
  unfolding world_inv_def
proof (intro allI impI)
  fix n q assume n: "map_of (w_queues s') n = Some q"
  show "reachable (q_mode q) q"
  proof (cases "map_of (w_queues s) n")
    case None
    then show ?thesis using assms(2) n by (simp add: db_others_def)
  next
    case (Some q0)
    then have "reachable (q_mode q0) q0" using assms(1) by (simp add: world_inv_def)
    moreover have "queue_step\<^sup>*\<^sup>* q0 q" using db_othersD [OF assms(2) Some] n by simp
    ultimately show ?thesis using step_reachable by blast
  qed
qed

text \<open>The run of a claim is in its queue and belongs to its task.\<close>

definition holds_run :: "string \<Rightarrow> uuid \<Rightarrow> uuid \<Rightarrow> 'w world_scheme \<Rightarrow> bool" where
  "holds_run n ti i w \<longleftrightarrow> (\<exists>q. map_of (w_queues w) n = Some q \<and> owned_by ti i q)"

lemma holds_run_later: "holds_run n ti i w \<Longrightarrow> db_others w w' \<Longrightarrow> holds_run n ti i w'"
  unfolding holds_run_def using db_othersD owned_by_kept [OF queue_steps_owners] by blast

section \<open>Lawful programs\<close>

primrec lawful :: "('w world_scheme \<Rightarrow> bool) \<Rightarrow> ('w world_scheme, 'e, 'a) proc \<Rightarrow> bool" where
  "lawful P (Exit r) = True"
| "lawful P (Act f) = (\<forall>s. P s \<longrightarrow> (case map_prod (lawful P) (\<lambda>x. x) (f s) of (l, s') \<Rightarrow> l \<and> db_others s s'))"

named_theorems lawfulI \<open>programs whose statements move the queues by the stored functions\<close>

lemma lawful_ends:
  assumes "ends env p s r s'" "lawful P p" "\<And>s s'. env s s' \<Longrightarrow> db_others s s'" "\<And>s s'. P s \<Longrightarrow> db_others s s' \<Longrightarrow> P s'" "P s"
  shows "db_others s s'"
  using assms(1,2,5)
proof (induction rule: ends.induct)
  case (exit s s' r)
  then show ?case by (blast intro: db_others_star assms(3))
next
  case (act s s1 f p s2 r s')
  have "db_others s s1" by (rule db_others_star [OF act.hyps(1) assms(3)])
  moreover from this have "P s1" using assms(4) act.prems by blast
  moreover from this have l: "lawful P p" "db_others s1 s2" using act.prems(1) act.hyps(2) by auto
  moreover have "P s2" using assms(4) l(2) \<open>P s1\<close> by blast
  ultimately show ?case using act.IH db_others_trans by blast
qed

lemma lawful_ahead:
  assumes "ahead env p s p' s'" "lawful P p" "\<And>s s'. env s s' \<Longrightarrow> db_others s s'" "\<And>s s'. P s \<Longrightarrow> db_others s s' \<Longrightarrow> P s'" "P s"
  shows "db_others s s'"
  using assms(1,2,5)
proof (induction rule: ahead.induct)
  case (here s s' p)
  then show ?case by (blast intro: db_others_star assms(3))
next
  case (further s s1 f p s2 q s')
  have "db_others s s1" by (rule db_others_star [OF further.hyps(1) assms(3)])
  moreover from this have "P s1" using assms(4) further.prems by blast
  moreover from this have l: "lawful P p" "db_others s1 s2" using further.prems(1) further.hyps(2) by auto
  moreover have "P s2" using assms(4) l(2) \<open>P s1\<close> by blast
  ultimately show ?case using further.IH db_others_trans by blast
qed

lemma lawful_act: "(\<And>s. P s \<Longrightarrow> lawful P (fst (f s)) \<and> db_others s (snd (f s))) \<Longrightarrow> lawful P (Act f)"
  by (auto simp: split_beta)

lemma lawful_match [lawfulI]:
  "lawful P p \<Longrightarrow> (\<And>r. lawful P (k r)) \<Longrightarrow> lawful P (match_proc p k)"
proof (induction p)
  case (Act f)
  have "lawful P (match_proc (fst (f s)) k)" if "P s" for s
    by (rule Act.IH [of "f s"]) (use Act.prems that in \<open>auto simp: fsts.simps split_beta\<close>)
  then show ?case using Act.prems(1) by (auto simp: split_beta)
qed simp

lemma lawful_exit [lawfulI]: "lawful P (give a)" "lawful P (fail e)" "lawful P (die x)" "lawful P (or_throw y)" "lawful P (Exit r)"
  by (simp_all add: give_def fail_def die_def or_throw_def split: sum.splits)

lemma lawful_bind [lawfulI]:
  "lawful P p \<Longrightarrow> (\<And>a. lawful P (k a)) \<Longrightarrow> lawful P (bind_proc p k)"
  unfolding bind_proc_def by (auto intro!: lawful_match lawful_exit split: sum.splits)

lemma lawful_atomic: "(\<And>s. P s \<Longrightarrow> db_others s (snd (m s))) \<Longrightarrow> lawful P (atomic m)"
  unfolding atomic_def by (rule lawful_act) (simp add: split_beta)

lemma lawful_local: "(\<And>s. P s \<Longrightarrow> db_others s (snd (m s))) \<Longrightarrow> lawful P (local m)"
  unfolding local_def by (rule lawful_act) (simp add: split_beta)

lemma lawful_get [lawfulI]: "lawful P (get f)"
  unfolding get_def by (rule lawful_local) simp

lemma lawful_modify [lawfulI]: "(\<And>s. w_queues (f s) = w_queues s) \<Longrightarrow> lawful P (modify f)"
  unfolding modify_def by (rule lawful_local) (simp add: db_others_same)

lemma lawful_orDie: "(\<And>s. P s \<Longrightarrow> db_others s (snd (m s))) \<Longrightarrow> lawful P (orDie m)"
  unfolding orDie_def by (rule lawful_atomic) (simp add: split_beta split: sum.splits)

lemma lawful_some [lawfulI]: "(\<And>x. lawful P (p x)) \<Longrightarrow> lawful P (some_proc p xs)"
  by (induction xs) (auto intro!: lawfulI)

lemma lawful_fold [lawfulI]: "(\<And>x b. lawful P (f x b)) \<Longrightarrow> lawful P (fold_proc f xs b)"
  by (induction xs arbitrary: b) (auto intro!: lawfulI)

lemma run_lawful:
  assumes "lawful P p" "\<And>s s'. P s \<Longrightarrow> db_others s s' \<Longrightarrow> P s'" "P s"
  shows "db_others s (snd (run_proc p s))"
proof -
  have "ends (\<lambda>_ _. False) p s (fst (run_proc p s)) (snd (run_proc p s))" by (simp add: ends_alone)
  from lawful_ends [OF this assms(1) _ assms(2,3)] show ?thesis by simp
qed

lemma lawful_transaction:
  assumes "lawful P p" "\<And>s s'. P s \<Longrightarrow> db_others s s' \<Longrightarrow> P s'"
  shows "lawful P (transaction p)"
  unfolding transaction_def
proof (rule lawful_atomic)
  fix s assume "P s"
  from run_lawful [OF assms this] show
    "db_others s (snd (case run_proc p s of (Inl e, _) \<Rightarrow> (Inl e, s) | (Inr a, s') \<Rightarrow> (Inr a, s')))"
    by (auto split: prod.splits sum.splits)
qed

section \<open>The statements\<close>

lemma db_others_sql:
  assumes "\<And>q a q'. map_of (w_queues w) n = Some q \<Longrightarrow> f (w_db_now w) q = Inr (a, q') \<Longrightarrow> queue_step q q'"
  shows "db_others w (snd (sql n f w))"
  using assms by (auto simp: sql_eq db_others_set split: option.splits sum.splits)

lemma db_others_void:
  assumes "\<And>q q'. map_of (w_queues w) n = Some q \<Longrightarrow> f (w_db_now w) q = Inr q' \<Longrightarrow> queue_step q q'"
  shows "db_others w (snd (sql_void n f w))"
  using assms by (auto simp: sql_void_eq db_others_set split: option.splits sum.splits)

lemma snd_bind_ret [simp]: "snd (bind_ts m (\<lambda>x. ret (f x)) s) = snd (m s)"
  by (simp add: bind_ts_def ret_def split: prod.splits sum.splits)

lemma lawful_emit [lawfulI]: "lawful P (orDie (store_emitEvent n ev p))"
  by (rule lawful_orDie) (auto simp: store_emitEvent_def intro!: db_others_void intro: queue_step.emit)

lemma lawful_schedule [lawfulI]: "lawful P (orDie (store_scheduleRunInSeconds n i k))"
  by (rule lawful_orDie) (auto simp: store_scheduleRunInSeconds_def intro!: db_others_void intro: queue_step.schedule)

lemma lawful_extend [lawfulI]: "lawful P (orDie (store_extendClaim n i k))"
  by (rule lawful_orDie) (auto simp: store_extendClaim_def intro!: db_others_void intro: queue_step.extend)

lemma lawful_complete [lawfulI]: "lawful P (orDie (store_completeRun n i v))"
  by (rule lawful_orDie) (auto simp: store_completeRun_def intro!: db_others_void intro: queue_step.complete)

lemma lawful_failRun [lawfulI]: "lawful P (orDie (store_failRun n i v))"
  by (rule lawful_orDie) (auto simp: store_failRun_def intro!: db_others_void intro: queue_step.fail)

lemma lawful_cancel [lawfulI]: "lawful P (orDie (store_cancelTask n i))"
  by (rule lawful_orDie) (auto simp: store_cancelTask_def intro!: db_others_void intro: queue_step.cancel)

lemma lawful_spawn [lawfulI]: "lawful P (orDie (store_spawnTask n name p opts))"
  by (rule lawful_orDie) (auto simp: store_spawnTask_def intro!: db_others_sql intro: queue_step.spawn)

lemma lawful_reads [lawfulI]:
  "lawful P (orDie (store_checkpointState n ti c))" "lawful P (orDie (store_eventPayload n ev))"
  "lawful P (orDie (store_taskByExecutionId n x))" "lawful P (orDie (store_currentWakeEvent n i))"
  "lawful P (orDie (store_executionIdForTask n ti))" "lawful P (orDie (store_taskResult n ti))"
  by (rule lawful_orDie; simp add: store_checkpointState_def store_eventPayload_def store_taskByExecutionId_def
      store_currentWakeEvent_def store_executionIdForTask_def store_taskResult_def)+

text \<open>Those that name a run and its task need the run to be that task's.\<close>

lemma lawful_await [lawfulI]: "lawful (holds_run n ti i) (orDie (store_awaitEvent n ti i c ev t))"
  by (rule lawful_orDie) (auto simp: store_awaitEvent_def holds_run_def owned_by_def intro!: db_others_sql
      intro: queue_step.await)

lemma lawful_setCheckpoint [lawfulI]: "lawful (holds_run n ti i) (orDie (store_setCheckpointState n ti c v i ext))"
  by (rule lawful_orDie) (auto simp: store_setCheckpointState_def holds_run_def owned_by_def intro!: db_others_void
      intro: queue_step.checkpoint)

section \<open>The engine\<close>

abbreviation own_claim :: "ActiveClaim \<Rightarrow> 'w world_scheme \<Rightarrow> bool" where
  "own_claim claim \<equiv> holds_run (ac_queue claim) (ac_taskId claim) (ac_runId claim)"

lemma lawful_wake_reads [lawfulI]:
  "lawful P (checkpoint claim n)" "lawful P (interruptRequested claim)" "lawful P (deferredAvailable claim d)"
  "lawful P (childIsTerminal child)" "lawful P (deadline claim d)" "lawful P clock_now" "lawful P (clockTimeoutSeconds t)"
  "lawful P (find_snapshot q x)"
  by (auto simp: checkpoint_def interruptRequested_def deferredAvailable_def childIsTerminal_def deadline_def clock_now_def
      clockTimeoutSeconds_def find_snapshot_def intro!: lawfulI split: option.splits)

lemma lawful_rings [lawfulI]: "lawful P (ringCurrentDoorbell q i)" "lawful P (ring_task q x)"
  by (auto simp: ringCurrentDoorbell_def ring_task_def intro!: lawfulI split: option.splits)

lemma lawful_heartbeat [lawfulI]: "lawful P (heartbeat_beat claim t)" and lawful_reschedule [lawfulI]: "lawful P (reschedule claim)"
  by (auto simp: heartbeat_beat_def reschedule_def intro!: lawfulI)

lemma lawful_write [lawfulI]: "lawful (own_claim claim) (write_checkpoint claim n v)"
  unfolding write_checkpoint_def by (rule lawful_setCheckpoint)

lemma lawful_park [lawfulI]: "lawful (own_claim claim) (parkSuspended random claim)"
  unfolding parkSuspended_def register_doorbell_def recheck_def survey_def survey_one_def anyChildTerminal_def
    childPollTimeoutSeconds_def Let_def
  by (auto intro!: lawfulI split: option.splits prod.splits)

lemma lawful_activeWake [lawfulI]: "lawful P (activeWakeAvailable claim)"
  by (auto simp: activeWakeAvailable_def intro!: lawfulI split: option.splits)

lemma update_current_queues [simp]: "w_queues (update_current f s) = w_queues s"
  by (simp add: update_current_def split: option.splits)

lemma lawful_note_pending [lawfulI]: "lawful P (note_pending f)"
  by (auto simp: note_pending_def at_workflow_level_def intro!: lawfulI)

text \<open>What runs inside a handler.\<close>

lemma lawful_intoResult [lawfulI]: "lawful P p \<Longrightarrow> lawful P (intoResult w p)"
  by (auto simp: intoResult_def suspendOnFailure_def intro!: lawfulI split: sum.splits)

lemma lawful_with_instance [lawfulI]: "lawful P p \<Longrightarrow> lawful P (with_instance p)"
  unfolding with_instance_def by (intro lawfulI) simp_all

lemma lawful_onExit [lawfulI]: "lawful P p \<Longrightarrow> (\<And>r. lawful P (k r)) \<Longrightarrow> lawful P (onExit p k)"
  by (auto simp: onExit_def intro!: lawfulI split: sum.splits)

lemma lawful_activity [lawfulI]:
  "lawful (own_claim claim) body \<Longrightarrow> lawful (own_claim claim) (activityExecute codec claim w n a body)"
  unfolding activityExecute_def Let_def
  by (intro lawfulI) (auto intro!: lawfulI split: option.splits wf_result.splits)

lemma lawful_deferredResult [lawfulI]: "lawful (own_claim claim) (deferredResult codec claim d)"
  unfolding deferredResult_def Let_def by (auto intro!: lawfulI split: option.splits)

lemma lawful_await_deferred [lawfulI]: "lawful (own_claim claim) (await_deferred codec claim d)"
  unfolding await_deferred_def wf_suspend_def by (auto intro!: lawfulI split: option.splits)

lemma lawful_scheduleClock [lawfulI]: "lawful (own_claim claim) (scheduleClock codec claim tag x d t)"
  unfolding scheduleClock_def Let_def by (auto intro!: lawfulI)

lemma lawful_execute [lawfulI]:
  "(\<And>c s. w_queues (note c s) = w_queues s) \<Longrightarrow> lawful P (engine_execute configs note w x p parent discard)"
  unfolding engine_execute_def resultFromSnapshot_def by (auto intro!: lawfulI split: option.splits task_state.splits)

text \<open>What runs outside.\<close>

lemma lawful_deferredDone [lawfulI]: "lawful P (deferredDone codec e tag x d r)"
  unfolding deferredDone_def queueForDeferred_def find_queues_def
  by (auto intro!: lawfulI split: option.splits list.splits)

lemma lawful_operations [lawfulI]:
  "lawful P (getExecutionStatus configs w x)" "lawful P (engine_poll configs w x)"
  "lawful P (cancelByExecutionId configs w x)" "lawful P (engine_resume configs w x)"
  unfolding getExecutionStatus_def engine_poll_def cancelByExecutionId_def engine_resume_def resultFromSnapshot_def
  by (auto intro!: lawfulI split: option.splits task_state.splits wf_result.splits)

section \<open>A claim\<close>

lemma lawful_begin: "lawful (holds_run (qc_name config) (cr_task_id row) (cr_run_id row)) (begin_claim e config random row)"
  unfolding begin_claim_def wf_failMissingExecutionId_def deferUnknownRun_def Let_def
  by (auto intro!: lawfulI split: option.splits)

lemma lawful_run_handler:
  "lawful P (wr_execute registration claim payload (ac_executionId claim)) \<Longrightarrow> lawful P (run_handler claim registration payload)"
  unfolding run_handler_def on_interrupt_def commit_boundary_def
  by (auto intro!: lawfulI split: sum.splits)

lemma lawful_settle: "lawful (own_claim claim) (settle_outcome random claim registration row r)"
  unfolding settle_outcome_def commit_result_def ringExecutionDoorbell_def
  by (auto intro!: lawfulI lawful_transaction split: wf_result.splits option.splits intro: holds_run_later)

lemma active_claim_fields [simp]:
  "ac_queue (active_claim config row registration i) = qc_name config"
  "ac_taskId (active_claim config row registration i) = cr_task_id row"
  "ac_runId (active_claim config row registration i) = cr_run_id row"
  "ac_executionId (active_claim config row registration i) = i"
  by (simp_all add: active_claim_def)

definition lawful_engine :: "'p engine \<Rightarrow> bool" where
  "lawful_engine e \<longleftrightarrow> (\<forall>tag registration. en_registrations e tag = Some registration \<longrightarrow>
     (\<forall>claim payload x. lawful (own_claim claim) (wr_execute registration claim payload x)))"

lemma begin_claim_registered:
  assumes "ends env (begin_claim e config random row) s (Inr (Some (registration, payload, i))) s'"
  shows "en_registrations e (cr_task_name row) = Some registration"
  using assms by (auto simp: begin_claim_def ends_bind split: option.splits)

lemma processClaim_moves:
  assumes "processClaim env e config random row w r s'" "lawful_engine e"
    and env: "\<And>s s'. env s s' \<Longrightarrow> db_others s s'" and own: "holds_run (qc_name config) (cr_task_id row) (cr_run_id row) w"
  shows "db_others w (world.truncate s')"
proof -
  let ?P = "holds_run (qc_name config) (cr_task_id row) (cr_run_id row) :: claim_state \<Rightarrow> bool"
  have entered: "w_queues (enter_claim w) = w_queues w" by (simp add: enter_claim_def world.defs)
  have own': "?P (enter_claim w)" using own by (simp add: holds_run_def entered)
  have later: "?P s1" if "?P s" "db_others s s1" for s s1 by (rule holds_run_later [OF that])
  have step: "db_others s s1 \<and> ?P s1" if "ends env p s x s1" "lawful ?P p" "?P s"
    for p :: "(claim_state, cause, 'x) proc" and s x s1
  proof -
    have "db_others s s1" by (rule lawful_ends [OF that(1,2) _ _ that(3)]) (use env later in blast)+
    with later that(3) show ?thesis by blast
  qed
  have start: "db_others (enter_claim w) s \<and> ?P s" if "ends env (begin_claim e config random row) (enter_claim w) x s" for x s
    using step [OF that lawful_begin own'] by blast
  have run: "lawful ?P (run_handler (active_claim config row registration i) registration payload)"
    if "ends env (begin_claim e config random row) (enter_claim w) (Inr (Some (registration, payload, i))) s" for registration payload i s
  proof -
    let ?c = "active_claim config row registration i"
    have "lawful (own_claim ?c) (wr_execute registration ?c payload (ac_executionId ?c))"
      using begin_claim_registered [OF that] assms(2) unfolding lawful_engine_def by blast
    from lawful_run_handler [OF this] show ?thesis by simp
  qed
  have ahead: "db_others s s1 \<and> ?P s1" if "ahead env p s p' s1" "lawful ?P p" "?P s"
    for p p' :: "(claim_state, cause, 'x) proc" and s s1
  proof -
    have "db_others s s1" by (rule lawful_ahead [OF that(1,2) _ _ that(3)]) (use env later in blast)+
    with later that(3) show ?thesis by blast
  qed
  have settle: "lawful ?P (settle_outcome random (active_claim config row registration i) registration row r)" for registration i r
    using lawful_settle [of "active_claim config row registration i" random registration row r] by simp
  from assms(1) have "db_others (enter_claim w) s'"
  proof (cases rule: processClaim.cases)
    case (not_begun c)
    then show ?thesis using start by blast
  next
    case set_aside
    then show ?thesis using start by blast
  next
    case (handler registration payload i s claim)
    have "lawful ?P (bind_proc (run_handler claim registration payload) (settle_outcome random claim registration row))"
      unfolding handler(2) by (rule lawful_bind [OF run [OF handler(1)] settle])
    then show ?thesis using start [OF handler(1)] step [OF handler(3)] db_others_trans by blast
  next
    case (active_wake registration payload i s claim rest s1 s2)
    have 1: "db_others s s1 \<and> ?P s1"
      using ahead [OF active_wake(3)] run [OF active_wake(1)] start [OF active_wake(1)] unfolding active_wake(2) by blast
    then have 2: "db_others s1 s2 \<and> ?P s2" using step [OF active_wake(4) lawful_activeWake] by blast
    then have "db_others s2 s'" using step [OF active_wake(5) lawful_reschedule] by blast
    then show ?thesis using start [OF active_wake(1)] 1 2 db_others_trans by blast
  next
    case (lease_lost registration payload i s claim rest s1 c)
    have 1: "db_others s s1 \<and> ?P s1"
      using ahead [OF lease_lost(4)] run [OF lease_lost(2)] start [OF lease_lost(2)] unfolding lease_lost(3) by blast
    then have "db_others s1 s'" using step [OF lease_lost(5) lawful_heartbeat] by blast
    then show ?thesis using start [OF lease_lost(2)] 1 db_others_trans by blast
  qed
  then show ?thesis by (simp add: db_others_def entered world.defs)
qed

section \<open>The workers of a queue\<close>

lemma claimed_row_held:
  assumes "store_claimTask n worker timeout w = (Inr (Some row), w')" "world_inv w"
  shows "holds_run n (cr_task_id row) (cr_run_id row) w'"
proof -
  from assms(1) obtain q rows q' where q: "map_of (w_queues w) n = Some q"
    "claim_task (w_db_now w) worker timeout 1 q = Inr (rows, q')" "w' = set_queue n q' w"
    "\<exists>ys. decode_all decode_claimed rows = Inr (row # ys)"
    by (auto simp: store_claimTask_def store_claimTasks_def sql_eq bind_ts_def check_def ret_def
        split: option.splits sum.splits prod.splits list.splits)
  from q(4) obtain x where x: "x \<in> set rows" "decode_claimed x = Inr row"
    by (cases rows) (auto simp: bind_result_Inr)
  have inv: "queue_inv q" using assms(2) q(1) reachable_inv by (auto simp: world_inv_def)
  from q(2) show ?thesis
  proof (cases rule: claim_task_cases)
    case (1 q1 q2)
    obtain r where r: "r \<in> set (candidates (w_db_now w) (nat (max 1 1)) q2)" "x = claimed_row q2 r"
      using x(1) 1(3) by auto
    then have "r \<in> set (runs q2)" by (auto simp: candidates_def dest: in_set_takeD)
    moreover have "queue_inv q2" using 1(1,2) inv apply_cancellations_inv sweep_expired_inv by blast
    ultimately have "owned_by (r_task r) (r_id r) q2" using find_run_eq by (auto simp: owned_by_def)
    moreover have "owners_kept q2 q'" unfolding 1(4) by (rule owners_same) (simp add: take_runs_def)
    ultimately have "owned_by (r_task r) (r_id r) q'" using owned_by_kept by blast
    moreover have "cr_task_id row = r_task r" "cr_run_id row = r_id r"
      using x(2) by (auto simp: decode_claimed_def bind_result_Inr r(2) claimed_row_def Let_def)
    ultimately show ?thesis by (auto simp: holds_run_def q(3))
  qed
qed

lemma store_claimTask_moves:
  assumes "store_claimTask n worker timeout w = (r, w')"
  shows "db_others w w'"
proof -
  have "db_others w (snd (sql n (\<lambda>now. claim_task now worker timeout 1) w))"
    by (rule db_others_sql) (rule queue_step.claim)
  with assms show ?thesis
    by (auto simp: store_claimTask_def store_claimTasks_def bind_ts_def check_def ret_def split: prod.splits sum.splits)
qed

lemma workerLoop_moves:
  assumes "workerLoop env outside e config workerId x y" "lawful_engine e" "world_inv (snd x)"
    and "\<And>s s'. env s s' \<Longrightarrow> db_others s s'" "\<And>s s'. outside s s' \<Longrightarrow> db_others s s'"
  shows "db_others (snd x) (snd y)"
  using assms(1)
proof (cases rule: workerLoop.cases)
  case (claimed w row w1 random r s)
  have "holds_run (qc_name config) (cr_task_id row) (cr_run_id row) w1"
    using claimed_row_held [OF claimed(3)] assms(3) claimed(1) by simp
  from processClaim_moves [OF claimed(4) assms(2,4) this] have "db_others w1 (world.truncate s)" by blast
  with store_claimTask_moves [OF claimed(3)] show ?thesis unfolding claimed(1,2) using db_others_trans by simp
qed (use store_claimTask_moves assms(5) in auto)

text \<open>
  Property C4: the workers of a queue act through the stored functions alone. However claims, handlers, lease renewals,
  wakes, parks and crashes of fibers interleave with each other and with other processes, every queue is at the end one
  that calls of the stored functions produce from what it was, so that no run of the engine can break the invariants of
  the store. The handlers have to do the same; those built from the engine's operations do.
\<close>

theorem workflow_workers_keep_store:
  assumes "(queue_workers env outside e config workerId)\<^sup>*\<^sup>* (fs, w) (fs', w')"
    and "lawful_engine e" "world_inv w"
    and "\<forall>s s'. env s s' \<longrightarrow> db_others s s'" "\<forall>s s'. outside s s' \<longrightarrow> db_others s s'"
  shows "world_inv w' \<and> db_others w w'"
  using assms(1)
proof (induction rule: rtranclp_induct2)
  case refl
  then show ?case using assms(3) by simp
next
  case (step fs1 w1 fs2 w2)
  from step.hyps(2) obtain k i where "workerLoop env outside e config workerId (fs1 ! i, w1) (k, w2)"
    by (auto elim: queue_workers.cases)
  then have "db_others (snd (fs1 ! i, w1)) (snd (k, w2))"
    by (rule workerLoop_moves) (use assms(2,4,5) step.IH in auto)
  then have "db_others w1 w2" by simp
  then show ?case using step.IH world_inv_others db_others_trans by blast
qed

lemma demo_lawful: "lawful_engine (demo_engine suspends)"
  by (auto simp: lawful_engine_def demo_engine_def demo_registration_def demo_wait_def split: if_splits intro: lawful_await_deferred)

text \<open>A worker claims the demonstration's run, which suspends and is parked.\<close>

theorem workflow_workers_keep_store_witness:
  "\<exists>w'. (queue_workers (\<lambda>_ _. False) (\<lambda>_ _. False) (demo_engine False) demo_config ''w'')\<^sup>*\<^sup>* ([Looping], demo_requested) ([Looping], w') \<and>
     map_option r_state (find_run 1 (demo_queue w')) = Some Sleeping \<and> world_inv w' \<and> db_others demo_requested w'"
proof -
  from processClaim.handler [OF run_proc_ends [OF demo_begin [unfolded demo_started_def]] demo_own_claim [symmetric]
      run_proc_ends [OF demo_processed [unfolded demo_started_def]]]
  have "processClaim (\<lambda>_ _. False) (demo_engine False) demo_config (1, 2) (fst demo_taken) (snd demo_taken) (Inr ()) demo_asleep" .
  from workerLoop.claimed [OF _ this] have "workerLoop (\<lambda>_ _. False) (\<lambda>_ _. False) (demo_engine False) demo_config ''w''
      (Looping, demo_requested) (Looping, world.truncate demo_asleep)"
    using demo_claimTask by (simp add: demo_config_fields)
  then have "queue_workers (\<lambda>_ _. False) (\<lambda>_ _. False) (demo_engine False) demo_config ''w''
      ([Looping], demo_requested) ([Looping], world.truncate demo_asleep)"
    using queue_workers.fiber [of 0 "[Looping]"] by simp
  then have star: "(queue_workers (\<lambda>_ _. False) (\<lambda>_ _. False) (demo_engine False) demo_config ''w'')\<^sup>*\<^sup>*
      ([Looping], demo_requested) ([Looping], world.truncate demo_asleep)" by blast
  have "map_option r_state (find_run 1 (demo_queue (world.truncate demo_asleep))) = Some Sleeping" by code_simp
  with star workflow_workers_keep_store [OF star demo_lawful demo_requested_inv] show ?thesis by blast
qed

text \<open>The worlds on the way keep the invariants, and the run belongs to its task in them.\<close>

lemma demo_taken_kept: "world_inv (snd demo_taken)" "own_claim demo_own (snd demo_taken)"
proof -
  from store_claimTask_moves [OF demo_claimTask] show "world_inv (snd demo_taken)"
    by (rule world_inv_others [OF demo_requested_inv])
  from claimed_row_held [OF demo_claimTask demo_requested_inv] show "own_claim demo_own (snd demo_taken)"
    by (simp add: demo_own_fields demo_row_fields)
qed

lemma demo_kept:
  assumes "lawful (own_claim demo_own) p" "run_proc p s = (r, s')" "world_inv s" "own_claim demo_own s"
  shows "world_inv (s' :: claim_state)" "own_claim demo_own s'"
proof -
  have "db_others s s'"
    by (rule lawful_ends [OF run_proc_ends [OF assms(2), of "\<lambda>_ _. False"] assms(1) _ holds_run_later assms(4)]) auto
  then show "world_inv s'" "own_claim demo_own s'"
    using world_inv_others holds_run_later assms(3,4) by blast+
qed

lemma demo_started_kept: "world_inv demo_started" "own_claim demo_own demo_started"
  using demo_taken_kept by (auto simp: world_inv_def holds_run_def demo_started_def enter_claim_def world.defs)

lemma demo_wait_lawful: "lawful (own_claim claim) (demo_wait claim payload x)"
  by (auto simp: demo_wait_def intro: lawful_await_deferred)

lemma demo_suspended_kept: "world_inv demo_suspended" "own_claim demo_own demo_suspended"
proof -
  have "lawful (own_claim demo_own) (run_handler demo_own (demo_registration False) (JNum 1))"
    by (rule lawful_run_handler) (simp add: demo_registration_def demo_wait_lawful)
  from demo_kept [OF this demo_suspends demo_started_kept]
  show "world_inv demo_suspended" "own_claim demo_own demo_suspended" .
qed

lemmas demo_asleep_kept = demo_kept [OF lawful_park demo_falls_asleep demo_suspended_kept]


end
