(* ===== verification/Checkpoint_Life.thy ===== *)
theory Checkpoint_Life
  imports Run_Life Run_Spec
begin

text \<open>
  Checkpoints are only added or replaced: a stored function leaves the table as it was or upserts committed rows. What
  is a checkpoint once is one for ever.
\<close>

definition upsert_row :: "checkpoint_row \<Rightarrow> checkpoint_row list \<Rightarrow> checkpoint_row list" where
  "upsert_row c rows = checkpoints (upsert_checkpoint c (empty_queue Unpartitioned\<lparr>checkpoints := rows\<rparr>))"

definition committed_row :: "checkpoint_row \<Rightarrow> bool" where
  "committed_row c \<longleftrightarrow> c_status c = ''committed''"

definition checkpoints_grow :: "qstate \<Rightarrow> qstate \<Rightarrow> bool" where
  "checkpoints_grow q q' \<longleftrightarrow> (\<exists>cs. list_all committed_row cs \<and> checkpoints q' = fold upsert_row cs (checkpoints q))"

lemma checkpoints_upsert: "checkpoints (upsert_checkpoint c q) = upsert_row c (checkpoints q)"
  by (simp add: upsert_row_def upsert_checkpoint_def)

lemma checkpoints_fold: "checkpoints (fold upsert_checkpoint cs q) = fold upsert_row cs (checkpoints q)"
  by (induction cs arbitrary: q) (simp_all add: checkpoints_upsert)

lemma checkpoints_fold_map:
  "checkpoints (fold (\<lambda>w. upsert_checkpoint (h w)) ws q) = fold upsert_row (map h ws) (checkpoints q)"
  by (induction ws arbitrary: q) (simp_all add: checkpoints_upsert)

lemma growI: "checkpoints q' = fold upsert_row cs (checkpoints q) \<Longrightarrow> list_all committed_row cs \<Longrightarrow> checkpoints_grow q q'"
  by (auto simp: checkpoints_grow_def)

lemma grow_same: "checkpoints q' = checkpoints q \<Longrightarrow> checkpoints_grow q q'"
  by (rule growI [of _ "[]"]) simp_all

lemma grow_one: "checkpoints q' = upsert_row c (checkpoints q) \<Longrightarrow> committed_row c \<Longrightarrow> checkpoints_grow q q'"
  by (rule growI [of _ "[c]"]) simp_all

lemma grow_refl [simp]: "checkpoints_grow q q"
  by (rule grow_same) simp

lemma grow_trans: "checkpoints_grow q1 q2 \<Longrightarrow> checkpoints_grow q2 q3 \<Longrightarrow> checkpoints_grow q1 q3"
  unfolding checkpoints_grow_def by (metis fold_append comp_apply list_all_append)

lemma fold_grow:
  assumes "fold_result f xs q = Inr q'" "\<And>x s s'. f x s = Inr s' \<Longrightarrow> checkpoints_grow s s'"
  shows "checkpoints_grow q q'"
  by (rule fold_result_invariant [OF assms(1), of "checkpoints_grow q"])
    (auto dest: assms(2) intro: grow_trans)

lemma fail_run_grow: "fail_run now i reason retry_at q = Inr q' \<Longrightarrow> checkpoints_grow q q'"
  by (erule fail_run_cases) (auto intro!: grow_same simp: apply_fail_outcome_def settle_task_def
      mark_run_failed_def store_updates Let_def split: fail_outcome.splits)

lemma cancel_task_grow: "cancel_task now i q = Inr q' \<Longrightarrow> checkpoints_grow q q'"
  by (auto intro!: grow_same simp: cancel_task_def store_updates split: option.splits if_splits)

lemma claim_task_grow: "claim_task now worker timeout qty q = Inr (rows, q') \<Longrightarrow> checkpoints_grow q q'"
proof (erule claim_task_cases)
  fix q1 q2
  assume a: "apply_cancellations now q = Inr q1" "sweep_expired now (nat (max qty 1)) q1 = Inr q2"
    "q' = take_runs now (if worker = [] then ''worker'' else worker)
       (if timeout > 0 then Some (now + timeout * second) else None)
       (candidates now (nat (max qty 1)) q2) q2"
  from a(1) obtain ids where "fold_result (cancel_task now) ids q = Inr q1"
    by (auto simp: apply_cancellations_def bind_result_Inr)
  then have "checkpoints_grow q q1" by (rule fold_grow) (rule cancel_task_grow)
  moreover have "checkpoints_grow q1 q2"
    using a(2) unfolding sweep_expired_def by (rule fold_grow) (rule fail_run_grow)
  moreover have "checkpoints_grow q2 q'"
    unfolding a(3) by (rule grow_same) (simp add: take_runs_def store_updates)
  ultimately show "checkpoints_grow q q'" by (blast intro: grow_trans)
qed

lemma spawn_task_grow: "spawn_task now n p opts q = Inr (row, q') \<Longrightarrow> checkpoints_grow q q'"
  by (erule spawn_task_cases) (auto intro!: grow_same simp: insert_task_def)

lemma retry_task_grow:
  assumes "retry_task now i opts q = Inr (row, q')"
  shows "checkpoints_grow q q'"
  using assms
proof (cases rule: retry_task_cases)
  case respawn
  then show ?thesis by (blast intro: spawn_task_grow)
next
  case revive
  then show ?thesis by (auto intro!: grow_same simp: store_updates)
qed

lemma await_event_grow:
  assumes c: "await_event now ti i step ev timeout q = Inr (w, q')"
  shows "checkpoints_grow q q'"
  using c
proof (cases rule: await_event_cases)
  case (saved p)
  then show ?thesis by simp
next
  case (live r t q1)
  have q1: "checkpoints q1 = checkpoints q" by (simp add: live(6) store_updates)
  from live(7) show ?thesis
  proof (elim disjE exE conjE)
    fix p
    let ?row = "\<lparr>c_task = ti, c_name = step, c_state = Some p, c_status = ''committed'', c_owner_run = Some i, c_updated_at = now\<rparr>"
    assume "q' = upsert_checkpoint ?row q1"
    then have "checkpoints q' = upsert_row ?row (checkpoints q)" by (simp add: q1 checkpoints_upsert)
    then show ?thesis by (rule grow_one) (simp add: committed_row_def)
  qed (auto intro!: grow_same simp: q1 register_wait_def store_updates)
qed

lemma emit_event_grow:
  assumes "emit_event now n p q = Inr q'"
  shows "checkpoints_grow q q'"
  using assms
proof (cases rule: emit_event_cases)
  case again
  then show ?thesis by simp
next
  case (first q1)
  let ?p = "case p of None \<Rightarrow> JNull | Some j \<Rightarrow> j"
  let ?rows = "map (\<lambda>w. \<lparr>c_task = w_task w, c_name = w_step w, c_state = Some ?p, c_status = ''committed'',
    c_owner_run = Some (w_run w), c_updated_at = now\<rparr>) (woken_waits now n q1)"
  have "checkpoints q' = fold upsert_row ?rows (checkpoints q1)"
    unfolding first(2) wake_waiters_def Let_def store_updates by (simp add: checkpoints_fold_map del: list.map)
  moreover have "checkpoints q1 = checkpoints q" using first(1) by (auto simp: record_event_def split: option.splits if_splits)
  ultimately show ?thesis by (auto simp: checkpoints_grow_def list_all_iff committed_row_def intro!: exI [of _ ?rows])
qed

lemma queue_step_grow: "queue_step q q' \<Longrightarrow> checkpoints_grow q q'"
proof (induction rule: queue_step.induct)
  case (complete now i p q q')
  then show ?case by (auto intro!: grow_same simp: complete_run_def store_updates split: option.splits if_splits)
next
  case (schedule i w q q')
  then show ?case by (auto intro!: grow_same simp: schedule_run_def store_updates split: option.splits)
next
  case (checkpoint now ti n st i ext q q' r)
  let ?row = "\<lparr>c_task = ti, c_name = n, c_state = st, c_status = ''committed'', c_owner_run = Some i, c_updated_at = now\<rparr>"
  have "checkpoints q' = checkpoints q \<or> checkpoints q' = upsert_row ?row (checkpoints q)"
    using checkpoint.hyps(1)
    by (auto simp: set_task_checkpoint_state_def checkpoints_upsert store_updates Let_def split: option.splits if_splits)
  then show ?case by (auto intro: grow_same grow_one simp: committed_row_def)
next
  case (extend now i ext q q')
  then show ?case by (auto intro!: grow_same simp: extend_claim_def store_updates split: option.splits if_splits)
qed (blast intro: spawn_task_grow claim_task_grow fail_run_grow retry_task_grow cancel_task_grow
      await_event_grow emit_event_grow)+

lemma queue_steps_grow: "queue_step\<^sup>*\<^sup>* q q' \<Longrightarrow> checkpoints_grow q q'"
  by (induction rule: rtranclp_induct) (auto intro: grow_trans queue_step_grow)

text \<open>What is stored stays stored.\<close>

lemma upsert_stored:
  "committed_row c \<Longrightarrow> get_task_checkpoint_state ti n q \<noteq> None \<Longrightarrow> get_task_checkpoint_state ti n (upsert_checkpoint c q) \<noteq> None"
  by (auto simp: get_task_checkpoint_state_def find_checkpoint_upsert committed_row_def split: option.splits if_splits)

lemma grow_stored:
  assumes "checkpoints_grow q q'" "get_task_checkpoint_state ti n q \<noteq> None"
  shows "get_task_checkpoint_state ti n q' \<noteq> None"
proof -
  from assms(1) obtain cs where cs: "list_all committed_row cs" "checkpoints q' = fold upsert_row cs (checkpoints q)"
    by (auto simp: checkpoints_grow_def)
  have "get_task_checkpoint_state ti n (fold upsert_checkpoint cs q) \<noteq> None"
    using cs(1) assms(2) by (induction cs arbitrary: q) (auto dest: upsert_stored)
  moreover have "checkpoints q' = checkpoints (fold upsert_checkpoint cs q)" by (simp add: cs(2) checkpoints_fold)
  ultimately show ?thesis by (simp add: get_task_checkpoint_state_def find_checkpoint_def)
qed

lemma stored_later: "queue_step\<^sup>*\<^sup>* q q' \<Longrightarrow> get_task_checkpoint_state ti n q \<noteq> None \<Longrightarrow> get_task_checkpoint_state ti n q' \<noteq> None"
  using grow_stored [OF queue_steps_grow] .

text \<open>Every checkpoint is committed.\<close>

lemma upsert_row_committed: "committed_row c \<Longrightarrow> list_all committed_row rows \<Longrightarrow> list_all committed_row (upsert_row c rows)"
  by (auto simp: upsert_row_def upsert_checkpoint_def tbl_upsert_def tbl_update_def committed_row_def list_all_iff)

lemma all_committed:
  assumes "reachable mode q"
  shows "list_all committed_row (checkpoints q)"
  using assms
proof (induction rule: reachable.induct)
  case start
  then show ?case by (simp add: empty_queue_def)
next
  case (step q q')
  obtain cs where cs: "list_all committed_row cs" "checkpoints q' = fold upsert_row cs (checkpoints q)"
    using queue_step_grow [OF step.hyps(2)] by (auto simp: checkpoints_grow_def)
  have "list_all committed_row (fold upsert_row cs xs)" if "list_all committed_row xs" for xs
    using cs(1) that by (induction cs arbitrary: xs) (auto simp: upsert_row_committed)
  then show ?case using cs(2) step.IH by simp
qed

lemma no_checkpoint:
  assumes "get_task_checkpoint_state ti n q = None" "reachable mode q"
  shows "find_checkpoint ti n q = None"
proof (rule ccontr)
  assume "find_checkpoint ti n q \<noteq> None"
  then obtain c where c: "find_checkpoint ti n q = Some c" by blast
  then have "c \<in> set (checkpoints q)" by (auto simp: find_checkpoint_def dest: tbl_find_SomeD)
  then have "committed_row c" using all_committed [OF assms(2)] by (auto simp: list_all_iff)
  then show False using assms(1) c by (simp add: get_task_checkpoint_state_def committed_row_def)
qed

end
