(* ===== verification/Traces.thy ===== *)
theory Traces
  imports Interleave
begin

text \<open>
  The executions of the programs of \<open>Interleave\<close> in more detail: the statements that a program has executed, each with
  the states before and after it, and the points at which it may be stopped. Properties that speak of a moment of an
  execution quantify over these.
\<close>

section \<open>Fewer others\<close>

lemma ends_mono:
  assumes "\<And>x y. env x y \<Longrightarrow> env' x y"
  shows "ends env p s r s' \<Longrightarrow> ends env' p s r s'"
proof (induction rule: ends.induct)
  have star: "env\<^sup>*\<^sup>* x y \<Longrightarrow> env'\<^sup>*\<^sup>* x y" for x y using assms by (metis mono_rtranclp)
  case (exit s s' r)
  then show ?case using star by (blast intro: ends.exit)
next
  have star: "env\<^sup>*\<^sup>* x y \<Longrightarrow> env'\<^sup>*\<^sup>* x y" for x y using assms by (metis mono_rtranclp)
  case (act s s1 f p s2 r s')
  then show ?case using star by (blast intro: ends.act)
qed

section \<open>The statements of an execution\<close>

inductive traced ::
    "('s \<Rightarrow> 's \<Rightarrow> bool) \<Rightarrow> ('s, 'e, 'a) proc \<Rightarrow> 's \<Rightarrow> ('s \<times> 's) list \<Rightarrow> 'e + 'a \<Rightarrow> 's \<Rightarrow> bool" for env where
  exit: "env\<^sup>*\<^sup>* s s' \<Longrightarrow> traced env (Exit r) s [] r s'"
| act: "env\<^sup>*\<^sup>* s s1 \<Longrightarrow> f s1 = (p, s2) \<Longrightarrow> traced env p s2 tr r s' \<Longrightarrow> traced env (Act f) s ((s1, s2) # tr) r s'"

inductive_cases traced_exitE: "traced env (Exit x) s tr r s'"
inductive_cases traced_actE: "traced env (Act f) s tr r s'"

text \<open>The endings are those of the traced executions.\<close>

lemma traced_ends: "traced env p s tr r s' \<Longrightarrow> ends env p s r s'"
  by (induction rule: traced.induct) (blast intro: ends.intros)+

lemma ends_traced: "ends env p s r s' \<Longrightarrow> \<exists>tr. traced env p s tr r s'"
  by (induction rule: ends.induct) (blast intro: traced.intros)+

lemma traced_exit [simp]: "traced env (Exit x) s tr r s' \<longleftrightarrow> tr = [] \<and> r = x \<and> env\<^sup>*\<^sup>* s s'"
  by (auto elim: traced_exitE intro: traced.exit)

lemma traced_give [simp]: "traced env (give a) s tr r s' \<longleftrightarrow> tr = [] \<and> r = Inr a \<and> env\<^sup>*\<^sup>* s s'"
  and traced_fail [simp]: "traced env (fail e) s tr r s' \<longleftrightarrow> tr = [] \<and> r = Inl e \<and> env\<^sup>*\<^sup>* s s'"
  by (simp_all add: give_def fail_def)

lemma traced_atomic [simp]:
  "traced env (atomic m) s tr r s' \<longleftrightarrow> (\<exists>x y. env\<^sup>*\<^sup>* s x \<and> m x = (r, y) \<and> tr = [(x, y)] \<and> env\<^sup>*\<^sup>* y s')"
  by (auto simp: atomic_def split: prod.splits elim!: traced_actE intro!: traced.act)

lemma traced_match:
  "traced env (match_proc p k) s tr r s' \<Longrightarrow>
     \<exists>x s1 t1 t2. tr = t1 @ t2 \<and> traced env p s t1 x s1 \<and> traced env (k x) s1 t2 r s'"
proof (induction p arbitrary: s tr)
  case (Exit x)
  then show ?case by (intro exI [of _ x] exI [of _ s] exI [of _ "[]"] exI [of _ tr]) simp
next
  case (Act f)
  from Act.prems obtain s1 tr' where 1: "env\<^sup>*\<^sup>* s s1" "tr = (s1, snd (f s1)) # tr'"
    "traced env (match_proc (fst (f s1)) k) (snd (f s1)) tr' r s'"
    by (auto elim!: traced_actE simp: map_prod_def split: prod.splits)
  have "fst (f s1) \<in> Basic_BNFs.fsts (f s1)" by (auto simp: fsts.simps)
  from Act.IH [OF _ this 1(3)] obtain x s2 t1 t2 where
    2: "tr' = t1 @ t2" "traced env (fst (f s1)) (snd (f s1)) t1 x s2" "traced env (k x) s2 t2 r s'"
    by blast
  have "traced env (Act f) s ((s1, snd (f s1)) # t1) x s2"
    using traced.act [of env s s1 f, OF 1(1) prod.collapse [symmetric] 2(2)] .
  with 1(2) 2(1,3) show ?case by (metis append_Cons)
qed

lemma traced_bind_InrE:
  assumes "traced env (bind_proc p k) s tr (Inr a) s'"
  obtains b s1 t1 t2 where "tr = t1 @ t2" "traced env p s t1 (Inr b) s1" "traced env (k b) s1 t2 (Inr a) s'"
proof -
  from traced_match [OF assms [unfolded bind_proc_def]] obtain x s1 t1 t2 where
    "tr = t1 @ t2" "traced env p s t1 x s1" "traced env (case x of Inl e \<Rightarrow> fail e | Inr b \<Rightarrow> k b) s1 t2 (Inr a) s'"
    by blast
  then show ?thesis using that by (cases x) auto
qed

section \<open>Points at which a program may be stopped\<close>

lemma ends_ahead: "ends env p s r s' \<Longrightarrow> ahead env p s (Exit r) s'"
  by (induction rule: ends.induct) (blast intro: ahead.intros)+

text \<open>A transaction has had no effect yet, or all of it at once, or it has failed and left nothing.\<close>

lemma ahead_transaction:
  assumes "ahead env (transaction p) s rest x"
  shows "env\<^sup>*\<^sup>* s x \<and> (\<forall>a. rest \<noteq> Exit (Inr a)) \<or>
    (\<exists>a y z. rest = Exit (Inr a) \<and> env\<^sup>*\<^sup>* s y \<and> run_proc p y = (Inr a, z) \<and> env\<^sup>*\<^sup>* z x)"
  using assms unfolding transaction_def atomic_def
proof (cases rule: ahead.cases)
  case here
  then show ?thesis by auto
next
  case (further s1 q s2)
  have last: "env\<^sup>*\<^sup>* s2 x \<and> rest = q" if "q = Exit r" for r
    using further(3) that by (auto elim: ahead.cases)
  obtain r z where r: "run_proc p s1 = (r, z)" by fastforce
  show ?thesis
  proof (cases r)
    case (Inl e)
    then have "q = Exit (Inl e)" "s2 = s1" using further(2) r by auto
    then show ?thesis using last further(1) by (auto intro: rtranclp_trans)
  next
    case (Inr a)
    then have "q = Exit (Inr a)" "s2 = z" using further(2) r by auto
    then show ?thesis using last further(1) r Inr by blast
  qed
qed

lemma bind_give: "bind_proc (give a) k = k a"
  and bind_fail: "bind_proc (fail e) k = fail e"
  by (simp_all add: bind_proc_def give_def fail_def)

end
