(* ===== verification/Interrupt_Spec.thy ===== *)
theory Interrupt_Spec
  imports Workflow_Moves Checkpoint_Life Traces
begin

text \<open>
  Interruptions: the durable marker wins over whatever a handler returns, also when it is written while the handler
  runs, since it is read again at the commit boundary.
\<close>

section \<open>The marker\<close>

text \<open>Other processes move the queues by the stored functions and leave the process alone.\<close>

definition outside_only :: "('w world_scheme \<Rightarrow> 'w world_scheme \<Rightarrow> bool) \<Rightarrow> bool" where
  "outside_only env \<longleftrightarrow> (\<forall>s s'. env s s' \<longrightarrow> db_others s s' \<and> world.more s' = world.more s)"

lemma outside_star:
  assumes "outside_only env" "env\<^sup>*\<^sup>* s s'"
  shows "db_others s s'" "world.more s' = world.more s"
proof -
  have e: "env s s' \<Longrightarrow> db_others s s'" for s s' using assms(1) by (simp add: outside_only_def)
  show "db_others s s'" by (rule db_others_star [OF assms(2) e])
  show "world.more s' = world.more s"
    using assms(2) by (induction rule: rtranclp_induct) (use assms(1) in \<open>auto simp: outside_only_def\<close>)
qed

definition marked :: "ActiveClaim \<Rightarrow> 'w world_scheme \<Rightarrow> bool" where
  "marked claim s \<longleftrightarrow> (\<exists>q. map_of (w_queues s) (ac_queue claim) = Some q \<and>
     get_task_checkpoint_state (ac_taskId claim) interruptCheckpointName q \<noteq> None)"

lemma marked_later: "marked claim s \<Longrightarrow> db_others s s' \<Longrightarrow> marked claim s'"
  unfolding marked_def using db_othersD stored_later by blast

lemma marker_read:
  assumes "ends env (interruptRequested claim) s (Inr b) s'" "marked claim s" "outside_only env"
  shows "b"
proof -
  from assms(1) obtain s1 v s2 where 1: "env\<^sup>*\<^sup>* s s1"
    "store_checkpointState (ac_queue claim) (ac_taskId claim) interruptCheckpointName s1 = (Inr v, s2)" "b = (v \<noteq> None)"
    by (auto simp: interruptRequested_def checkpoint_def ends_bind)
  have "marked claim s1" using marked_later assms(2) outside_star(1) [OF assms(3) 1(1)] by blast
  then show ?thesis using 1(2,3) by (auto simp: marked_def store_checkpointState_def sql_rows_eq)
qed

lemma boundary_fails:
  assumes "ends env (commit_boundary claim) s r s'" "marked claim s" "outside_only env"
  shows "isl r"
proof -
  from assms(1) have "isl r \<or> (\<exists>b s1. ends env (interruptRequested claim) s (Inr b) s1 \<and> \<not> b)"
    by (auto simp: commit_boundary_def ends_bind split: if_splits)
  then show ?thesis using marker_read assms(2,3) by blast
qed

lemma handler_fails:
  assumes "ends env (onExit p (\<lambda>_. commit_boundary claim)) s r s'" "lawful (own_claim claim) p" "own_claim claim s"
    "marked claim s" "outside_only env"
  shows "isl r"
proof -
  from assms(1) obtain r0 s0 x s1 where 1: "ends env p s r0 s0" "ends env (commit_boundary claim) s0 x s1"
    "ends env (case x of Inr _ \<Rightarrow> Exit r0 | Inl c \<Rightarrow> fail (case r0 of Inl c0 \<Rightarrow> causeCombine c0 c | Inr _ \<Rightarrow> c)) s1 r s'"
    by (auto simp: onExit_def ends_match)
  have e: "env s s' \<Longrightarrow> db_others s s'" for s s' using assms(5) by (simp add: outside_only_def)
  have "db_others s s0" by (rule lawful_ends [OF 1(1) assms(2) e holds_run_later assms(3)])
  then have "isl x" using boundary_fails [OF 1(2)] marked_later assms(4,5) by blast
  then show ?thesis using 1(3) by (cases x) simp_all
qed

section \<open>What becomes of an interrupted run\<close>

lemma lawful_handler: "lawful P h \<Longrightarrow> lawful P (onExit h on_interrupt)"
  by (auto simp: on_interrupt_def intro!: lawfulI split: sum.splits)

text \<open>How a failed effect ends: the instance is read after the flag has been set.\<close>

lemma intoResult_failed:
  assumes "ends env (intoResult w p) s r s'" "\<forall>x s1. ends env p s x s1 \<longrightarrow> isl x"
  shows "\<exists>c s1 s2. ends env p s (Inl c) s1 \<and> env\<^sup>*\<^sup>* s2 s' \<and>
    (if wf_suspendOnFailure w
     then (\<exists>u. env\<^sup>*\<^sup>* s1 u \<and> env\<^sup>*\<^sup>* (update_current (\<lambda>i. i\<lparr>in_suspended := True\<rparr>) u) s2) \<and>
       r = result_of_cause w (current s2) [Interrupt]
     else env\<^sup>*\<^sup>* s1 s2 \<and> r = result_of_cause w (current s2) c)"
proof -
  let ?k = "\<lambda>r'. case r' of Inr v \<Rightarrow> give (Complete (Inr v))
    | Inl c \<Rightarrow> bind_proc (get current) (\<lambda>i. Exit (result_of_cause w i c))"
  from assms(1) obtain x s1 where x: "ends env p s x s1" "ends env (bind_proc (suspendOnFailure w x) ?k) s1 r s'"
    by (auto simp: intoResult_def ends_match)
  obtain c where c: "x = Inl c" using assms(2) x(1) by (cases x) auto
  have tail: "\<exists>s2. env\<^sup>*\<^sup>* u s2 \<and> env\<^sup>*\<^sup>* s2 s' \<and> r = result_of_cause w (current s2) d"
    if "ends env (?k (Inl d)) u r s'" for d u
    using that by (auto simp: ends_bind)
  show ?thesis
  proof (cases "wf_suspendOnFailure w")
    case True
    let ?m = "bind_proc (modify (update_current (\<lambda>i. i\<lparr>in_suspended := True\<rparr>))) (\<lambda>_. give (Inl [Interrupt]))
      :: (claim_state, exit_value) wf"
    have m: "z = Inr (Inl [Interrupt]) \<and> (\<exists>u. env\<^sup>*\<^sup>* s1 u \<and> env\<^sup>*\<^sup>* (update_current (\<lambda>i. i\<lparr>in_suspended := True\<rparr>) u) y)"
      if "ends env ?m s1 z y" for z y
      using that by (auto simp: ends_bind)
    from x(2) True c have "ends env (bind_proc ?m ?k) s1 r s'" by (simp add: suspendOnFailure_def)
    then consider e where "ends env ?m s1 (Inl e) s'" | z y where "ends env ?m s1 (Inr z) y" "ends env (?k z) y r s'"
      using ends_bind [of env ?m ?k s1 r s'] by blast
    then obtain u y where u: "env\<^sup>*\<^sup>* s1 u" "env\<^sup>*\<^sup>* (update_current (\<lambda>i. i\<lparr>in_suspended := True\<rparr>) u) y"
      and y: "ends env (?k (Inl [Interrupt])) y r s'"
      using m by cases blast+
    from tail [OF y] obtain s2 where "env\<^sup>*\<^sup>* y s2" "env\<^sup>*\<^sup>* s2 s'" "r = result_of_cause w (current s2) [Interrupt]" by blast
    with u x(1) c True show ?thesis
      by (intro exI [of _ c] exI [of _ s1] exI [of _ s2]) (auto intro: rtranclp_trans)
  next
    case False
    then have "ends env (?k (Inl c)) s1 r s'" using x(2) c
      by (auto simp: suspendOnFailure_def ends_bind [of env "give (Inl c)"] intro: ends_later)
    from tail [OF this] x(1) c False show ?thesis by auto
  qed
qed

lemma more_current:
  assumes "world.more s' = world.more (s :: claim_state)"
  shows "current s' = current s"
proof -
  have "cl_root s' = cl_root s" "cl_inner s' = cl_inner s" using assms by (cases s; cases s'; simp)+
  then show ?thesis by (simp add: current_def split: option.splits)
qed

lemma run_handler_failed:
  assumes "ends env (run_handler claim registration payload) s r s'" "marked claim s"
    and "outside_only env" "own_claim claim s"
    and "lawful (own_claim claim) (wr_execute registration claim payload (ac_executionId claim))"
  shows "\<exists>i d. r = result_of_cause (wr_workflow registration) i d \<and>
    (wf_suspendOnFailure (wr_workflow registration) \<longrightarrow> in_suspended i \<and> d = [Interrupt])"
proof -
  let ?w = "wr_workflow registration"
  let ?p = "onExit (onExit (wr_execute registration claim payload (ac_executionId claim)) on_interrupt) (\<lambda>_. commit_boundary claim)"
  have f: "\<forall>x s1. ends env ?p s x s1 \<longrightarrow> isl x"
    using handler_fails [OF _ lawful_handler [OF assms(5)] assms(4,2,3)] by blast
  have "ends env (intoResult ?w ?p) s r s'" using assms(1) by (simp add: run_handler_def)
  from intoResult_failed [OF this f] obtain c s1 s2 where c: "if wf_suspendOnFailure ?w
     then (\<exists>u. env\<^sup>*\<^sup>* s1 u \<and> env\<^sup>*\<^sup>* (update_current (\<lambda>i. i\<lparr>in_suspended := True\<rparr>) u) s2) \<and>
       r = result_of_cause ?w (current s2) [Interrupt]
     else env\<^sup>*\<^sup>* s1 s2 \<and> r = result_of_cause ?w (current s2) c" by blast
  have "in_suspended (current s2)" if u: "env\<^sup>*\<^sup>* (update_current (\<lambda>i. i\<lparr>in_suspended := True\<rparr>) u) s2" for u
  proof -
    from more_current [OF outside_star(2) [OF assms(3) u]]
    have "current s2 = current (update_current (\<lambda>i. i\<lparr>in_suspended := True\<rparr>) u)" .
    then show ?thesis by (simp add: current_def update_current_def split: option.splits)
  qed
  with c show ?thesis by (auto split: if_splits)
qed

text \<open>A success is that of the program, which has returned before its finalizers start.\<close>

lemma onExit_traced:
  assumes "traced env (onExit p finalizer) s tr (Inr v) s'"
  shows "\<exists>t1 t2 s1 u s2. tr = t1 @ t2 \<and> traced env p s t1 (Inr v) s1 \<and> ends env (finalizer (Inr v)) s1 (Inr u) s2 \<and>
    env\<^sup>*\<^sup>* s2 s'"
proof -
  from traced_match [OF assms [unfolded onExit_def]] obtain x s1 t1 t2 where 1: "tr = t1 @ t2" "traced env p s t1 x s1"
    "traced env (match_proc (finalizer x) (\<lambda>y. case y of Inr _ \<Rightarrow> Exit x
       | Inl c \<Rightarrow> fail (case x of Inl c0 \<Rightarrow> causeCombine c0 c | Inr _ \<Rightarrow> c))) s1 t2 (Inr v) s'" by blast
  from traced_match [OF 1(3)] obtain y s2 t3 t4 where 2: "traced env (finalizer x) s1 t3 y s2"
    "traced env (case y of Inr _ \<Rightarrow> Exit x | Inl c \<Rightarrow> fail (case x of Inl c0 \<Rightarrow> causeCombine c0 c | Inr _ \<Rightarrow> c)) s2 t4 (Inr v) s'"
    by blast
  then obtain u where "y = Inr u" "x = Inr v" "env\<^sup>*\<^sup>* s2 s'" by (cases y) auto
  with 1(1,2) traced_ends [OF 2(1)] show ?thesis by blast
qed

lemma intoResult_traced:
  assumes "traced env (intoResult w p) s tr (Inr (Complete (Inr v))) s'"
  shows "\<exists>t1 t2 s1. tr = t1 @ t2 \<and> traced env p s t1 (Inr v) s1"
proof -
  from traced_match [OF assms [unfolded intoResult_def]] obtain x s1 t1 t2 where 1: "tr = t1 @ t2" "traced env p s t1 x s1"
    "traced env (bind_proc (suspendOnFailure w x) (\<lambda>r'. case r' of Inr v \<Rightarrow> give (Complete (Inr v))
       | Inl c \<Rightarrow> bind_proc (get current) (\<lambda>i. Exit (result_of_cause w i c)))) s1 t2 (Inr (Complete (Inr v))) s'" by blast
  have no: "result_of_cause w i c \<noteq> Inr (Complete (Inr v))" for i c
    by (auto simp: result_of_cause_def Let_def split: if_splits)
  have "x = Inr v"
  proof (cases x)
    case (Inl c)
    have failed: "isl r'" if "ends env (suspendOnFailure w x) s1 (Inr r') s2" for r' s2
      using that Inl by (auto simp: suspendOnFailure_def ends_bind split: if_splits)
    let ?k = "\<lambda>r'. case r' of Inr v \<Rightarrow> give (Complete (Inr v)) | Inl c \<Rightarrow> bind_proc (get current) (\<lambda>i. Exit (result_of_cause w i c))"
    from traced_ends [OF 1(3)] obtain r' s2 where k: "ends env (suspendOnFailure w x) s1 (Inr r') s2"
      "ends env (?k r') s2 (Inr (Complete (Inr v))) s'" unfolding ends_bind by blast
    from failed [OF this(1)] obtain c' where "r' = Inl c'" by (auto simp: isl_def)
    with k(2) have "\<exists>i. Inr (Complete (Inr v)) = result_of_cause w i c'" by (auto simp: ends_bind)
    then show ?thesis using no by metis
  next
    case (Inr u)
    then show ?thesis using traced_ends [OF 1(3)] by (auto simp: suspendOnFailure_def ends_bind)
  qed
  with 1(1,2) show ?thesis by blast
qed

text \<open>
  Property C12: an interruption wins over a result that was not committed. Take any execution of a handler, with the
  stored functions that other processes call between its statements. When the marker of an interruption is in the
  database at the point of this execution at which the program of the handler returns a value, no matter whether it was
  there before the handler started or came while it ran, from another process or from the program itself, then the
  handler does not end in a success, so that nothing is committed past the interruption. Other processes do not clean up
  the task.
\<close>

theorem interrupt_wins:
  assumes "traced env (run_handler claim registration payload) s tr r s'" "outside_only env"
    and "\<forall>before after v s1. tr = before @ after \<longrightarrow>
      traced env (wr_execute registration claim payload (ac_executionId claim)) s before (Inr v) s1 \<longrightarrow> marked claim s1"
  shows "r \<noteq> Inr (Complete (Inr v))"
proof
  let ?p = "wr_execute registration claim payload (ac_executionId claim)"
  assume "r = Inr (Complete (Inr v))"
  with assms(1) have "traced env (run_handler claim registration payload) s tr (Inr (Complete (Inr v))) s'" by simp
  from intoResult_traced [OF this [unfolded run_handler_def]] obtain t1 t2 s1 where 1: "tr = t1 @ t2"
    "traced env (onExit (onExit ?p on_interrupt) (\<lambda>_. commit_boundary claim)) s t1 (Inr v) s1" by blast
  from onExit_traced [OF 1(2)] obtain t3 t4 s2 u s3 where 2: "t1 = t3 @ t4"
    "traced env (onExit ?p on_interrupt) s t3 (Inr v) s2" "ends env (commit_boundary claim) s2 (Inr u) s3" by blast
  from onExit_traced [OF 2(2)] obtain t5 t6 s4 u' s5 where 3: "t3 = t5 @ t6" "traced env ?p s t5 (Inr v) s4"
    "ends env (on_interrupt (Inr v)) s4 (Inr u') s5" "env\<^sup>*\<^sup>* s5 s2" by blast
  have "env\<^sup>*\<^sup>* s4 s5" using 3(3) by (simp add: on_interrupt_def)
  then have "env\<^sup>*\<^sup>* s4 s2" using 3(4) by (rule rtranclp_trans)
  moreover have "tr = t5 @ (t6 @ t4 @ t2)" using 3(1) 2(1) 1(1) by simp
  then have "marked claim s4" using assms(3) 3(2) by blast
  ultimately have "marked claim s2" using marked_later outside_star(1) [OF assms(2)] by blast
  with boundary_fails [OF 2(3) _ assms(2)] show False by simp
qed

text \<open>
  A workflow that suspends on failure cannot be interrupted. With the annotation \<open>SuspendOnFailure\<close>, every
  replay of a marked run suspends again, and parking it gives it back at once, so that it is replayed without end and
  without delay.
\<close>

lemma suspend_on_failure_loops:
  assumes "ends env (bind_proc (run_handler claim registration payload) (settle_outcome random claim registration row)) s (Inr ()) s'"
    and "wf_suspendOnFailure (wr_workflow registration)" "marked claim s" "outside_only env" "own_claim claim s"
    and "lawful (own_claim claim) (wr_execute registration claim payload (ac_executionId claim))"
  shows "\<exists>s1. ends env (run_handler claim registration payload) s (Inr Suspended) s1 \<and>
    ends env (reschedule claim) s1 (Inr ()) s'"
proof -
  from assms(1) obtain out s1 where 1: "ends env (run_handler claim registration payload) s (Inr out) s1"
    "ends env (settle_outcome random claim registration row out) s1 (Inr ()) s'"
    by (auto simp: ends_bind)
  have out: "out = Suspended"
    using run_handler_failed [OF 1(1) assms(3-6)] assms(2) by (auto simp: result_of_cause_def)
  have "lawful (own_claim claim) (run_handler claim registration payload)" using lawful_run_handler [OF assms(6)] .
  then have "db_others s s1"
    using lawful_ends [OF 1(1)] holds_run_later assms(4,5) unfolding outside_only_def by blast
  then have m: "marked claim s1" using marked_later assms(3) by blast
  from 1(2) obtain b s2 where b: "ends env (interruptRequested claim) s1 (Inr b) s2"
    "b \<longrightarrow> ends env (reschedule claim) s2 (Inr ()) s'"
    by (auto simp: out settle_outcome_def parkSuspended_def ends_bind split: if_splits)
  have "ends env (reschedule claim) s1 (Inr ()) s'"
    using ends_later [OF readsD [OF reads_polymorphic(1) b(1)]] b(2) marker_read [OF b(1) m assms(4)] by blast
  then show ?thesis using 1(1) out by blast
qed

text \<open>
  The demonstration: the deferred is done and its handler returns.
\<close>

definition demo_answered :: claim_state where
  "demo_answered = snd (run_proc (deferredDone demo_codec (demo_engine False) ''flow'' ''x'' ''d'' (Inr (Some (JNum 7)))) demo_started)"

lemma alone_outside: "outside_only (\<lambda>_ _. False)"
  by (simp add: outside_only_def)

text \<open>A handler that returns what the deferred holds, and whose execution is interrupted just before it returns.\<close>

definition demo_overtaken :: "json Registration" where
  "demo_overtaken = (demo_registration False)\<lparr>wr_execute := \<lambda>claim payload x.
     bind_proc (wr_execute (demo_registration False) claim payload x) (\<lambda>v.
     bind_proc (interruptByExecutionId [demo_config] (demo_flow False) x) (\<lambda>_. give v))\<rparr>"

theorem interrupt_wins_witness:
  "fst (run_proc (run_handler demo_own (demo_registration False) (JNum 1)) demo_answered) = Inr (Complete (Inr (Some (JNum 7)))) \<and>
   fst (run_proc (wr_execute demo_overtaken demo_own (JNum 1) ''x'') demo_answered) = Inr (Some (JNum 7)) \<and>
   (\<exists>r s'. run_proc (run_handler demo_own demo_overtaken (JNum 1)) demo_answered = (r, s') \<and>
      r \<noteq> Inr (Complete (Inr (Some (JNum 7)))))"
proof (intro conjI)
  let ?m = "run_proc (wr_execute demo_overtaken demo_own (JNum 1) (ac_executionId demo_own)) demo_answered"
  show "fst (run_proc (run_handler demo_own (demo_registration False) (JNum 1)) demo_answered) = Inr (Complete (Inr (Some (JNum 7))))"
    "fst (run_proc (wr_execute demo_overtaken demo_own (JNum 1) ''x'') demo_answered) = Inr (Some (JNum 7))"
    by code_simp+
  have "(case map_of (w_queues (snd ?m)) ''default'' of None \<Rightarrow> False
      | Some q \<Rightarrow> get_task_checkpoint_state 0 interruptCheckpointName q \<noteq> None) = True"
    by code_simp
  then have "marked demo_own (snd ?m)" by (auto simp: marked_def demo_own_fields split: option.splits)
  then have late: "\<forall>v s1. ends (\<lambda>_ _. False) (wr_execute demo_overtaken demo_own (JNum 1) (ac_executionId demo_own))
      demo_answered (Inr v) s1 \<longrightarrow> marked demo_own s1"
    unfolding ends_alone by auto
  obtain r s' where r: "run_proc (run_handler demo_own demo_overtaken (JNum 1)) demo_answered = (r, s')" by fastforce
  from ends_traced [OF run_proc_ends [OF r]] obtain tr where
    tr: "traced (\<lambda>_ _. False) (run_handler demo_own demo_overtaken (JNum 1)) demo_answered tr r s'" by blast
  have "r \<noteq> Inr (Complete (Inr (Some (JNum 7))))"
    by (rule interrupt_wins [OF tr alone_outside]) (metis late traced_ends)
  with r show "\<exists>r s'. run_proc (run_handler demo_own demo_overtaken (JNum 1)) demo_answered = (r, s') \<and>
      r \<noteq> Inr (Complete (Inr (Some (JNum 7))))" by blast
qed

end
