(* ===== verification/Workflow_Spec.thy ===== *)
theory Workflow_Spec
  imports Workflow_Wake Sleep_Life Context_Spec Interrupt_Spec Traces
begin

text \<open>
  Properties of the workflow engine.
\<close>

section \<open>Parking\<close>

abbreviation bell_of :: "int \<times> int \<Rightarrow> ActiveClaim \<Rightarrow> string" where
  "bell_of random claim \<equiv> db_eventName (makeDoorbell random (ac_executionId claim))"

abbreviation claim_others :: "int \<times> int \<Rightarrow> ActiveClaim \<Rightarrow> 'w world_scheme \<Rightarrow> 'w world_scheme \<Rightarrow> bool" where
  "claim_others random claim \<equiv> others (ac_queue claim) (bell_of random claim) (ac_taskId claim) (ac_runId claim)"

abbreviation event_of :: "ActiveClaim \<Rightarrow> string \<Rightarrow> string" where
  "event_of claim d \<equiv> deferredEventName (ac_workflowTag claim) (ac_executionId claim) d"

text \<open>The claim's queue in a state, in which its run belongs to its task, and the run asleep on the doorbell in it.\<close>

definition queue_at :: "ActiveClaim \<Rightarrow> 'w world_scheme \<Rightarrow> qstate \<Rightarrow> bool" where
  "queue_at claim s q \<longleftrightarrow> map_of (w_queues s) (ac_queue claim) = Some q \<and> queue_inv q \<and>
     owned_by (ac_taskId claim) (ac_runId claim) q"

definition asleep_at :: "int \<times> int \<Rightarrow> ActiveClaim \<Rightarrow> 'w world_scheme \<Rightarrow> bool" where
  "asleep_at random claim s \<longleftrightarrow>
     (\<exists>q. queue_at claim s q \<and> asleep_on (bell_of random claim) (ac_taskId claim) (ac_runId claim) q)"

definition available_in :: "ActiveClaim \<Rightarrow> string \<Rightarrow> qstate \<Rightarrow> bool" where
  "available_in claim d q \<longleftrightarrow>
     get_task_checkpoint_state (ac_taskId claim) (deferredCheckpointName d) q \<noteq> None \<or>
     event_payload (event_of claim d) q \<noteq> None"

lemma queue_at_steps:
  assumes "queue_at claim s q" "queue_step\<^sup>*\<^sup>* q q'" "map_of (w_queues s') (ac_queue claim) = Some q'"
  shows "queue_at claim s' q'"
  using assms queue_steps_kept owned_by_kept [OF queue_steps_owners] unfolding queue_at_def by blast

lemma queue_at_step:
  "queue_at claim s q \<Longrightarrow> queue_step q q' \<Longrightarrow> queue_at claim (set_queue (ac_queue claim) q' s) q'"
  by (rule queue_at_steps [of _ _ q]) auto

lemma queue_at_later:
  assumes "(claim_others random claim)\<^sup>*\<^sup>* s s'" "queue_at claim s q"
  shows "\<exists>q'. queue_at claim s' q' \<and> queue_step\<^sup>*\<^sup>* q q' \<and> events_kept q q' \<and> evolves q q'"
proof -
  obtain q' where q': "map_of (w_queues s') (ac_queue claim) = Some q'"
    "queue_others (bell_of random claim) (ac_taskId claim) (ac_runId claim) q q'"
    using others_star(2) [OF assms(1)] assms(2) by (auto simp: queue_at_def)
  then have "queue_at claim s' q'" using queue_at_steps [OF assms(2)] by (auto simp: queue_others_def)
  moreover have "queue_step\<^sup>*\<^sup>* q q'" using q'(2) by (simp add: queue_others_def)
  moreover have "queue_inv q" using assms(2) by (simp add: queue_at_def)
  ultimately show ?thesis using queue_others_kept [OF q'(2)] by blast
qed

lemma asleep_earlier:
  assumes "(claim_others random claim)\<^sup>*\<^sup>* s s'" "asleep_at random claim s'" "queue_at claim s q"
  shows "asleep_at random claim s"
proof -
  obtain q' where "map_of (w_queues s') (ac_queue claim) = Some q'"
    "queue_others (bell_of random claim) (ac_taskId claim) (ac_runId claim) q q'"
    using others_star(2) [OF assms(1)] assms(3) by (auto simp: queue_at_def)
  then show ?thesis using assms(2,3) by (auto simp: asleep_at_def queue_at_def queue_others_def)
qed

text \<open>What the statements of a park see.\<close>

lemma checkpoint_read:
  "store_checkpointState n ti c w = (Inr v, w') \<longleftrightarrow> w' = w \<and> (\<exists>q. map_of (w_queues w) n = Some q \<and>
     v = map_option (\<lambda>c. or_null (c_state c)) (get_task_checkpoint_state ti c q))"
  by (auto simp: store_checkpointState_def sql_rows_eq split: option.splits)

lemma payload_read:
  "store_eventPayload n ev w = (Inr v, w') \<longleftrightarrow> w' = w \<and> quoteQueueTable ''e_'' n \<noteq> Inl (throw_error ''Invalid Absurd queue name.'') \<and>
     (\<exists>q. map_of (w_queues w) n = Some q \<and> v = event_payload ev q)"
  by (auto simp: store_eventPayload_def quoteQueueTable_def event_payload_def sql_rows_eq bind_ts_def split: option.splits)

lemma interrupt_seen:
  assumes "ends env (interruptRequested claim) s (Inr False) s'"
  shows "\<exists>s1 q. env\<^sup>*\<^sup>* s s1 \<and> env\<^sup>*\<^sup>* s1 s' \<and> map_of (w_queues s1) (ac_queue claim) = Some q \<and>
    get_task_checkpoint_state (ac_taskId claim) interruptCheckpointName q = None"
  using assms
  by (auto simp: interruptRequested_def checkpoint_def ends_bind checkpoint_read)

lemma deferred_missing:
  assumes "ends env (deferredAvailable claim d) s (Inr False) s'"
  shows "\<exists>s1 q. env\<^sup>*\<^sup>* s s1 \<and> env\<^sup>*\<^sup>* s1 s' \<and> map_of (w_queues s1) (ac_queue claim) = Some q \<and>
    event_payload (event_of claim d) q = None"
  using assms
  by (auto simp: deferredAvailable_def checkpoint_def ends_bind checkpoint_read payload_read
      split: if_splits) (metis rtranclp_trans)

lemma traced_orDie:
  "traced env (orDie m) s tr (Inr a) s' \<longleftrightarrow> (\<exists>x y. env\<^sup>*\<^sup>* s x \<and> m x = (Inr a, y) \<and> tr = [(x, y)] \<and> env\<^sup>*\<^sup>* y s')"
proof -
  have "(case m x of (Inl e, s') \<Rightarrow> (Inl [Die e], s') | (Inr a, s') \<Rightarrow> (Inr a, s')) = (Inr a, y) \<longleftrightarrow> m x = (Inr a, y)" for x y
    by (cases "m x"; cases "fst (m x)") auto
  then show ?thesis unfolding orDie_def by simp
qed

lemma deferred_found:
  assumes "traced env (deferredAvailable claim d) s tr (Inr True) s'"
  shows "\<exists>(x, y) \<in> set tr. env\<^sup>*\<^sup>* s x \<and> (\<exists>q. map_of (w_queues x) (ac_queue claim) = Some q \<and> available_in claim d q)"
proof -
  let ?n = "deferredCheckpointName d"
  from assms obtain c s1 t1 t2 where 1: "tr = t1 @ t2" "traced env (checkpoint claim ?n) s t1 (Inr c) s1"
    "traced env (if c \<noteq> None then give True else bind_proc (orDie (store_eventPayload (ac_queue claim) (event_of claim d)))
      (\<lambda>event. give (event \<noteq> None))) s1 t2 (Inr True) s'"
    unfolding deferredAvailable_def by (rule traced_bind_InrE)
  from 1(2) obtain x where x: "env\<^sup>*\<^sup>* s x" "t1 = [(x, x)]" "env\<^sup>*\<^sup>* x s1"
    "\<exists>q. map_of (w_queues x) (ac_queue claim) = Some q \<and> (c \<noteq> None \<longrightarrow> available_in claim d q)"
    by (auto simp: checkpoint_def traced_orDie checkpoint_read available_in_def)
  show ?thesis
  proof (cases c)
    case None
    with 1(3) obtain e s2 t3 t4 where 2: "t2 = t3 @ t4" "traced env (give (e \<noteq> None)) s2 t4 (Inr True) s'"
      "traced env (orDie (store_eventPayload (ac_queue claim) (event_of claim d))) s1 t3 (Inr e) s2"
      by (auto elim: traced_bind_InrE)
    from 2(3) obtain y where y: "env\<^sup>*\<^sup>* s1 y" "t3 = [(y, y)]" "\<exists>q. map_of (w_queues y) (ac_queue claim) = Some q \<and> e = event_payload (event_of claim d) q"
      by (auto simp: traced_orDie payload_read)
    then have "env\<^sup>*\<^sup>* s y" using x(1,3) by (meson rtranclp_trans)
    with y 2(1,2) show ?thesis by (auto simp: 1(1) available_in_def)
  qed (use x in \<open>auto simp: 1(1)\<close>)
qed

lemma local_same:
  assumes "(claim_others random claim)\<^sup>*\<^sup>* s (s' :: claim_state)"
  shows "cl_root s' = cl_root s" "cl_inner s' = cl_inner s" "cl_awaitedChildren s' = cl_awaitedChildren s"
    "cl_pendingDeferreds s' = cl_pendingDeferreds s"
proof -
  from others_star(1) [OF assms] show "cl_root s' = cl_root s" "cl_inner s' = cl_inner s"
    "cl_awaitedChildren s' = cl_awaitedChildren s" "cl_pendingDeferreds s' = cl_pendingDeferreds s"
    by (cases s; cases s'; simp)+
qed

lemma survey_fold:
  assumes "traced env (fold_proc (survey_one claim) ds (t0, us)) s tr (Inr (t, vs)) s'"
  shows "set us \<subseteq> set vs \<and> (\<forall>d \<in> set ds. d \<in> set vs \<or> (\<exists>(x, y) \<in> set tr. env\<^sup>*\<^sup>* s x \<and>
    (\<exists>q. map_of (w_queues x) (ac_queue claim) = Some q \<and> available_in claim d q)))"
  using assms
proof (induction ds arbitrary: t0 us s tr)
  case (Cons d ds)
  from Cons.prems obtain t1 us1 s1 tr1 tr2 where 1: "tr = tr1 @ tr2" "traced env (survey_one claim d (t0, us)) s tr1 (Inr (t1, us1)) s1"
    "traced env (fold_proc (survey_one claim) ds (t1, us1)) s1 tr2 (Inr (t, vs)) s'"
    by (auto elim: traced_bind_InrE)
  have e: "env\<^sup>*\<^sup>* s s1" using traced_ends [OF 1(2)] by (rule readsD [rotated]) (auto intro!: reading)
  from 1(2) obtain b s2 tr3 tr4 where 2: "tr1 = tr3 @ tr4" "traced env (deferredAvailable claim d) s tr3 (Inr b) s2"
    "traced env (if b then give (t0, us) else bind_proc (deadline claim d) (\<lambda>x. give (case x of None \<Rightarrow> t0
       | Some t \<Rightarrow> (case t0 of None \<Rightarrow> Some t | Some e \<Rightarrow> Some (min e t)), us @ [d]))) s2 tr4 (Inr (t1, us1)) s1"
    unfolding survey_one_def prod.case by (rule traced_bind_InrE)
  have "us1 = us \<or> us1 = us @ [d] \<and> \<not> b" using 2(3) by (cases b) (auto elim!: traced_bind_InrE)
  moreover have "b \<or> us1 = us @ [d]" using 2(3) by (cases b) (auto elim!: traced_bind_InrE)
  ultimately have "set us \<subseteq> set us1 \<and> (d \<in> set us1 \<or> (\<exists>(x, y) \<in> set tr1. env\<^sup>*\<^sup>* s x \<and>
      (\<exists>q. map_of (w_queues x) (ac_queue claim) = Some q \<and> available_in claim d q)))"
    using deferred_found [of env claim d s tr3 s2] 2(1,2) by (cases b) fastforce+
  moreover note Cons.IH [OF 1(3)]
  moreover have "env\<^sup>*\<^sup>* s1 x \<Longrightarrow> env\<^sup>*\<^sup>* s x" for x using e by simp
  ultimately show ?case unfolding 1(1) by fastforce
qed simp

lemma schedule_run_awake:
  assumes "schedule_run i t q = Inr q'"
  shows "\<exists>r. find_run i q' = Some r \<and> r_wake_event r = None"
proof -
  from assms obtain r where r: "tbl_find (\<lambda>r. r_id r = i \<and> r_state r = Running) (runs q) = Some r"
    by (auto simp: schedule_run_def split: option.splits)
  then have "find_run i q \<noteq> None"
    by (auto simp: find_run_def tbl_find_None dest!: tbl_find_SomeD)
  then show ?thesis
    using assms r by (auto simp: schedule_run_def find_run_update_runs dest: find_runD)
qed

text \<open>After a new delay of 0, and after the doorbell rang, the run is not asleep on the doorbell.\<close>

lemma reschedule_awake:
  assumes "ends (claim_others random claim) (reschedule claim) s (Inr ()) s'" "queue_at claim s q"
  shows "\<not> asleep_at random claim s'"
proof -
  from assms(1) obtain s1 s2 where 1: "(claim_others random claim)\<^sup>*\<^sup>* s s1" "(claim_others random claim)\<^sup>*\<^sup>* s2 s'"
    "store_scheduleRunInSeconds (ac_queue claim) (ac_runId claim) 0 s1 = (Inr (), s2)"
    by (auto simp: reschedule_def )
  obtain q1 where q1: "queue_at claim s1 q1" using queue_at_later [OF 1(1) assms(2)] by blast
  then obtain q2 where q2: "schedule_run (ac_runId claim) (w_db_now s1) q1 = Inr q2" "s2 = set_queue (ac_queue claim) q2 s1"
    using 1(3) by (auto simp: store_scheduleRunInSeconds_def sql_void_eq queue_at_def split: sum.splits)
  have at: "queue_at claim s2 q2" unfolding q2(2) by (rule queue_at_step [OF q1 queue_step.schedule [OF q2(1)]])
  from q2(1) obtain r where "find_run (ac_runId claim) q2 = Some r" "r_wake_event r = None"
    using schedule_run_awake by blast
  then have "\<not> asleep_at random claim s2" using at by (auto simp: asleep_at_def asleep_on_def queue_at_def)
  then show ?thesis using asleep_earlier [OF 1(2) _ at] by blast
qed

lemma emit_payload:
  assumes "emit_event now n p q = Inr q'"
  shows "event_payload n q' \<noteq> None"
  using assms
proof (cases rule: emit_event_cases)
  case again
  then show ?thesis by simp
next
  case (first q1)
  have "event_payload n q' = event_payload n q1" by (rule payload_same) (simp add: first(2) wake_waiters_fields)
  then show ?thesis using record_event_payload(2) [OF first(1)] by simp
qed

lemma emit_at:
  assumes "store_emitEvent (ac_queue claim) ev p s = (Inr (), s')" "queue_at claim s q"
  shows "\<exists>q'. queue_at claim s' q' \<and> event_payload ev q' \<noteq> None \<and> queue_step q q' \<and> world.more s' = world.more s"
proof -
  obtain q' where q': "emit_event (w_db_now s) ev (Some p) q = Inr q'" "s' = set_queue (ac_queue claim) q' s"
    using assms by (auto simp: store_emitEvent_def sql_void_eq queue_at_def split: sum.splits)
  then show ?thesis using emit_payload [OF q'(1)] queue_step.emit [OF q'(1)] queue_at_step [OF assms(2)] by auto
qed

lemma ring_awake:
  assumes "ends (claim_others random claim) (orDie (store_emitEvent (ac_queue claim) (bell_of random claim) p)) s (Inr ()) s'"
    "queue_at claim s q"
  shows "\<not> asleep_at random claim s'"
proof -
  from assms(1) obtain s1 s2 where 1: "(claim_others random claim)\<^sup>*\<^sup>* s s1" "(claim_others random claim)\<^sup>*\<^sup>* s2 s'"
    "store_emitEvent (ac_queue claim) (bell_of random claim) p s1 = (Inr (), s2)"
    by (auto simp: )
  obtain q1 where q1: "queue_at claim s1 q1" using queue_at_later [OF 1(1) assms(2)] by blast
  from emit_at [OF 1(3) q1] obtain q2 where q2: "queue_at claim s2 q2" "event_payload (bell_of random claim) q2 \<noteq> None" by blast
  then have "\<not> asleep_at random claim s2" by (auto simp: asleep_at_def asleep_on_def queue_at_def)
  then show ?thesis using asleep_earlier [OF 1(2) _ q2(1)] by blast
qed

lemma register_at:
  assumes "ends (claim_others random claim) (register_doorbell claim bell t) s (Inr b) s'" "queue_at claim s q"
  shows "\<exists>q'. queue_at claim s' q' \<and> world.more s' = world.more s"
proof -
  let ?e = "claim_others random claim"
  from assms(1) obtain s1 s2 s3 n where 1: "?e\<^sup>*\<^sup>* s s1" "?e\<^sup>*\<^sup>* s2 s'"
    "store_awaitEvent (ac_queue claim) (ac_taskId claim) (ac_runId claim) (db_checkpointName bell) (db_eventName bell) n s1
      = (Inr b, s2)"
  proof -
    from assms(1) obtain c s1 where c: "ends ?e (clockTimeoutSeconds t) s (Inr c) s1"
      "ends ?e (bind_proc (childPollTimeoutSeconds claim) (\<lambda>k. orDie (store_awaitEvent (ac_queue claim) (ac_taskId claim)
        (ac_runId claim) (db_checkpointName bell) (db_eventName bell) (minimumDefined c k)))) s1 (Inr b) s'"
      unfolding register_doorbell_def ends_bind by blast
    from c(2) obtain k s2 where k: "ends ?e (childPollTimeoutSeconds claim) s1 (Inr k) s2"
      "ends ?e (orDie (store_awaitEvent (ac_queue claim) (ac_taskId claim)
        (ac_runId claim) (db_checkpointName bell) (db_eventName bell) (minimumDefined c k))) s2 (Inr b) s'"
      by (auto simp: ends_bind)
    have "?e\<^sup>*\<^sup>* s s2" using readsD [OF reads_polymorphic(5) c(1)] readsD [OF reads_local(2) k(1)] by simp
    with k(2) show ?thesis using that by (auto intro: rtranclp_trans)
  qed
  obtain q1 where q1: "queue_at claim s1 q1" using queue_at_later [OF 1(1) assms(2)] by blast
  obtain row q2 where q2: "await_event (w_db_now s1) (ac_taskId claim) (ac_runId claim) (db_checkpointName bell)
      (db_eventName bell) n q1 = Inr (row, q2)" "s2 = set_queue (ac_queue claim) q2 s1"
    using 1(3) q1 by (auto simp: store_awaitEvent_def sql_eq queue_at_def bind_ts_def split: sum.splits)
  from q1 obtain r where "find_run (ac_runId claim) q1 = Some r" "r_task r = ac_taskId claim"
    by (auto simp: queue_at_def owned_by_def)
  from queue_at_step [OF q1 queue_step.await [OF q2(1) this]] have at: "queue_at claim s2 q2" by (simp add: q2(2))
  have "world.more s' = world.more s"
    using others_star(1) [OF 1(1)] others_star(1) [OF 1(2)] by (simp add: q2(2))
  with queue_at_later [OF 1(2) at] show ?thesis by blast
qed

lemma taskByExecutionId_reads: "store_taskByExecutionId n x w = (r, w') \<Longrightarrow> w' = w"
proof -
  have "snd (store_taskByExecutionId n x w) = w" by (simp add: store_taskByExecutionId_def)
  then show "store_taskByExecutionId n x w = (r, w') \<Longrightarrow> w' = w" by simp
qed

text \<open>A child that has not ended, as its parent reads it.\<close>

definition child_open :: "ExecutionReference \<Rightarrow> 'w world_scheme \<Rightarrow> bool" where
  "child_open child s \<longleftrightarrow> (\<exists>task. store_taskByExecutionId (xr_queue child) (xr_executionId child) s = (Inr task, s) \<and>
     (case task of None \<Rightarrow> True | Some t \<Rightarrow> \<not> isTerminalTaskState (xt_state t)))"

lemma child_open_seen:
  assumes "ends env (childIsTerminal child) s (Inr False) s'"
  shows "\<exists>s1. env\<^sup>*\<^sup>* s s1 \<and> env\<^sup>*\<^sup>* s1 s' \<and> child_open child s1"
proof -
  from assms obtain task s2 where 1: "ends env (orDie (store_taskByExecutionId (xr_queue child) (xr_executionId child))) s (Inr task) s2"
    "ends env (give (case task of None \<Rightarrow> False | Some t \<Rightarrow> isTerminalTaskState (xt_state t))) s2 (Inr False) s'"
    unfolding childIsTerminal_def ends_bind by auto
  from 1(1) obtain s0 s1 where 2: "env\<^sup>*\<^sup>* s s0" "env\<^sup>*\<^sup>* s1 s2"
    "store_taskByExecutionId (xr_queue child) (xr_executionId child) s0 = (Inr task, s1)" by auto
  from taskByExecutionId_reads [OF 2(3)] 2(3) 1(2) have "s1 = s0" "child_open child s0"
    by (auto simp: child_open_def split: option.splits)
  moreover have "env\<^sup>*\<^sup>* s2 s'" using 1(2) by simp
  ultimately show ?thesis using 2 by (meson rtranclp_trans)
qed

definition not_done :: "ActiveClaim \<Rightarrow> string \<Rightarrow> 'w world_scheme \<Rightarrow> bool" where
  "not_done claim d s \<longleftrightarrow> (\<exists>q. queue_at claim s q \<and> event_payload (event_of claim d) q = None)"

definition at_hand :: "ActiveClaim \<Rightarrow> string \<Rightarrow> 'w world_scheme \<Rightarrow> bool" where
  "at_hand claim d s \<longleftrightarrow> (\<exists>q. queue_at claim s q \<and> available_in claim d q)"

text \<open>Some instant between two states.\<close>

definition instant :: "('s \<Rightarrow> 's \<Rightarrow> bool) \<Rightarrow> 's \<Rightarrow> 's \<Rightarrow> ('s \<Rightarrow> bool) \<Rightarrow> bool" where
  "instant env s s' P \<longleftrightarrow> (\<exists>s1. env\<^sup>*\<^sup>* s s1 \<and> P s1 \<and> env\<^sup>*\<^sup>* s1 s')"

lemma instant_wider: "instant env s1 s2 P \<Longrightarrow> env\<^sup>*\<^sup>* s s1 \<Longrightarrow> env\<^sup>*\<^sup>* s2 s' \<Longrightarrow> instant env s s' P"
  unfolding instant_def by (meson rtranclp_trans)

lemma the_queue_at:
  assumes "(claim_others random claim)\<^sup>*\<^sup>* s s'" "queue_at claim s q" "map_of (w_queues s') (ac_queue claim) = Some q'"
  shows "queue_at claim s' q'"
proof -
  obtain q1 where "queue_at claim s' q1" using queue_at_later [OF assms(1,2)] by blast
  then show ?thesis using assms(3) by (simp add: queue_at_def)
qed

text \<open>The others do no more than \<open>claim_others\<close> allows.\<close>

definition tame :: "int \<times> int \<Rightarrow> ActiveClaim \<Rightarrow> (claim_state \<Rightarrow> claim_state \<Rightarrow> bool) \<Rightarrow> bool" where
  "tame random claim env \<longleftrightarrow> (\<forall>s s'. env s s' \<longrightarrow> claim_others random claim s s')"

lemma tame_star: "tame random claim env \<Longrightarrow> env\<^sup>*\<^sup>* s s' \<Longrightarrow> (claim_others random claim)\<^sup>*\<^sup>* s s'"
  unfolding tame_def by (metis mono_rtranclp)

lemma tame_ends: "tame random claim env \<Longrightarrow> ends env p s r s' \<Longrightarrow> ends (claim_others random claim) p s r s'"
  by (rule ends_mono) (auto simp: tame_def)

lemma tame_moves: "tame random claim env \<Longrightarrow> env\<^sup>*\<^sup>* s s' \<Longrightarrow> db_others s s'"
  by (rule db_others_star [of env]) (auto simp: tame_def others_def)

text \<open>The rechecks that found nothing.\<close>

lemma recheck_steps:
  assumes "ends env (recheck claim (bell_of random claim) ds) s (Inr ()) s'" "tame random claim env"
    and "queue_at claim s q" "asleep_at random claim s'"
  obtains s1 s2 s3 where "ends env (interruptRequested claim) s (Inr False) s1"
    "ends env (some_proc (deferredAvailable claim) ds) s1 (Inr False) s2" "ends env anyChildTerminal s2 (Inr False) s3"
    "env\<^sup>*\<^sup>* s3 s'"
proof -
  let ?ring = "orDie (store_emitEvent (ac_queue claim) (bell_of random claim) JNull)"
  have ring: False if "ends env ?ring s1 (Inr ()) s'" "env\<^sup>*\<^sup>* s s1" for s1
    using queue_at_later [OF tame_star [OF assms(2) that(2)] assms(3)] ring_awake [OF tame_ends [OF assms(2) that(1)]] assms(4) by blast
  from assms(1) obtain b s1 where 1: "ends env (interruptRequested claim) s (Inr b) s1"
    "ends env (if b then ?ring else bind_proc (some_proc (deferredAvailable claim) ds) (\<lambda>available.
         if available then ?ring else bind_proc anyChildTerminal (\<lambda>terminal. if terminal then ?ring else give ())))
       s1 (Inr ()) s'"
    by (auto simp: recheck_def Let_def ends_bind)
  have s1: "env\<^sup>*\<^sup>* s s1" using readsD [OF reads_polymorphic(1) 1(1)] .
  from 1(2) ring [OF _ s1] have nb: "\<not> b" by auto
  with 1(2) obtain b2 s2 where 2: "ends env (some_proc (deferredAvailable claim) ds) s1 (Inr b2) s2"
    "ends env (if b2 then ?ring else bind_proc anyChildTerminal (\<lambda>terminal. if terminal then ?ring else give ()))
       s2 (Inr ()) s'"
    by (auto simp: ends_bind)
  have s2: "env\<^sup>*\<^sup>* s s2" using s1 readsD [OF reads_some [OF reads_polymorphic(2)] 2(1)] by simp
  from 2(2) ring [OF _ s2] have nb2: "\<not> b2" by auto
  with 2(2) obtain b3 s3 where 3: "ends env anyChildTerminal s2 (Inr b3) s3"
    "ends env (if b3 then ?ring else give ()) s3 (Inr ()) s'"
    by (auto simp: ends_bind)
  have s3: "env\<^sup>*\<^sup>* s s3" using s2 readsD [OF reads_local(1) 3(1)] by simp
  from 3(2) ring [OF _ s3] have "\<not> b3" by auto
  with 1(1) nb 2(1) nb2 3 that show ?thesis by auto
qed

lemma recheck_quiet:
  assumes "ends env (recheck claim (bell_of random claim) ds) s (Inr ()) s'" "tame random claim env"
    and "queue_at claim s q" "asleep_at random claim s'"
  shows "instant env s s' (\<lambda>x. \<not> marked claim x)"
    "\<forall>c \<in> snd ` set (cl_awaitedChildren s). instant env s s' (child_open c)"
    "\<forall>d \<in> set ds. instant env s s' (not_done claim d)"
proof -
  obtain s1 s2 s3 where 1: "ends env (interruptRequested claim) s (Inr False) s1"
    and 2: "ends env (some_proc (deferredAvailable claim) ds) s1 (Inr False) s2"
    and 3: "ends env anyChildTerminal s2 (Inr False) s3" and e3: "env\<^sup>*\<^sup>* s3 s'"
    using recheck_steps [OF assms] .
  have s1: "env\<^sup>*\<^sup>* s s1" using readsD [OF reads_polymorphic(1) 1] .
  have s12: "env\<^sup>*\<^sup>* s1 s2" using readsD [OF reads_some [OF reads_polymorphic(2)] 2] .
  have e2: "env\<^sup>*\<^sup>* s2 s'" using readsD [OF reads_local(1) 3] e3 by simp
  have s2: "env\<^sup>*\<^sup>* s s2" and e1: "env\<^sup>*\<^sup>* s1 s'" using s1 s12 e2 by simp_all
  show "instant env s s' (\<lambda>x. \<not> marked claim x)"
  proof -
    from interrupt_seen [OF 1] obtain x where "env\<^sup>*\<^sup>* s x" "env\<^sup>*\<^sup>* x s1" "\<not> marked claim x"
      by (auto simp: marked_def)
    with e1 show ?thesis by (auto simp: instant_def intro: rtranclp_trans)
  qed
  show "\<forall>d \<in> set ds. instant env s s' (not_done claim d)"
  proof
    fix d assume "d \<in> set ds"
    then obtain x y where x: "env\<^sup>*\<^sup>* s1 x" "ends env (deferredAvailable claim d) x (Inr False) y" "env\<^sup>*\<^sup>* y s2"
      using some_proc_none [where p = "deferredAvailable claim", OF 2 reads_polymorphic(2)] by blast
    from deferred_missing [OF x(2)] obtain z qz where z: "env\<^sup>*\<^sup>* x z" "env\<^sup>*\<^sup>* z y"
      "map_of (w_queues z) (ac_queue claim) = Some qz" "event_payload (event_of claim d) qz = None" by blast
    have sz: "env\<^sup>*\<^sup>* s z" using s1 x(1) z(1) by (meson rtranclp_trans)
    have "not_done claim d z"
      using the_queue_at [OF tame_star [OF assms(2) sz] assms(3) z(3)] z(4) by (auto simp: not_done_def)
    moreover have "env\<^sup>*\<^sup>* z s'" using z(2) x(3) e2 by (meson rtranclp_trans)
    ultimately show "instant env s s' (not_done claim d)" using sz by (auto simp: instant_def)
  qed
  show "\<forall>c \<in> snd ` set (cl_awaitedChildren s). instant env s s' (child_open c)"
  proof
    fix c assume c: "c \<in> snd ` set (cl_awaitedChildren s)"
    from 3 obtain x where x: "env\<^sup>*\<^sup>* s2 x" "ends env (some_proc childIsTerminal (map snd (cl_awaitedChildren x))) x (Inr False) s3"
      by (auto simp: anyChildTerminal_def ends_bind intro: ends_later)
    have sx: "env\<^sup>*\<^sup>* s x" using s2 x(1) by simp
    have "c \<in> set (map snd (cl_awaitedChildren x))" using c local_same(3) [OF tame_star [OF assms(2) sx]] by auto
    from some_proc_none [OF x(2) reads_polymorphic(3) this] obtain y z where
      "env\<^sup>*\<^sup>* x y" "ends env (childIsTerminal c) y (Inr False) z" "env\<^sup>*\<^sup>* z s3" by blast
    with child_open_seen have "instant env y z (child_open c)" unfolding instant_def by blast
    then show "instant env s s' (child_open c)"
      by (rule instant_wider) (use sx e3 \<open>env\<^sup>*\<^sup>* x y\<close> \<open>env\<^sup>*\<^sup>* z s3\<close> in \<open>meson rtranclp_trans\<close>)+
  qed
qed

text \<open>Markers and events stay, so that what was missing at an instant was missing before.\<close>

lemma missing_before:
  assumes "tame random claim env" "queue_at claim s q"
  shows "instant env s s' (\<lambda>x. \<not> marked claim x) \<Longrightarrow> \<not> marked claim s"
    "instant env s s' (not_done claim d) \<Longrightarrow> not_done claim d s"
proof -
  show "instant env s s' (\<lambda>x. \<not> marked claim x) \<Longrightarrow> \<not> marked claim s"
    unfolding instant_def using marked_later tame_moves [OF assms(1)] by blast
  assume "instant env s s' (not_done claim d)"
  then obtain x qx where x: "env\<^sup>*\<^sup>* s x" "queue_at claim x qx" "event_payload (event_of claim d) qx = None"
    by (auto simp: instant_def not_done_def)
  obtain q' where "queue_at claim x q'" "events_kept q q'" using queue_at_later [OF tame_star [OF assms(1) x(1)] assms(2)] by blast
  then have "events_kept q qx" using x(2) by (simp add: queue_at_def)
  then have "event_payload (event_of claim d) q = None" using x(3) by (cases "event_payload (event_of claim d) q") (auto simp: events_kept_def)
  then show "not_done claim d s" using assms(2) by (auto simp: not_done_def)
qed

lemma survey_seen:
  assumes "traced env (survey claim) s tr (Inr (t, us)) s'" "tame random claim env" "queue_at claim s q"
  shows "\<forall>d \<in> set (in_awaitedDeferreds (cl_root s)). d \<in> set us \<or> (\<exists>(x, y) \<in> set tr. at_hand claim d x)"
proof
  fix d assume d: "d \<in> set (in_awaitedDeferreds (cl_root s))"
  from assms(1) obtain ds s1 t1 t2 where 1: "tr = t1 @ t2" "traced env (get (\<lambda>s. in_awaitedDeferreds (cl_root s)) :: (claim_state, string list) wf) s t1 (Inr ds) s1"
    "traced env (fold_proc (survey_one claim) ds (None, [])) s1 t2 (Inr (t, us)) s'"
    unfolding survey_def by (rule traced_bind_InrE)
  from traced_ends [OF 1(2)] obtain s0 where s0: "env\<^sup>*\<^sup>* s s0" "ds = in_awaitedDeferreds (cl_root s0)" "env\<^sup>*\<^sup>* s0 s1" by auto
  have "d \<in> set ds" using d local_same(1) [OF tame_star [OF assms(2) s0(1)]] s0(2) by simp
  moreover have "at_hand claim d x" if "env\<^sup>*\<^sup>* s1 x" "map_of (w_queues x) (ac_queue claim) = Some qx" "available_in claim d qx" for x qx
  proof -
    have "env\<^sup>*\<^sup>* s x" using s0(1,3) that(1) by (meson rtranclp_trans)
    from the_queue_at [OF tame_star [OF assms(2) this] assms(3) that(2)] that(3) show ?thesis by (auto simp: at_hand_def)
  qed
  ultimately show "d \<in> set us \<or> (\<exists>(x, y) \<in> set tr. at_hand claim d x)"
    using survey_fold [OF 1(3)] 1(1) by fastforce
qed

text \<open>The registration of the wait: the run was running before it.\<close>

lemma await_at:
  assumes "store_awaitEvent (ac_queue claim) (ac_taskId claim) (ac_runId claim) c e n x = (Inr True, y)" "queue_at claim x q"
  shows "\<not> asleep_at random claim x" "\<exists>q'. queue_at claim y q'" "world.more y = world.more x"
proof -
  obtain row q2 where q2: "await_event (w_db_now x) (ac_taskId claim) (ac_runId claim) c e n q = Inr (row, q2)" "aw_suspend row"
    "y = set_queue (ac_queue claim) q2 x"
    using assms by (auto simp: store_awaitEvent_def sql_eq queue_at_def bind_ts_def split: sum.splits)
  obtain r where r: "find_run (ac_runId claim) q = Some r" "r_task r = ac_taskId claim"
    using assms(2) by (auto simp: queue_at_def owned_by_def)
  from queue_at_step [OF assms(2) queue_step.await [OF q2(1) r]] show "\<exists>q'. queue_at claim y q'" unfolding q2(3) by blast
  show "world.more y = world.more x" by (simp add: q2(3))
  have "r_state r = Running"
    using q2(1)
  proof (cases rule: await_event_cases)
    case (saved p)
    then show ?thesis using q2(2) by simp
  next
    case (live r')
    then show ?thesis using r(1) by simp
  qed
  then show "\<not> asleep_at random claim x" using r(1) assms(2) by (auto simp: asleep_at_def asleep_on_def queue_at_def)
qed

lemma register_traced:
  assumes "traced env (register_doorbell claim bell t) s tr (Inr b) s'"
  obtains tr0 x y n where "tr = tr0 @ [(x, y)]" "env\<^sup>*\<^sup>* s x" "env\<^sup>*\<^sup>* y s'"
    "store_awaitEvent (ac_queue claim) (ac_taskId claim) (ac_runId claim) (db_checkpointName bell) (db_eventName bell) n x
      = (Inr b, y)"
proof -
  from assms obtain c s1 t1 t2 where 1: "tr = t1 @ t2" "traced env (clockTimeoutSeconds t) s t1 (Inr c) s1"
    "traced env (bind_proc (childPollTimeoutSeconds claim) (\<lambda>k. orDie (store_awaitEvent (ac_queue claim) (ac_taskId claim)
        (ac_runId claim) (db_checkpointName bell) (db_eventName bell) (minimumDefined c k)))) s1 t2 (Inr b) s'"
    unfolding register_doorbell_def by (rule traced_bind_InrE)
  from 1(3) obtain k s2 t3 t4 where 2: "t2 = t3 @ t4" "traced env (childPollTimeoutSeconds claim) s1 t3 (Inr k) s2"
    "traced env (orDie (store_awaitEvent (ac_queue claim) (ac_taskId claim)
        (ac_runId claim) (db_checkpointName bell) (db_eventName bell) (minimumDefined c k))) s2 t4 (Inr b) s'"
    by (rule traced_bind_InrE)
  have "env\<^sup>*\<^sup>* s s2" using readsD [OF reads_polymorphic(5) traced_ends [OF 1(2)]] readsD [OF reads_local(2) traced_ends [OF 2(2)]] by simp
  moreover from 2(3) obtain x y where "env\<^sup>*\<^sup>* s2 x" "t4 = [(x, y)]" "env\<^sup>*\<^sup>* y s'"
    "store_awaitEvent (ac_queue claim) (ac_taskId claim) (ac_runId claim) (db_checkpointName bell) (db_eventName bell) (minimumDefined c k) x = (Inr b, y)"
    by (auto simp: traced_orDie)
  ultimately show ?thesis using that [of "t1 @ t3" x y] 1(1) 2(1) by (auto intro: rtranclp_trans)
qed

text \<open>What parking did when it left the run asleep.\<close>

lemma park_parts:
  assumes "traced env (parkSuspended random claim) s tr (Inr ()) s'" "tame random claim env"
    and "queue_at claim s q" "asleep_at random claim s'"
  obtains t0 s2 t1 t us s3 t2 a b n t3 s4 where "tr = t0 @ t1 @ t2 @ (a, b) # t3" "env\<^sup>*\<^sup>* s s2"
    "traced env (survey claim) s2 t1 (Inr (t, us)) s3" "env\<^sup>*\<^sup>* s a" "env\<^sup>*\<^sup>* b s4"
    "store_awaitEvent (ac_queue claim) (ac_taskId claim) (ac_runId claim) (db_checkpointName (makeDoorbell random (ac_executionId claim)))
       (bell_of random claim) n a = (Inr True, b)"
    "ends env (recheck claim (bell_of random claim) us) s4 (Inr ()) s'"
proof -
  let ?bell = "makeDoorbell random (ac_executionId claim)"
  have resched: False if "traced env (reschedule claim) x tr (Inr ()) s'" "queue_at claim x qx" for x qx tr
    using reschedule_awake [OF tame_ends [OF assms(2) traced_ends [OF that(1)]] that(2)] assms(4) by blast
  have at: "\<exists>qx. queue_at claim x qx" if "env\<^sup>*\<^sup>* s x" for x using queue_at_later [OF tame_star [OF assms(2) that] assms(3)] by blast
  from assms(1) obtain b s1 ta tb where 1: "tr = ta @ tb" "traced env (interruptRequested claim) s ta (Inr b) s1"
    "traced env (if b then reschedule claim else bind_proc anyChildTerminal (\<lambda>terminal.
       if terminal then reschedule claim else bind_proc (survey claim) (\<lambda>(earliestDeadline, unresolvedDeferreds).
       bind_proc (register_doorbell claim ?bell earliestDeadline) (\<lambda>should_suspend.
        if \<not> should_suspend then reschedule claim
        else recheck claim (bell_of random claim) unresolvedDeferreds)))) s1 tb (Inr ()) s'"
    unfolding parkSuspended_def Let_def by (rule traced_bind_InrE)
  have e1: "env\<^sup>*\<^sup>* s s1" using readsD [OF reads_polymorphic(1) traced_ends [OF 1(2)]] .
  then obtain q1 where "queue_at claim s1 q1" using at by blast
  from resched [OF _ this] 1(3) have "\<not> b" by auto
  with 1(3) obtain b2 s2 tc td where 2: "tb = tc @ td" "traced env anyChildTerminal s1 tc (Inr b2) s2"
    "traced env (if b2 then reschedule claim else bind_proc (survey claim) (\<lambda>(earliestDeadline, unresolvedDeferreds).
       bind_proc (register_doorbell claim ?bell earliestDeadline) (\<lambda>should_suspend.
        if \<not> should_suspend then reschedule claim
        else recheck claim (bell_of random claim) unresolvedDeferreds))) s2 td (Inr ()) s'"
    by (auto elim: traced_bind_InrE)
  have e2: "env\<^sup>*\<^sup>* s s2" using e1 readsD [OF reads_local(1) traced_ends [OF 2(2)]] by simp
  then obtain q2 where "queue_at claim s2 q2" using at by blast
  from resched [OF _ this] 2(3) have "\<not> b2" by auto
  with 2(3) have "traced env (bind_proc (survey claim) (\<lambda>(earliestDeadline, unresolvedDeferreds).
       bind_proc (register_doorbell claim ?bell earliestDeadline) (\<lambda>should_suspend.
        if \<not> should_suspend then reschedule claim
        else recheck claim (bell_of random claim) unresolvedDeferreds))) s2 td (Inr ()) s'" by simp
  then obtain found s3 te tf where 3: "td = te @ tf" "traced env (survey claim) s2 te (Inr found) s3"
    "traced env (case found of (t, us) \<Rightarrow> bind_proc (register_doorbell claim ?bell t) (\<lambda>should_suspend.
        if \<not> should_suspend then reschedule claim else recheck claim (bell_of random claim) us)) s3 tf (Inr ()) s'"
    by (rule traced_bind_InrE)
  then obtain t us where 3: "td = te @ tf" "traced env (survey claim) s2 te (Inr (t, us)) s3"
    "traced env (bind_proc (register_doorbell claim ?bell t) (\<lambda>should_suspend.
        if \<not> should_suspend then reschedule claim else recheck claim (bell_of random claim) us)) s3 tf (Inr ()) s'"
    by (cases found) auto
  have e3: "env\<^sup>*\<^sup>* s s3" using e2 readsD [OF reads_survey traced_ends [OF 3(2)]] by simp
  from 3(3) obtain b4 s4 tg th where 4: "tf = tg @ th" "traced env (register_doorbell claim ?bell t) s3 tg (Inr b4) s4"
    "traced env (if \<not> b4 then reschedule claim else recheck claim (bell_of random claim) us) s4 th (Inr ()) s'"
    by (rule traced_bind_InrE)
  from register_at [OF tame_ends [OF assms(2) traced_ends [OF 4(2)]]] at [OF e3] obtain q4 where q4: "queue_at claim s4 q4" by blast
  from register_traced [OF 4(2)] obtain tr0 a b n where
    5: "tg = tr0 @ [(a, b)]" "env\<^sup>*\<^sup>* s3 a" "env\<^sup>*\<^sup>* b s4"
      "store_awaitEvent (ac_queue claim) (ac_taskId claim) (ac_runId claim) (db_checkpointName ?bell) (bell_of random claim) n a = (Inr b4, b)" .
  from resched [OF _ q4] 4(3) have "b4" by (cases b4) auto
  then have "ends env (recheck claim (bell_of random claim) us) s4 (Inr ()) s'" "b4 = True" using traced_ends [OF 4(3)] by simp_all
  moreover have "env\<^sup>*\<^sup>* s a" using e3 5(2) by simp
  moreover have "tr = (ta @ tc) @ te @ tr0 @ (a, b) # th" by (simp add: 1(1) 2(1) 3(1) 4(1) 5(1))
  ultimately show ?thesis using that [OF _ e2 3(2)] 5(3,4) by metis
qed

text \<open>
  Property C10: a run is not parked over the head of an interruption, of a child or of a deferred. Take any execution of
  \<open>parkSuspended\<close> that leaves the run asleep on its doorbell, with whatever stored functions other processes call
  between its statements. There is one statement, the registration of the wait, that put the run to sleep, and directly
  after it there was no marker of an interruption, and no awaited deferred was done, unless an earlier statement of this
  execution had found it there; and every awaited child was still open at some instant after it. So whoever marks, ends
  or completes something later finds the run registered when it rings. Other processes do not put the run to sleep on
  this doorbell, whose name is random.
\<close>

theorem park_rechecks:
  assumes "traced env (parkSuspended random claim) s tr (Inr ()) s'" "tame random claim env"
    and "queue_at claim s q" "asleep_at random claim s'"
  shows "\<exists>before a b later. tr = before @ (a, b) # later \<and> \<not> asleep_at random claim a \<and> asleep_at random claim b \<and>
    \<not> marked claim b \<and> (\<forall>c \<in> snd ` set (cl_awaitedChildren s). instant env b s' (child_open c)) \<and>
    (\<forall>d \<in> set (in_awaitedDeferreds (cl_root s)). not_done claim d b \<or> (\<exists>(x, y) \<in> set before. at_hand claim d x))"
  using assms
proof (rule park_parts)
  fix t0 s2 t1 t us s3 t2 a b n t3 s4
  assume tr: "tr = t0 @ t1 @ t2 @ (a, b) # t3" and e2: "env\<^sup>*\<^sup>* s s2" and found: "traced env (survey claim) s2 t1 (Inr (t, us)) s3"
    and ea: "env\<^sup>*\<^sup>* s a" and eb: "env\<^sup>*\<^sup>* b s4" and await: "store_awaitEvent (ac_queue claim) (ac_taskId claim) (ac_runId claim)
      (db_checkpointName (makeDoorbell random (ac_executionId claim))) (bell_of random claim) n a = (Inr True, b)"
    and re: "ends env (recheck claim (bell_of random claim) us) s4 (Inr ()) s'"
  note star = tame_star [OF assms(2)]
  obtain qa where qa: "queue_at claim a qa" using queue_at_later [OF star [OF ea] assms(3)] by blast
  note a = await_at [OF await qa]
  then obtain qb where qb: "queue_at claim b qb" by blast
  then obtain q4 where q4: "queue_at claim s4 q4" using queue_at_later [OF star [OF eb]] by blast
  note quiet = recheck_quiet [OF re assms(2) q4 assms(4)]
  have wide: "instant env s4 s' P \<Longrightarrow> instant env b s' P" for P by (rule instant_wider) (use eb in auto)
  have "env\<^sup>*\<^sup>* b s'" using wide [OF quiet(1)] by (auto simp: instant_def)
  from asleep_earlier [OF star [OF this] assms(4) qb] have "asleep_at random claim b" .
  moreover have "cl_awaitedChildren s4 = cl_awaitedChildren s"
    using local_same(3) [OF star [OF ea]] a(3) local_same(3) [OF star [OF eb]] by (cases a; cases b) simp
  then have "\<forall>c \<in> snd ` set (cl_awaitedChildren s). instant env b s' (child_open c)" using quiet(2) wide by simp
  moreover have "not_done claim d b \<or> (\<exists>(x, y) \<in> set (t0 @ t1 @ t2). at_hand claim d x)"
    if "d \<in> set (in_awaitedDeferreds (cl_root s))" for d
  proof -
    obtain q2 where "queue_at claim s2 q2" using queue_at_later [OF star [OF e2] assms(3)] by blast
    from survey_seen [OF found assms(2) this] have "d \<in> set us \<or> (\<exists>(x, y) \<in> set t1. at_hand claim d x)"
      using that local_same(1) [OF star [OF e2]] by simp
    then show ?thesis using missing_before(2) [OF assms(2) qb] wide quiet(3) by fastforce
  qed
  moreover have "\<not> marked claim b" using missing_before(1) [OF assms(2) qb] wide [OF quiet(1)] by blast
  ultimately show ?thesis using a(1) tr by (intro exI [of _ "t0 @ t1 @ t2"] exI [of _ a] exI [of _ b] exI [of _ t3]) auto
qed

text \<open>
  The demonstration: run 1 of \<open>demo_claimed\<close> executes the workflow \<open>flow\<close> with execution id \<open>x\<close> and awaits the
  deferred \<open>d\<close>; \<open>demo_parked\<close> is its queue when it sleeps on its doorbell.
\<close>

definition demo_claim :: ActiveClaim where
  "demo_claim = \<lparr>ac_queue = ''default'', ac_taskId = 0, ac_runId = 1, ac_workflowTag = ''flow'', ac_executionId = ''x'',
     ac_childStatusPollInterval = 30000\<rparr>"

definition demo_entered :: claim_state where
  "demo_entered = (enter_claim (demo_world demo_claimed))\<lparr>cl_root := initial_instance\<lparr>in_awaitedDeferreds := [''d'']\<rparr>\<rparr>"

definition demo_bell :: DoorbellNames where
  "demo_bell = makeDoorbell (1, 2) ''x''"

definition demo_parked :: qstate where
  "demo_parked = queue_after (await_event 100 0 1 (db_checkpointName demo_bell) (db_eventName demo_bell) None demo_claimed)"

lemma demo_parks:
  "await_event 100 0 1 (db_checkpointName demo_bell) (db_eventName demo_bell) None demo_claimed
     = Inr (\<lparr>aw_suspend = True, aw_payload = None\<rparr>, demo_parked)"
  by code_simp

lemma demo_entered_at: "queue_at demo_claim demo_entered demo_claimed"
proof -
  have "map_of (w_queues demo_entered) (ac_queue demo_claim) = Some demo_claimed" by code_simp
  moreover have "map_option r_task (find_run (ac_runId demo_claim) demo_claimed) = Some (ac_taskId demo_claim)" by code_simp
  ultimately show ?thesis
    using reachable_inv [OF demo_claimed_reachable] by (auto simp: queue_at_def owned_by_def)
qed

lemma demo_parked_at:
  assumes "map_of (w_queues s) ''default'' = Some demo_parked"
  shows "queue_at demo_claim s demo_parked" "asleep_at (1, 2) demo_claim s"
proof -
  have c: "ac_queue demo_claim = ''default''" "ac_taskId demo_claim = 0" "ac_runId demo_claim = 1" by code_simp+
  obtain r where "find_run 1 demo_claimed = Some r" "r_task r = 0"
    using demo_entered_at by (auto simp: queue_at_def owned_by_def c)
  from queue_step.await [OF demo_parks this] have "queue_step demo_claimed demo_parked" .
  then show at: "queue_at demo_claim s demo_parked"
    using queue_at_steps [OF demo_entered_at _ assms [folded c(1)]] by blast
  have "asleep_on (bell_of (1, 2) demo_claim) 0 1 demo_parked"
  proof -
    have "event_payload (bell_of (1, 2) demo_claim) demo_parked = None" by code_simp
    moreover have "map_option (\<lambda>r. (r_task r, r_state r, r_wake_event r)) (find_run 1 demo_parked)
      = Some (0, Sleeping, Some (bell_of (1, 2) demo_claim))" by code_simp
    ultimately show ?thesis by (auto simp: asleep_on_def)
  qed
  with at show "asleep_at (1, 2) demo_claim s" by (auto simp: asleep_at_def c)
qed

theorem park_rechecks_witness:
  "\<exists>s' tr before a b later. traced (\<lambda>_ _. False) (parkSuspended (1, 2) demo_claim) demo_entered tr (Inr ()) s' \<and>
     tr = before @ (a, b) # later \<and> \<not> asleep_at (1, 2) demo_claim a \<and> asleep_at (1, 2) demo_claim b \<and>
     \<not> marked demo_claim b \<and> (not_done demo_claim ''d'' b \<or> (\<exists>(x, y) \<in> set before. at_hand demo_claim ''d'' x))"
proof -
  let ?m = "run_proc (parkSuspended (1, 2) demo_claim) demo_entered"
  have "fst ?m = Inr ()" by code_simp
  then have m: "?m = (Inr (), snd ?m)" by (metis prod.collapse)
  obtain tr where tr: "traced (\<lambda>_ _. False) (parkSuspended (1, 2) demo_claim) demo_entered tr (Inr ()) (snd ?m)"
    using ends_traced [OF run_proc_ends [OF m]] by blast
  have "map_of (w_queues (snd ?m)) ''default'' = Some demo_parked" by code_simp
  then have a: "asleep_at (1, 2) demo_claim (snd ?m)" by (rule demo_parked_at(2))
  have d: "''d'' \<in> set (in_awaitedDeferreds (cl_root demo_entered))" by (simp add: demo_entered_def)
  have "tame (1, 2) demo_claim (\<lambda>_ _. False)" by (simp add: tame_def)
  from park_rechecks [OF tr this demo_entered_at a] obtain before a b later where
    "tr = before @ (a, b) # later" "\<not> asleep_at (1, 2) demo_claim a" "asleep_at (1, 2) demo_claim b" "\<not> marked demo_claim b"
    "not_done demo_claim ''d'' b \<or> (\<exists>(x, y) \<in> set before. at_hand demo_claim ''d'' x)"
    using d by (elim exE conjE) (rule that, assumption+, blast)
  with tr show ?thesis by (intro exI conjI) assumption+
qed

end
