(* ===== verification/Wake_Spec.thy ===== *)
theory Wake_Spec
  imports Workflow_Spec Workflow_Moves
begin

text \<open>
  Who wakes a parked run: the completion of a deferred, and the ring of its doorbell by whoever has something for it.
\<close>

section \<open>Sleepers and what rings for them\<close>

lemma key_task_by_key: "key_task k q = map_option t_id (task_by_key k q)"
  by (cases "q_mode q"; cases "map_of (idempotency q) k") (simp_all add: key_task_def task_by_key_def)

lemma task_by_key_in: "task_by_key k q = Some t \<Longrightarrow> t \<in> set (tasks q)"
  by (auto simp: task_by_key_def find_task_def split: storage_mode.splits Option.bind_splits dest: tbl_find_SomeD)

text \<open>An emit of any event puts no run to sleep.\<close>

lemma emit_asleep:
  assumes "emit_event now n p q = Inr q'" "asleep_on bell ti i q'" "queue_inv q"
  shows "asleep_on bell ti i q"
proof -
  obtain r where r: "find_run i q' = Some r" "r_task r = ti" "r_state r = Sleeping" "r_wake_event r = Some bell"
    "event_payload bell q' = None"
    using assms(2) by (auto simp: asleep_on_def)
  have none: "event_payload bell q = None"
    using emit_event_kept [OF assms(3,1)] r(5) by (cases "event_payload bell q") (auto simp: events_kept_def)
  from assms(1) have "find_run i q = Some r"
  proof (cases rule: emit_event_cases)
    case again
    then show ?thesis using r(1) by simp
  next
    case (first q1)
    have "r \<in> set (runs q')" "r_id r = i" using find_runD [OF r(1)] by simp_all
    then have "r \<in> set (runs q1)" using woken_runs r(3) unfolding first(2) by fastforce
    then have "r \<in> set (runs q)" using record_event_events(1) [OF first(1) assms(3)] by simp
    then show ?thesis using find_run_eq [OF assms(3)] \<open>r_id r = i\<close> by blast
  qed
  with r none show ?thesis by (auto simp: asleep_on_def)
qed

text \<open>What the two reads of a producer see of a run that is asleep.\<close>

lemma sleeper_newest:
  assumes "queue_inv q" "asleep_on bell ti i q" "key_task k q = Some ti"
  shows "\<exists>t. task_by_key k q = Some t \<and> t_last_attempt_run t = Some i"
proof -
  obtain r where r: "find_run i q = Some r" "r_task r = ti" "r_state r = Sleeping"
    using assms(2) by (auto simp: asleep_on_def)
  obtain t where t: "task_by_key k q = Some t" "t_id t = ti" using assms(3) by (auto simp: key_task_by_key)
  have "newest_run t r"
    using core_inv_active [OF queue_inv_coreD [OF assms(1)] task_by_key_in [OF t(1)]] find_runD [OF r(1)] r(2,3) t(2)
    by (simp add: active_def)
  then show ?thesis using t(1) find_runD [OF r(1)] by (auto simp: newest_run_def)
qed

lemma taskByExecutionId_at:
  assumes "store_taskByExecutionId n k s = (Inr task, s')" "map_of (w_queues s) n = Some q"
  shows "task = map_option execution_row (task_by_key k q)"
  using assms by (auto simp: store_taskByExecutionId_def sql_rows_eq bind_ts_def quoteQueueTable_def split: if_splits)

lemma currentWakeEvent_at:
  assumes "store_currentWakeEvent n i s = (Inr ev, s')" "map_of (w_queues s) n = Some q"
  shows "s' = s \<and> ev = Option.bind (find_run i q) (\<lambda>r. if r_state r = Sleeping then r_wake_event r else None)"
  using assms by (auto simp: store_currentWakeEvent_def sql_rows_eq bind_ts_def quoteQueueTable_def split: if_splits)

section \<open>Worlds\<close>

text \<open>A run of the task asleep on a doorbell, the payload of an event, and a task of which no run is asleep.\<close>

definition sleeps_in :: "string \<Rightarrow> uuid \<Rightarrow> string \<Rightarrow> uuid \<Rightarrow> 'w world_scheme \<Rightarrow> bool" where
  "sleeps_in n ti bell i s \<longleftrightarrow> (\<exists>q. map_of (w_queues s) n = Some q \<and> asleep_on bell ti i q)"

definition payload_in :: "string \<Rightarrow> string \<Rightarrow> 'w world_scheme \<Rightarrow> json option" where
  "payload_in n ev s = Option.bind (map_of (w_queues s) n) (event_payload ev)"

definition awake :: "string \<Rightarrow> uuid \<Rightarrow> 'w world_scheme \<Rightarrow> bool" where
  "awake n ti s \<longleftrightarrow> (\<forall>bell i. \<not> sleeps_in n ti bell i s)"

text \<open>The execution \<open>x\<close> of a queue is the task \<open>ti\<close>.\<close>

definition executes :: "string \<Rightarrow> string \<Rightarrow> uuid \<Rightarrow> 'w world_scheme \<Rightarrow> bool" where
  "executes n x ti s \<longleftrightarrow> (\<exists>q. map_of (w_queues s) n = Some q \<and> queue_inv q \<and> key_task x q = Some ti)"

lemma executes_later:
  assumes "executes n x ti s" "db_others s s'"
  shows "executes n x ti s'"
proof -
  obtain q where q: "map_of (w_queues s) n = Some q" "queue_inv q" "key_task x q = Some ti" using assms(1) by (auto simp: executes_def)
  obtain q' where q': "map_of (w_queues s') n = Some q'" "queue_step\<^sup>*\<^sup>* q q'" using db_othersD [OF assms(2) q(1)] by blast
  then show ?thesis
    using queue_steps_kept [OF q'(2) q(2)] key_task_evolves [OF _ q(3)] queue_steps_evolve [OF q'(2) q(2)]
    by (auto simp: executes_def)
qed

lemma payload_later:
  assumes "executes n x ti s" "db_others s s'" "payload_in n ev s = Some p"
  shows "payload_in n ev s' = Some p"
proof -
  obtain q where q: "map_of (w_queues s) n = Some q" "queue_inv q" using assms(1) by (auto simp: executes_def)
  obtain q' where q': "map_of (w_queues s') n = Some q'" "queue_step\<^sup>*\<^sup>* q q'" using db_othersD [OF assms(2) q(1)] by blast
  then show ?thesis using queue_steps_kept [OF q'(2) q(2)] q(1) assms(3) by (simp add: payload_in_def events_kept_def)
qed

text \<open>An emit: the first payload stays, and nobody falls asleep.\<close>

lemma emit_in:
  assumes "store_emitEvent n ev v s = (Inr (), s')" "executes n x ti s"
  shows "payload_in n ev s' = Some (case payload_in n ev s of None \<Rightarrow> v | Some old \<Rightarrow> old)"
    "sleeps_in n ti' bell i s' \<Longrightarrow> sleeps_in n ti' bell i s" "db_others s s'"
proof -
  obtain q where q: "map_of (w_queues s) n = Some q" "queue_inv q" using assms(2) by (auto simp: executes_def)
  obtain q' where q': "emit_event (w_db_now s) ev (Some v) q = Inr q'" "s' = set_queue n q' s"
    using assms(1) q(1) by (auto simp: store_emitEvent_def sql_void_eq split: sum.splits)
  show "db_others s s'" unfolding q'(2) by (rule db_others_set [OF q(1) queue_step.emit [OF q'(1)]])
  show "sleeps_in n ti' bell i s' \<Longrightarrow> sleeps_in n ti' bell i s"
    using emit_asleep [OF q'(1) _ q(2)] by (auto simp: sleeps_in_def q(1) q'(2))
  have "event_payload ev q' = Some (case event_payload ev q of None \<Rightarrow> v | Some old \<Rightarrow> old)"
    using q'(1)
  proof (cases rule: emit_event_cases)
    case again
    then show ?thesis by auto
  next
    case (first q1)
    have "event_payload ev q' = event_payload ev q1" by (rule payload_same) (simp add: first(2) wake_waiters_fields)
    then show ?thesis using record_event_payload [OF first(1)] by simp
  qed
  then show "payload_in n ev s' = Some (case payload_in n ev s of None \<Rightarrow> v | Some old \<Rightarrow> old)"
    by (simp add: payload_in_def q(1) q'(2))
qed

text \<open>The two reads of a ring.\<close>

lemma newest_read:
  assumes "store_taskByExecutionId n x s = (Inr task, s')" "executes n x ti s" "sleeps_in n ti bell i s"
  shows "Option.bind task xt_last_attempt_run = Some i"
proof -
  obtain q where q: "map_of (w_queues s) n = Some q" "queue_inv q" "key_task x q = Some ti" using assms(2) by (auto simp: executes_def)
  obtain t where "task_by_key x q = Some t" "t_last_attempt_run t = Some i"
    using sleeper_newest [OF q(2) _ q(3)] assms(3) q(1) by (auto simp: sleeps_in_def)
  then show ?thesis using taskByExecutionId_at [OF assms(1) q(1)] by (simp add: execution_row_def)
qed

lemma wake_event_read:
  assumes "store_currentWakeEvent n i s = (Inr ev, s')" "sleeps_in n ti bell i s"
  shows "ev = Some bell"
proof -
  obtain q where "map_of (w_queues s) n = Some q" "asleep_on bell ti i q" using assms(2) by (auto simp: sleeps_in_def)
  then show ?thesis using currentWakeEvent_at [OF assms(1)] by (auto simp: asleep_on_def)
qed

lemma wake_event_reads: "store_currentWakeEvent n i s = (r, s') \<Longrightarrow> s' = s"
proof -
  have "snd (store_currentWakeEvent n i s) = s" by (simp add: store_currentWakeEvent_def)
  then show "store_currentWakeEvent n i s = (r, s') \<Longrightarrow> s' = s" by simp
qed

lemma star_others:
  assumes "\<forall>s s'. env s s' \<longrightarrow> db_others s s'" "env\<^sup>*\<^sup>* s s'"
  shows "db_others s s'"
  by (rule db_others_star [OF assms(2)]) (use assms(1) in blast)

text \<open>
  A ring, while others move: it looks twice, and the doorbell on which a run sleeps when it looks has been rung in the
  end.
\<close>

lemma ring_task_rings:
  assumes "ends env (ring_task n x) s (Inr ()) s'" "\<forall>s s'. env s s' \<longrightarrow> db_others s s'" "executes n x ti s"
  shows "db_others s s' \<and> (\<exists>u1 u2. env\<^sup>*\<^sup>* s u1 \<and> env\<^sup>*\<^sup>* u1 u2 \<and>
    (\<forall>bell i. sleeps_in n ti bell i u1 \<longrightarrow> sleeps_in n ti bell i u2 \<longrightarrow> payload_in n bell s' \<noteq> None))"
proof -
  note star = star_others [OF assms(2)]
  have moves: "db_others s s'" by (rule lawful_ends [OF assms(1) lawful_rings(2) [of "\<lambda>_. True"]]) (use assms(2) in auto)
  from assms(1) obtain task w1 where 1: "ends env (orDie (store_taskByExecutionId n x)) s (Inr task) w1"
    "ends env (case Option.bind task xt_last_attempt_run of None \<Rightarrow> give () | Some i \<Rightarrow> ringCurrentDoorbell n i) w1 (Inr ()) s'"
    unfolding ring_task_def by (rule ends_bind_InrE)
  from 1(1) obtain u1 where u1: "env\<^sup>*\<^sup>* s u1" "store_taskByExecutionId n x u1 = (Inr task, u1)" "env\<^sup>*\<^sup>* u1 w1"
    by (auto) (metis taskByExecutionId_reads)
  have x1: "executes n x ti u1" using executes_later [OF assms(3) star [OF u1(1)]] .
  note newest = newest_read [OF u1(2) x1]
  show ?thesis
  proof (cases "Option.bind task xt_last_attempt_run")
    case None
    then show ?thesis using newest u1(1) moves by (intro conjI exI [of _ u1]) auto
  next
    case (Some i)
    with 1(2) have "ends env (ringCurrentDoorbell n i) w1 (Inr ()) s'" by simp
    then obtain ev w2 where 2: "ends env (orDie (store_currentWakeEvent n i)) w1 (Inr ev) w2"
      "ends env (case ev of None \<Rightarrow> give () | Some b \<Rightarrow> orDie (store_emitEvent n b JNull)) w2 (Inr ()) s'"
      unfolding ringCurrentDoorbell_def by (rule ends_bind_InrE)
    from 2(1) obtain u2 where u2: "env\<^sup>*\<^sup>* w1 u2" "store_currentWakeEvent n i u2 = (Inr ev, u2)" "env\<^sup>*\<^sup>* u2 w2"
      by (auto) (metis wake_event_reads)
    have e12: "env\<^sup>*\<^sup>* u1 u2" using u1(3) u2(1) by simp
    have x2: "executes n x ti w2" using executes_later [OF x1] star [OF e12] star [OF u2(3)] db_others_trans by blast
    have "payload_in n bell s' \<noteq> None" if "sleeps_in n ti bell j u1" "sleeps_in n ti bell j u2" for bell j
    proof -
      have "ev = Some bell" using newest [OF that(1)] Some wake_event_read [OF u2(2)] that(2) by simp
      with 2(2) obtain y z where y: "env\<^sup>*\<^sup>* w2 y" "store_emitEvent n bell JNull y = (Inr (), z)" "env\<^sup>*\<^sup>* z s'" by auto
      have xy: "executes n x ti y" using executes_later [OF x2 star [OF y(1)]] .
      note z = emit_in [OF y(2) xy]
      show ?thesis using payload_later [OF executes_later [OF xy z(3)] star [OF y(3)] z(1)] by simp
    qed
    with u1(1) e12 moves show ?thesis by blast
  qed
qed

text \<open>A ring in one step, within a transaction: no run of the task sleeps after it.\<close>

lemma alone_star: "(\<lambda>_ _. False)\<^sup>*\<^sup>* x y \<longleftrightarrow> y = x"
  by (auto elim: rtranclp.cases)

lemma ring_task_awakes:
  assumes "run_proc (ring_task n x) s = (Inr (), s')" "executes n x ti s"
  shows "awake n ti s'" "db_others s s'"
proof -
  from assms(1) have e: "ends (\<lambda>_ _. False) (ring_task n x) s (Inr ()) s'" by (simp add: ends_alone)
  from ring_task_rings [OF e _ assms(2)] have rung: "sleeps_in n ti bell i s \<Longrightarrow> payload_in n bell s' \<noteq> None" and moves: "db_others s s'" for bell i
    unfolding alone_star by auto
  show "db_others s s'" by (rule moves)
  have before: "sleeps_in n ti bell i s' \<Longrightarrow> sleeps_in n ti bell i s" for bell i
    using assms(1) emit_in(2) [OF _ assms(2)]
    by (auto simp: ring_task_def ringCurrentDoorbell_def run_bind run_orDie split: prod.splits sum.splits option.splits
        dest!: taskByExecutionId_reads wake_event_reads)
  show "awake n ti s'"
    unfolding awake_def
  proof (intro allI notI)
    fix bell i assume a: "sleeps_in n ti bell i s'"
    from rung [OF before [OF a]] a show False by (auto simp: sleeps_in_def payload_in_def asleep_on_def)
  qed
qed

section \<open>Deferreds\<close>


lemma demo_queue_at:
  assumes "world_inv s" "own_claim demo_own s"
  shows "queue_at demo_own s (demo_queue s)"
proof -
  obtain q where "map_of (w_queues s) (ac_queue demo_own) = Some q" "owned_by (ac_taskId demo_own) (ac_runId demo_own) q"
    using assms(2) by (auto simp: holds_run_def)
  moreover from this have "queue_inv q" using assms(1) reachable_inv by (auto simp: world_inv_def)
  ultimately show ?thesis by (simp add: queue_at_def demo_queue_def demo_own_fields)
qed

lemma demo_asleep_at: "queue_at demo_own demo_asleep (demo_queue demo_asleep)" "asleep_at (1, 2) demo_own demo_asleep"
proof -
  show at: "queue_at demo_own demo_asleep (demo_queue demo_asleep)" by (rule demo_queue_at [OF demo_asleep_kept])
  have "event_payload (bell_of (1, 2) demo_own) (demo_queue demo_asleep) = None" by code_simp
  moreover have "map_option (\<lambda>r. (r_task r, r_state r, r_wake_event r)) (find_run 1 (demo_queue demo_asleep))
    = Some (0, Sleeping, Some (bell_of (1, 2) demo_own))" by code_simp
  ultimately have "asleep_on (bell_of (1, 2) demo_own) 0 1 (demo_queue demo_asleep)" by (auto simp: asleep_on_def)
  with at show "asleep_at (1, 2) demo_own demo_asleep" unfolding asleep_at_def demo_own_fields by blast
qed

lemma demo_executes:
  assumes "world_inv s" "own_claim demo_own s" "key_task x (demo_queue s) = Some ti"
  shows "executes ''default'' x ti s"
  using demo_queue_at [OF assms(1,2)] assms(3) by (auto simp: executes_def queue_at_def demo_own_fields)


end
