(* ===== verification/Settle_Spec.thy ===== *)
theory Settle_Spec
  imports Wake_Spec Interrupt_Spec
begin

text \<open>
  How executions end: the commit of a result, which the status of the execution gives from then on and which wakes the
  parent, and the request of an interruption.
\<close>

section \<open>Queues of an engine\<close>

lemma configs_valid:
  assumes "queue_configs queues = Inr configs" "c \<in> set configs"
  shows "\<exists>t. quoteQueueTable t_prefix (qc_name c) = Inr t"
  using assms unfolding queue_configs_def
proof (induction queues arbitrary: configs)
  case (Cons x xs)
  from Cons.prems(1) obtain c0 cs where c: "queue_config x = Inr c0" "decode_all queue_config xs = Inr cs" "configs = c0 # cs"
    by (auto simp: bind_result_Inr)
  have "\<exists>t. quoteQueueTable t_prefix (qc_name c0) = Inr t"
    using c(1) by (auto simp: queue_config_def wf_validateQueueName_def quoteQueueTable_def bind_result_Inr split: prod.splits if_splits)
  then show ?case using Cons.IH [OF c(2)] Cons.prems(2) c(3) by auto
qed simp

lemma queueFor_valid:
  assumes "queueFor configs w = Inr n" "queue_configs queues = Inr configs"
  shows "\<exists>t. quoteQueueTable t_prefix n = Inr t"
  using assms(1) configs_valid [OF assms(2)] by (auto simp: queueFor_def split: option.splits if_splits)

section \<open>Completion\<close>

text \<open>A task that is completed with a payload, which is final.\<close>

definition completed_with :: "string \<Rightarrow> uuid \<Rightarrow> json \<Rightarrow> 'w world_scheme \<Rightarrow> bool" where
  "completed_with n ti v s \<longleftrightarrow> (\<exists>q t. map_of (w_queues s) n = Some q \<and> queue_inv q \<and> find_task ti q = Some t \<and>
     t_state t = Completed \<and> t_completed_payload t = Some v)"

lemma completed_at:
  assumes "store_completeRun n i v s = (Inr (), s')" "world_inv s" "holds_run n ti i s"
  shows "completed_with n ti v s'"
proof -
  obtain q r where q: "map_of (w_queues s) n = Some q" "find_run i q = Some r" "r_task r = ti"
    using assms(3) by (auto simp: holds_run_def owned_by_def)
  obtain q' where q': "complete_run (w_db_now s) i (Some v) q = Inr q'" "s' = set_queue n q' s"
    using assms(1) q(1) by (auto simp: store_completeRun_def sql_void_eq split: sum.splits)
  have inv: "queue_inv q" using assms(2) q(1) reachable_inv by (auto simp: world_inv_def)
  obtain t where t: "find_task ti q = Some t" "t_id t = ti" using find_run_same_task [OF inv q(2)] q(3) by blast
  have "r_state r = Running" using q'(1) q(2) by (auto simp: complete_run_def split: if_splits)
  then have "find_task ti q' = Some (t\<lparr>t_state := Completed, t_completed_payload := Some v, t_last_attempt_run := Some i\<rparr>)"
  proof -
    have "find_task ti (delete_waits P x) = find_task ti x" "find_task ti (update_runs P' f x) = find_task ti x" for P P' f x
      by (simp_all add: find_task_def store_updates)
    then show ?thesis using q'(1) q(2,3) t \<open>r_state r = Running\<close> by (auto simp: complete_run_def find_task_update_tasks)
  qed
  moreover have "queue_inv q'" by (rule complete_run_inv [OF inv q'(1)])
  ultimately show ?thesis using q'(2) by (auto simp: completed_with_def)
qed

lemma not_completed_at:
  assumes "store_completeRun n i v s = (Inr (), s')" "world_inv s" "holds_run n ti i s"
  shows "\<not> completed_with n ti v' s"
proof
  assume "completed_with n ti v' s"
  then obtain q t where q: "map_of (w_queues s) n = Some q" "queue_inv q" "find_task ti q = Some t" "t_state t = Completed"
    by (auto simp: completed_with_def)
  obtain r where r: "find_run i q = Some r" "r_task r = ti" using assms(3) q(1) by (auto simp: holds_run_def owned_by_def)
  have "r_state r = Running"
    using assms(1) q(1) r(1) by (auto simp: store_completeRun_def sql_void_eq complete_run_def split: sum.splits if_splits)
  then have "t_state t = r_state r"
    using active_task(1) [OF q(2), of r t] find_runD [OF r(1)] find_taskD [OF q(3)] r(2) by (simp add: active_def)
  then show False using q(4) \<open>r_state r = Running\<close> by simp
qed

lemma completed_later:
  assumes "completed_with n ti v s" "db_others s s'"
  shows "completed_with n ti v s'"
proof -
  obtain q t where q: "map_of (w_queues s) n = Some q" "queue_inv q" "find_task ti q = Some t" "t_state t = Completed"
    "t_completed_payload t = Some v" using assms(1) by (auto simp: completed_with_def)
  obtain q' where q': "map_of (w_queues s') n = Some q'" "queue_step\<^sup>*\<^sup>* q q'" using db_othersD [OF assms(2) q(1)] by blast
  have "find_task ti q' = Some t"
    using evolves_find_task [OF _ q(3)] queue_steps_evolve [OF q'(2) q(2)] q(4) by (auto simp: task_change_def)
  then show ?thesis using q q' queue_steps_kept [OF q'(2) q(2)] by (auto simp: completed_with_def)
qed

lemma commit_parts:
  assumes "ends env (commit_result claim registration row outcome) s (Inr ()) s'"
  obtains stored parent x u y where "wf_encodeResult (wr_workflow registration) outcome = Inr stored"
    "decodeParentExecution (cr_headers row) = Inr parent" "env\<^sup>*\<^sup>* s x"
    "store_completeRun (ac_queue claim) (ac_runId claim) stored x = (Inr (), u)"
    "run_proc (case parent of None \<Rightarrow> give () | Some p \<Rightarrow> ringExecutionDoorbell p) u = (Inr (), y)" "env\<^sup>*\<^sup>* y s'"
proof -
  let ?w = "wr_workflow registration"
  let ?body = "\<lambda>stored parent. bind_proc (orDie (store_completeRun (ac_queue claim) (ac_runId claim) stored)) (\<lambda>_.
    case parent of None \<Rightarrow> give () | Some p \<Rightarrow> ringExecutionDoorbell p) :: (claim_state, unit) wf"
  from assms obtain stored s1 where 1: "ends env (or_throw (wf_encodeResult ?w outcome)) s (Inr stored) s1"
    "ends env (bind_proc (or_throw (decodeParentExecution (cr_headers row))) (\<lambda>parent. transaction (?body stored parent))) s1 (Inr ()) s'"
    unfolding commit_result_def by (rule ends_bind_InrE)
  from 1(2) obtain parent s2 where 2: "ends env (or_throw (decodeParentExecution (cr_headers row))) s1 (Inr parent) s2"
    "ends env (transaction (?body stored parent)) s2 (Inr ()) s'"
    by (rule ends_bind_InrE)
  have stored: "wf_encodeResult ?w outcome = Inr stored" "env\<^sup>*\<^sup>* s s1"
    using 1(1) by (cases "wf_encodeResult ?w outcome"; simp)+
  have parent: "decodeParentExecution (cr_headers row) = Inr parent" "env\<^sup>*\<^sup>* s1 s2"
    using 2(1) by (cases "decodeParentExecution (cr_headers row)"; simp)+
  from 2(2) obtain x y where x: "env\<^sup>*\<^sup>* s2 x" "env\<^sup>*\<^sup>* y s'" "run_proc (?body stored parent) x = (Inr (), y)"
    unfolding ends_transaction by blast
  from x(3) obtain u where u: "store_completeRun (ac_queue claim) (ac_runId claim) stored x = (Inr (), u)"
    "run_proc (case parent of None \<Rightarrow> give () | Some p \<Rightarrow> ringExecutionDoorbell p) u = (Inr (), y)"
    by (auto simp: run_bind run_orDie split: prod.splits sum.splits)
  have "env\<^sup>*\<^sup>* s x" using stored(2) parent(2) x(1) by (meson rtranclp_trans)
  with that stored(1) parent(1) u x(2) show ?thesis by blast
qed

lemma lawful_parent_ring: "lawful P (case parent of None \<Rightarrow> give () | Some p \<Rightarrow> ringExecutionDoorbell p)"
  by (auto simp: ringExecutionDoorbell_def intro!: lawfulI split: option.splits)

lemma commit_completes:
  assumes "ends env (commit_result claim registration row outcome) s (Inr ()) s'"
    and "\<forall>s s'. env s s' \<longrightarrow> db_others s s'" "world_inv s" "own_claim claim s"
  shows "\<exists>v. wf_encodeResult (wr_workflow registration) outcome = Inr v \<and> completed_with (ac_queue claim) (ac_taskId claim) v s' \<and>
    db_others s s'"
  using assms(1)
proof (rule commit_parts)
  fix stored parent x u y
  assume 1: "wf_encodeResult (wr_workflow registration) outcome = Inr stored" "env\<^sup>*\<^sup>* s x" "env\<^sup>*\<^sup>* y s'"
    "store_completeRun (ac_queue claim) (ac_runId claim) stored x = (Inr (), u)"
    "run_proc (case parent of None \<Rightarrow> give () | Some p \<Rightarrow> ringExecutionDoorbell p) u = (Inr (), y)"
  have x: "db_others s x" "db_others y s'" using star_others [OF assms(2)] 1(2,3) by blast+
  then have "world_inv x" "own_claim claim x" using world_inv_others assms(3) holds_run_later [OF assms(4)] by blast+
  with completed_at [OF 1(4)] have u: "completed_with (ac_queue claim) (ac_taskId claim) stored u" by blast
  have "db_others u y"
    using run_lawful [OF lawful_parent_ring [of "\<lambda>_. True" parent], of u] 1(5) by simp
  moreover have "db_others x u"
    using run_lawful [OF lawful_complete [of "\<lambda>_. True" "ac_queue claim" "ac_runId claim" stored], of x] 1(4) by (simp add: run_orDie)
  ultimately show ?thesis using completed_later [OF completed_later [OF u] x(2)] 1(1) x db_others_trans by blast
qed

lemma key_task_kept:
  assumes "map_of (w_queues s) n = Some q" "key_task k q = Some ti" "db_others s s'" "world_inv s"
    "map_of (w_queues s') n = Some q'"
  shows "key_task k q' = Some ti"
proof -
  have "queue_inv q" using assms(1,4) reachable_inv by (auto simp: world_inv_def)
  then show ?thesis
    using db_othersD [OF assms(3,1)] assms(5) key_task_evolves [OF _ assms(2)] queue_steps_evolve by force
qed

text \<open>The reads of a completed execution.\<close>

lemma completed_snapshot:
  assumes "completed_with n ti v s" "map_of (w_queues s) n = Some q" "key_task x q = Some ti" "quoteQueueTable t_prefix n = Inr name"
  shows "run_proc (find_snapshot n x) s = (Inr (Some \<lparr>tr_state = Completed, tr_result = Some v, tr_failure_reason = None\<rparr>), s)"
proof -
  obtain t where t: "find_task ti q = Some t" "t_state t = Completed" "t_completed_payload t = Some v"
    using assms(1,2) by (auto simp: completed_with_def)
  obtain t' where "task_by_key x q = Some t'" "t_id t' = ti" using assms(3) by (auto simp: key_task_by_key)
  moreover have "quoteQueueTable ''t_'' n \<noteq> Inl (throw_error ''Invalid Absurd queue name.'')" "\<exists>y. quoteQueueTable ''t_'' n = Inr y"
    using assms(4) by (auto simp: quoteQueueTable_def split: if_splits)
  ultimately show ?thesis
    using t assms(2)
    by (auto simp: find_snapshot_def run_bind run_orDie store_taskByExecutionId_def store_taskResult_def bind_ts_def check_def
        ret_def sql_rows_eq execution_row_def get_task_result_def)
qed

text \<open>
  Property C8: a committed result is the result of the execution, for good. Once the commit of an exit has returned,
  every later look at the execution, by its status or by a poll, gives exactly that exit, whatever was done to the
  queues in between, as long as the workflow's codec reads what it wrote.
\<close>

theorem execution_result_roundtrip:
  assumes "ends env (commit_result claim registration row (Complete e)) s (Inr ()) s1"
    and "\<forall>s s'. env s s' \<longrightarrow> db_others s s'" "world_inv s" "own_claim claim s"
    and "map_of (w_queues s) (ac_queue claim) = Some q" "key_task (ac_executionId claim) q = Some (ac_taskId claim)"
    and "db_others s1 s2"
    and "queue_configs queues = Inr configs" "queueFor configs (wr_workflow registration) = Inr (ac_queue claim)"
    and "\<forall>j. wf_encodeResult (wr_workflow registration) (Complete e) = Inr j \<longrightarrow>
      wf_decodeResult (wr_workflow registration) j = Inr (Complete e)"
  shows "run_proc (getExecutionStatus configs (wr_workflow registration) (ac_executionId claim)) s2 = (Inr (Ex_Completed e), s2) \<and>
    run_proc (engine_poll configs (wr_workflow registration) (ac_executionId claim)) s2 = (Inr (Some (Complete e)), s2)"
proof -
  from commit_completes [OF assms(1-4)] obtain v where v: "wf_encodeResult (wr_workflow registration) (Complete e) = Inr v"
    "completed_with (ac_queue claim) (ac_taskId claim) v s1" "db_others s s1" by blast
  have c: "completed_with (ac_queue claim) (ac_taskId claim) v s2" by (rule completed_later [OF v(2) assms(7)])
  then obtain q2 where q2: "map_of (w_queues s2) (ac_queue claim) = Some q2" by (auto simp: completed_with_def)
  have "db_others s s2" using v(3) assms(7) db_others_trans by blast
  then have "key_task (ac_executionId claim) q2 = Some (ac_taskId claim)"
    using key_task_kept [OF assms(5,6)] assms(3) q2 by blast
  then have "run_proc (find_snapshot (ac_queue claim) (ac_executionId claim)) s2 =
      (Inr (Some \<lparr>tr_state = Completed, tr_result = Some v, tr_failure_reason = None\<rparr>), s2)"
    using completed_snapshot [OF c q2] queueFor_valid [OF assms(9,8)] by blast
  then show ?thesis
    using assms(9,10) v(1) by (simp add: getExecutionStatus_def engine_poll_def resultFromSnapshot_def run_bind or_null_def)
qed

text \<open>The demonstration's execution, whose deferred is done, is committed.\<close>

lemma demo_answered_kept: "world_inv demo_answered" "own_claim demo_own demo_answered"
proof -
  let ?p = "deferredDone demo_codec (demo_engine False) ''flow'' ''x'' ''d'' (Inr (Some (JNum 7)))"
  have "run_proc ?p demo_started = (fst (run_proc ?p demo_started), demo_answered)" by (simp add: demo_answered_def)
  from demo_kept [OF lawful_deferredDone this demo_started_kept]
  show "world_inv demo_answered" "own_claim demo_own demo_answered" .
qed

lemma demo_queues_configured:
  "queue_configs [(''default'', \<lparr>qo_concurrency = None, qo_pollInterval = None, qo_claimTimeout = None,
     qo_childStatusPollInterval = None\<rparr>)] = Inr [demo_config]"
  by code_simp

theorem execution_result_roundtrip_witness:
  "\<exists>s1. run_proc (commit_result demo_own (demo_registration False) (fst demo_taken) (Complete (Inr (Some (JNum 7))))) demo_answered
       = (Inr (), s1) \<and>
     run_proc (getExecutionStatus [demo_config] (demo_flow False) ''x'') s1 = (Inr (Ex_Completed (Inr (Some (JNum 7)))), s1)"
proof -
  let ?e = "Inr (Some (JNum 7)) :: exit_value"
  let ?m = "run_proc (commit_result demo_own (demo_registration False) (fst demo_taken) (Complete ?e)) demo_answered"
  have "fst ?m = Inr ()" by code_simp
  then have m: "?m = (Inr (), snd ?m)" by (metis prod.collapse)
  have alone: "\<forall>s s'. (\<lambda>_ _. False) s s' \<longrightarrow> db_others s s'" by simp
  have "map_of (w_queues demo_answered) ''default'' = Some (demo_queue demo_answered)"
    using demo_answered_kept(2) by (auto simp: holds_run_def demo_queue_def demo_own_fields)
  moreover have "key_task ''x'' (demo_queue demo_answered) = Some 0" by code_simp
  moreover have "queueFor [demo_config] (wr_workflow (demo_registration False)) = Inr ''default''" by code_simp
  moreover have "\<forall>j. wf_encodeResult (wr_workflow (demo_registration False)) (Complete ?e) = Inr j \<longrightarrow>
      wf_decodeResult (wr_workflow (demo_registration False)) j = Inr (Complete ?e)"
    by (auto simp: demo_registration_def demo_flow_def demo_encode_exit_def or_null_def)
  ultimately have "run_proc (getExecutionStatus [demo_config] (wr_workflow (demo_registration False)) ''x'') (snd ?m)
      = (Inr (Ex_Completed ?e), snd ?m)"
    using execution_result_roundtrip [OF run_proc_ends [OF m] alone demo_answered_kept _ _ db_others_refl demo_queues_configured]
    unfolding demo_own_fields by blast
  then show ?thesis using m by (auto simp: demo_registration_def)
qed

section \<open>The parent of an execution\<close>

text \<open>Where the commit may be stopped: it has written nothing, or its transaction has been executed.\<close>

lemma commit_ahead:
  assumes "ahead env (commit_result claim registration row outcome) s rest x"
  shows "env\<^sup>*\<^sup>* s x \<and> (\<forall>a. rest \<noteq> Exit (Inr a)) \<or> (\<exists>stored parent y u z. rest = Exit (Inr ()) \<and> env\<^sup>*\<^sup>* s y \<and> env\<^sup>*\<^sup>* z x \<and>
    wf_encodeResult (wr_workflow registration) outcome = Inr stored \<and> decodeParentExecution (cr_headers row) = Inr parent \<and>
    store_completeRun (ac_queue claim) (ac_runId claim) stored y = (Inr (), u) \<and>
    run_proc (case parent of None \<Rightarrow> give () | Some p \<Rightarrow> ringExecutionDoorbell p) u = (Inr (), z))"
proof -
  let ?w = "wr_workflow registration"
  have died: "env\<^sup>*\<^sup>* s x \<and> (\<forall>a. rest \<noteq> Exit (Inr a))" if "ahead env (die e) s rest x" for e
    using that by (auto simp: die_def fail_def elim: ahead.cases)
  show ?thesis
  proof (cases "wf_encodeResult ?w outcome")
    case (Inl e)
    then show ?thesis using assms died by (simp add: commit_result_def die_def bind_fail)
  next
    case stored: (Inr stored)
    show ?thesis
    proof (cases "decodeParentExecution (cr_headers row)")
      case (Inl e)
      then show ?thesis using assms died stored by (simp add: commit_result_def die_def bind_fail bind_give)
    next
      case (Inr parent)
      let ?body = "bind_proc (orDie (store_completeRun (ac_queue claim) (ac_runId claim) stored)) (\<lambda>_.
        case parent of None \<Rightarrow> give () | Some p \<Rightarrow> ringExecutionDoorbell p) :: (claim_state, unit) wf"
      have "ahead env (transaction ?body) s rest x" using assms stored Inr by (simp add: commit_result_def bind_give)
      from ahead_transaction [OF this] show ?thesis
      proof (elim disjE exE conjE)
        fix a :: unit and y z
        assume 1: "rest = Exit (Inr a)" "env\<^sup>*\<^sup>* s y" "run_proc ?body y = (Inr a, z)" "env\<^sup>*\<^sup>* z x"
        from 1(3) obtain u where "store_completeRun (ac_queue claim) (ac_runId claim) stored y = (Inr (), u)"
          "run_proc (case parent of None \<Rightarrow> give () | Some p \<Rightarrow> ringExecutionDoorbell p) u = (Inr (), z)"
          by (auto simp: run_bind run_orDie split: prod.splits sum.splits)
        moreover have "rest = Exit (Inr ())" using 1(1) by simp
        ultimately show ?thesis using 1(2,4) stored Inr by blast
      qed auto
    qed
  qed
qed

text \<open>
  Property C9: the end of a child and the wake-up of its parent are one step. Wherever the worker is stopped while it
  commits the result of a child, and whatever stored functions other processes call meanwhile, either nothing of the
  commit has happened, or it is complete: there was one step before which the child was not completed, and directly
  after which it is completed with its encoded result and no run of the parent sleeps on a doorbell that has not been
  rung. When the commit has returned, it is complete. The step is the transaction of the code, which is atomic in this
  model; what READ COMMITTED lets other transactions see or miss between its statements is not covered.
\<close>

theorem commit_wakes_parent:
  assumes "ahead env (commit_result claim registration row outcome) s rest x" "\<forall>s s'. env s s' \<longrightarrow> db_others s s'"
    and "world_inv s" "own_claim claim s"
    and "decodeParentExecution (cr_headers row) = Inr (Some parent)" "executes (xr_queue parent) (xr_executionId parent) ti s"
  shows "env\<^sup>*\<^sup>* s x \<and> rest \<noteq> Exit (Inr ()) \<or>
    (\<exists>v y z. rest = Exit (Inr ()) \<and> env\<^sup>*\<^sup>* s y \<and> env\<^sup>*\<^sup>* z x \<and> wf_encodeResult (wr_workflow registration) outcome = Inr v \<and>
       (\<forall>v'. \<not> completed_with (ac_queue claim) (ac_taskId claim) v' y) \<and>
       completed_with (ac_queue claim) (ac_taskId claim) v z \<and> awake (xr_queue parent) ti z)"
proof -
  note star = star_others [OF assms(2)]
  from commit_ahead [OF assms(1)] show ?thesis
  proof (elim disjE exE conjE)
    fix stored p y u z
    assume 1: "rest = Exit (Inr ())" "env\<^sup>*\<^sup>* s y" "env\<^sup>*\<^sup>* z x" "wf_encodeResult (wr_workflow registration) outcome = Inr stored"
      "decodeParentExecution (cr_headers row) = Inr p" "store_completeRun (ac_queue claim) (ac_runId claim) stored y = (Inr (), u)"
      "run_proc (case p of None \<Rightarrow> give () | Some p \<Rightarrow> ringExecutionDoorbell p) u = (Inr (), z)"
    have sy: "db_others s y" by (rule star [OF 1(2)])
    have y: "world_inv y" "own_claim claim y" using world_inv_others [OF assms(3) sy] holds_run_later [OF assms(4) sy] by blast+
    have "db_others y u"
      using run_lawful [OF lawful_complete [of "\<lambda>_. True" "ac_queue claim" "ac_runId claim" stored], of y] 1(6) by (simp add: run_orDie)
    then have "executes (xr_queue parent) (xr_executionId parent) ti u"
      using executes_later [OF executes_later [OF assms(6) sy]] by blast
    moreover have "run_proc (ring_task (xr_queue parent) (xr_executionId parent)) u = (Inr (), z)"
    proof -
      have "p = Some parent" using 1(5) assms(5) by simp
      with 1(7) show ?thesis by (simp add: ringExecutionDoorbell_def)
    qed
    ultimately have "awake (xr_queue parent) ti z" "db_others u z" using ring_task_awakes by blast+
    moreover note completed_at [OF 1(6) y] not_completed_at [OF 1(6) y]
    ultimately show ?thesis using 1(1-4) completed_later by blast
  qed auto
qed

text \<open>The demonstration: its execution \<open>x\<close> sleeps, and its child \<open>y\<close> has been claimed.\<close>

lemma lawful_claimTask: "lawful P (orDie (store_claimTask n worker timeout))"
  by (rule lawful_orDie) (metis store_claimTask_moves prod.collapse)

definition demo_bear :: "(claim_state, ClaimedRow option) wf" where
  "demo_bear =
     bind_proc (orDie (store_spawnTask ''default'' ''flow'' (JNum 2) (JObj [(''idempotency_key'', JStr ''y''),
       (''headers'', parentExecutionHeaders \<lparr>xr_queue = ''default'', xr_executionId = ''x''\<rparr>)]))) (\<lambda>_.
     orDie (store_claimTask ''default'' ''w'' 120))"

definition demo_family :: claim_state where
  "demo_family = snd (run_proc demo_bear demo_asleep)"

definition demo_child_row :: ClaimedRow where
  "demo_child_row = the (projr (fst (run_proc demo_bear demo_asleep)))"

definition demo_child_claim :: ActiveClaim where
  "demo_child_claim = active_claim demo_config demo_child_row (demo_registration False) ''y''"

lemma demo_child_fields:
  "ac_queue demo_child_claim = ''default''" "ac_taskId demo_child_claim = 2" "ac_runId demo_child_claim = 3"
  "ac_executionId demo_child_claim = ''y''"
  by code_simp+

lemma demo_family_kept: "world_inv demo_family" "own_claim demo_own demo_family"
proof -
  have "lawful (own_claim demo_own) demo_bear" unfolding demo_bear_def by (intro lawfulI lawful_claimTask)
  moreover have "run_proc demo_bear demo_asleep = (fst (run_proc demo_bear demo_asleep), demo_family)" by (simp add: demo_family_def)
  ultimately show "world_inv demo_family" "own_claim demo_own demo_family" using demo_kept demo_asleep_kept by blast+
qed

theorem commit_wakes_parent_witness:
  "\<exists>s'. run_proc (commit_result demo_child_claim (demo_registration False) demo_child_row (Complete (Inr (Some (JNum 9))))) demo_family
       = (Inr (), s') \<and>
     map_option r_state (find_run 1 (demo_queue demo_family)) = Some Sleeping \<and> awake ''default'' 0 s' \<and>
     (\<exists>v. completed_with ''default'' 2 v s')"
proof -
  let ?m = "run_proc (commit_result demo_child_claim (demo_registration False) demo_child_row (Complete (Inr (Some (JNum 9))))) demo_family"
  have "fst ?m = Inr ()" by code_simp
  then have m: "?m = (Inr (), snd ?m)" by (metis prod.collapse)
  have parent: "decodeParentExecution (cr_headers demo_child_row) =
      Inr (Some \<lparr>xr_queue = ''default'', xr_executionId = ''x''\<rparr>)" by code_simp
  have q: "map_of (w_queues demo_family) (ac_queue demo_child_claim) = Some (demo_queue demo_family)"
    using demo_queue_at [OF demo_family_kept] by (simp add: queue_at_def demo_own_fields demo_child_fields)
  have "map_option r_task (find_run 3 (demo_queue demo_family)) = Some 2" by code_simp
  then have own: "own_claim demo_child_claim demo_family" using q by (auto simp: holds_run_def owned_by_def demo_child_fields)
  have "key_task ''x'' (demo_queue demo_family) = Some 0" by code_simp
  from demo_executes [OF demo_family_kept this] have ex: "executes ''default'' ''x'' 0 demo_family" .
  have alone: "\<forall>s s'. (\<lambda>_ _. False) s s' \<longrightarrow> db_others s s'" by simp
  have "map_option r_state (find_run 1 (demo_queue demo_family)) = Some Sleeping" by code_simp
  with m commit_wakes_parent [OF ends_ahead [OF run_proc_ends [OF m]] alone demo_family_kept(1) own parent, of 0] ex
  show ?thesis by (auto simp: alone_star demo_child_fields)
qed

section \<open>Interruption\<close>

lemma marker_written:
  assumes "set_task_checkpoint_state now ti n (Some v) i None q = Inr q'" "reachable mode q"
  shows "get_task_checkpoint_state ti n q' \<noteq> None" "runs q' = runs q" "events q' = events q"
    "tasks q' = tasks q" "idempotency q' = idempotency q" "q_mode q' = q_mode q"
proof -
  obtain r where r: "find_run i q = Some r" using set_checkpoint_run [OF assms(1)] by blast
  show "get_task_checkpoint_state ti n q' \<noteq> None"
  proof (cases "find_checkpoint ti n q")
    case None
    then show ?thesis using set_checkpoint_effect [OF assms(1) r] by auto
  next
    case (Some c)
    then have "c \<in> set (checkpoints q)" by (auto simp: find_checkpoint_def dest: tbl_find_SomeD)
    then have "committed_row c" using all_committed [OF assms(2)] by (auto simp: list_all_iff)
    then have "get_task_checkpoint_state ti n q \<noteq> None" using Some by (simp add: get_task_checkpoint_state_def committed_row_def)
    then show ?thesis using set_checkpoint_effect [OF assms(1) r] by (auto split: option.splits if_splits)
  qed
  show "runs q' = runs q" "events q' = events q" "tasks q' = tasks q" "idempotency q' = idempotency q" "q_mode q' = q_mode q"
    using assms(1) by (auto simp: set_task_checkpoint_state_def upsert_checkpoint_def Let_def split: if_splits option.splits)
qed

lemma sleeper_open:
  assumes "queue_inv q" "asleep_on bell ti i q" "find_task ti q = Some t"
  shows "\<not> isTerminalTaskState (t_state t)"
proof -
  obtain r where r: "r \<in> set (runs q)" "r_task r = ti" "r_state r = Sleeping"
    using assms(2) by (auto simp: asleep_on_def dest: find_runD)
  have "t \<in> set (tasks q)" "t_id t = ti" using assms(3) by (auto simp: find_task_def dest: tbl_find_SomeD)
  then have "t_state t = Sleeping"
    using core_inv_active_state [OF queue_inv_coreD [OF assms(1)] _ r(1)] r(2,3) by (simp add: active_def)
  then show ?thesis by (simp add: isTerminalTaskState_def)
qed

lemma ring_current_awakes:
  assumes "run_proc (ringCurrentDoorbell n i) s = (Inr (), s')" "executes n x ti s" "\<forall>bell j. sleeps_in n ti bell j s \<longrightarrow> j = i"
  shows "awake n ti s'"
  unfolding awake_def
proof (intro allI notI)
  fix bell j assume a: "sleeps_in n ti bell j s'"
  from assms(1) obtain ev where ev: "store_currentWakeEvent n i s = (Inr ev, s)"
    "run_proc (case ev of None \<Rightarrow> give () | Some b \<Rightarrow> orDie (store_emitEvent n b JNull)) s = (Inr (), s')"
    by (auto simp: ringCurrentDoorbell_def run_bind run_orDie split: prod.splits sum.splits dest: wake_event_reads)
  show False
  proof (cases ev)
    case None
    then have "sleeps_in n ti bell j s" using ev(2) a by simp
    then show False using wake_event_read [OF ev(1), of ti bell] assms(3) None by auto
  next
    case (Some b)
    with ev(2) have e: "store_emitEvent n b JNull s = (Inr (), s')" by (auto simp: run_orDie split: prod.splits sum.splits)
    have "sleeps_in n ti bell j s" by (rule emit_in(2) [OF e assms(2) a])
    then have "b = bell" using wake_event_read [OF ev(1), of ti bell] assms(3) Some by auto
    then show False using emit_in(1) [OF e assms(2)] a by (auto simp: payload_in_def sleeps_in_def asleep_on_def)
  qed
qed

text \<open>A task that has ended.\<close>

definition task_over :: "string \<Rightarrow> uuid \<Rightarrow> 'w world_scheme \<Rightarrow> bool" where
  "task_over n ti s \<longleftrightarrow> (\<exists>q t. map_of (w_queues s) n = Some q \<and> find_task ti q = Some t \<and> isTerminalTaskState (t_state t))"

lemma over_awake: "task_over n ti s \<Longrightarrow> executes n x ti s \<Longrightarrow> awake n ti s"
  using sleeper_open by (fastforce simp: task_over_def executes_def awake_def sleeps_in_def)

text \<open>The two statements that follow the read of an execution that has not ended.\<close>

lemma mark_and_ring:
  assumes "store_setCheckpointState n ti interruptCheckpointName (JBool True) i None y = (Inr (), u)"
    and "run_proc (ringCurrentDoorbell n i) u = (Inr (), z)"
    and "world_inv y" "map_of (w_queues y) n = Some q" "task_by_key x q = Some t" "t_id t = ti" "t_last_attempt_run t = Some i"
  shows "awake n ti z \<and> (\<exists>q'. map_of (w_queues z) n = Some q' \<and> get_task_checkpoint_state ti interruptCheckpointName q' \<noteq> None)"
proof -
  obtain q1 where q1: "set_task_checkpoint_state (w_db_now y) ti interruptCheckpointName (Some (JBool True)) i None q = Inr q1"
    "u = set_queue n q1 y"
    using assms(1,4) by (auto simp: store_setCheckpointState_def sql_void_eq split: sum.splits)
  have reach: "reachable (q_mode q) q" using assms(3,4) by (auto simp: world_inv_def)
  note inv = reachable_inv [OF reach] and written = marker_written [OF q1(1) reach]
  have key: "key_task x q = Some ti" using assms(5,6) by (simp add: key_task_by_key)
  then have ex: "executes n x ti u"
    using set_task_checkpoint_state_inv [OF inv q1(1)]
    by (cases "q_mode q") (simp_all add: executes_def q1(2) key_task_def find_task_def written(4-6))
  have "j = i" if "sleeps_in n ti bell j u" for bell j
  proof -
    have "asleep_on bell ti j q"
      using that by (auto simp: sleeps_in_def q1(2) asleep_on_def find_run_def written event_payload_def find_event_def)
    from sleeper_newest [OF inv this key] show ?thesis using assms(5,7) by auto
  qed
  then have "awake n ti z" using ring_current_awakes [OF assms(2) ex] by blast
  moreover have "db_others u z" using run_lawful [OF lawful_rings(1) [of "\<lambda>_. True"], of u] assms(2) by (metis snd_conv)
  then obtain q' where "map_of (w_queues z) n = Some q'" "queue_step\<^sup>*\<^sup>* q1 q'" using db_othersD [of u z n q1] q1(2) by auto
  then have "\<exists>q'. map_of (w_queues z) n = Some q' \<and> get_task_checkpoint_state ti interruptCheckpointName q' \<noteq> None"
    using stored_later written(1) by blast
  ultimately show ?thesis by blast
qed

text \<open>The one transaction of an interruption: it does nothing to an execution that has ended, or marks it and rings.\<close>

definition interruption :: "string \<Rightarrow> string \<Rightarrow> ('w world_scheme, unit) wf" where
  "interruption queue executionId =
     bind_proc (orDie (store_taskByExecutionId queue executionId)) (\<lambda>task.
       case task of
         None \<Rightarrow> give ()
       | Some t \<Rightarrow>
           if isTerminalTaskState (xt_state t) then give ()
           else (case xt_last_attempt_run t of
                   None \<Rightarrow> die (Thrown (JStr ''Active Absurd task has no run.''))
                 | Some runId \<Rightarrow>
                     bind_proc (orDie (store_setCheckpointState queue (xt_task_id t) interruptCheckpointName
                       (JBool True) runId None)) (\<lambda>_.
                     ringCurrentDoorbell queue runId)))"

lemma interruption_parts:
  assumes "run_proc (interruption n x) y = (Inr (), z)" "world_inv y" "executes n x ti y"
  shows "awake n ti z \<and> (task_over n ti y \<and> z = y \<or>
    (\<exists>q'. map_of (w_queues z) n = Some q' \<and> get_task_checkpoint_state ti interruptCheckpointName q' \<noteq> None))"
proof -
  obtain q where q: "map_of (w_queues y) n = Some q" "queue_inv q" "key_task x q = Some ti" using assms(3) by (auto simp: executes_def)
  obtain t where t: "task_by_key x q = Some t" "t_id t = ti" using q(3) by (auto simp: key_task_by_key)
  have ft: "find_task ti q = Some t" using find_task_eq [OF q(2) task_by_key_in [OF t(1)]] t(2) by simp
  from assms(1) obtain task w where w: "store_taskByExecutionId n x y = (Inr task, w)"
    by (auto simp: interruption_def run_bind run_orDie split: prod.splits sum.splits)
  have task: "task = Some (execution_row t)" "w = y" using taskByExecutionId_at [OF w q(1)] taskByExecutionId_reads [OF w] t(1) by simp_all
  show ?thesis
  proof (cases "isTerminalTaskState (t_state t)")
    case True
    then have "z = y" using assms(1) w task by (simp add: interruption_def run_bind run_orDie execution_row_def)
    moreover have "task_over n ti y" using q(1) ft True by (auto simp: task_over_def)
    ultimately show ?thesis using over_awake assms(3) by blast
  next
    case False
    then obtain i where i: "t_last_attempt_run t = Some i"
      using assms(1) w task by (cases "t_last_attempt_run t") (auto simp: interruption_def run_bind run_orDie execution_row_def die_def)
    with assms(1) w task False obtain u where
      "store_setCheckpointState n ti interruptCheckpointName (JBool True) i None y = (Inr (), u)"
      "run_proc (ringCurrentDoorbell n i) u = (Inr (), z)"
      by (auto simp: interruption_def run_bind run_orDie execution_row_def t(2) split: prod.splits sum.splits)
    from mark_and_ring [OF this assms(2) q(1) t i] show ?thesis by blast
  qed
qed

text \<open>
  Property C11: an interruption marks its execution and wakes it in one step. Wherever \<open>interruptByExecutionId\<close> is
  stopped, and whatever stored functions other processes call meanwhile, either nothing of it has happened, or all: there
  was one step directly after which the execution had ended, in which case the step changed nothing, or has its marker,
  and in both cases no run of it sleeps on a doorbell that has not been rung; and the marker stays for whoever parks or
  commits the execution later. When it has returned, all of it has happened. The step is the transaction of the code,
  which is atomic in this model; under READ COMMITTED a park that lies between the transaction's read of the wake event
  and its commit can still miss the marker, which the model does not show.
\<close>

theorem interruption_marks_and_wakes:
  fixes s x :: "'w world_scheme"
  assumes "ahead env (interruptByExecutionId configs w (ac_executionId claim)) s rest x" "\<forall>s s'. env s s' \<longrightarrow> db_others s s'"
    and "world_inv s" "queueFor configs w = Inr (ac_queue claim)"
    and "executes (ac_queue claim) (ac_executionId claim) (ac_taskId claim) s"
  shows "env\<^sup>*\<^sup>* s x \<and> rest \<noteq> Exit (Inr ()) \<or>
    (\<exists>y z. rest = Exit (Inr ()) \<and> env\<^sup>*\<^sup>* s y \<and> env\<^sup>*\<^sup>* z x \<and> awake (ac_queue claim) (ac_taskId claim) z \<and>
       (task_over (ac_queue claim) (ac_taskId claim) y \<and> z = y \<or> marked claim z \<and> marked claim x))"
proof -
  note star = star_others [OF assms(2)]
  have "ahead env (transaction (interruption (ac_queue claim) (ac_executionId claim))) s rest x"
    using assms(1,4) by (simp add: interruptByExecutionId_def interruption_def bind_give)
  from ahead_transaction [OF this] show ?thesis
  proof (elim disjE exE conjE)
    fix a :: unit and y z
    assume 1: "rest = Exit (Inr a)" "env\<^sup>*\<^sup>* s y" "run_proc (interruption (ac_queue claim) (ac_executionId claim)) y = (Inr a, z)" "env\<^sup>*\<^sup>* z x"
    have "world_inv y" by (rule world_inv_others [OF assms(3) star [OF 1(2)]])
    from interruption_parts [OF _ this executes_later [OF assms(5) star [OF 1(2)]]] 1(3)
    have "awake (ac_queue claim) (ac_taskId claim) z \<and> (task_over (ac_queue claim) (ac_taskId claim) y \<and> z = y \<or> marked claim z)"
      by (simp add: marked_def)
    moreover have "rest = Exit (Inr ())" using 1(1) by simp
    ultimately show ?thesis using 1(2,4) marked_later star [OF 1(4)] by blast
  qed auto
qed

theorem interruption_marks_and_wakes_witness:
  "\<exists>s'. run_proc (interruptByExecutionId [demo_config] (demo_flow False) ''x'') demo_asleep = (Inr (), s') \<and>
     asleep_at (1, 2) demo_own demo_asleep \<and> awake ''default'' 0 s' \<and> marked demo_own s'"
proof -
  let ?m = "run_proc (interruptByExecutionId [demo_config] (demo_flow False) (ac_executionId demo_own)) demo_asleep"
  have "fst ?m = Inr ()" by code_simp
  then have m: "?m = (Inr (), snd ?m)" by (metis prod.collapse)
  have queue: "queueFor [demo_config] (demo_flow False) = Inr (ac_queue demo_own)" by code_simp
  have "key_task ''x'' (demo_queue demo_asleep) = Some 0" by code_simp
  from demo_executes [OF demo_asleep_kept this] have ex: "executes (ac_queue demo_own) (ac_executionId demo_own) (ac_taskId demo_own) demo_asleep"
    by (simp add: demo_own_fields)
  have alone: "\<forall>s s'. (\<lambda>_ _. False) s s' \<longrightarrow> db_others s s'" by simp
  have "\<not> task_over (ac_queue demo_own) (ac_taskId demo_own) demo_asleep"
  proof -
    have "map_option (\<lambda>t. isTerminalTaskState (t_state t)) (find_task 0 (demo_queue demo_asleep)) = Some False" by code_simp
    then show ?thesis using demo_asleep_at(1) by (auto simp: task_over_def queue_at_def demo_own_fields)
  qed
  with interruption_marks_and_wakes [OF ends_ahead [OF run_proc_ends [OF m]] alone demo_asleep_kept(1) queue ex]
  have "awake ''default'' 0 (snd ?m)" "marked demo_own (snd ?m)" by (auto simp: alone_star demo_own_fields)
  with m demo_asleep_at(2) show ?thesis unfolding demo_own_fields by blast
qed

end
