(* ===== verification/Stuck_Spec.thy ===== *)
theory Stuck_Spec
  imports Wake_Spec
begin

text \<open>
  Three ways in which an engine stops making progress, or makes it in vain: a wake-up that is lost, a park that gives
  the run back at once, and a worker that ends.
\<close>

section \<open>Parking beside a child that has ended\<close>

lemma run_interruptRequested:
  assumes "map_of (w_queues s) (ac_queue claim) = Some q"
  shows "run_proc (interruptRequested claim) s =
    (Inr (get_task_checkpoint_state (ac_taskId claim) interruptCheckpointName q \<noteq> None), s)"
  using assms by (simp add: interruptRequested_def checkpoint_def run_bind run_orDie store_checkpointState_def sql_rows_eq)

text \<open>The reads of the children succeed.\<close>

definition children_read :: "claim_state \<Rightarrow> bool" where
  "children_read s \<longleftrightarrow> (\<forall>c \<in> snd ` set (cl_awaitedChildren s).
     \<exists>task. store_taskByExecutionId (xr_queue c) (xr_executionId c) s = (Inr task, s))"

lemma run_childIsTerminal:
  assumes "store_taskByExecutionId (xr_queue c) (xr_executionId c) s = (Inr task, s)"
  shows "run_proc (childIsTerminal c) s = (Inr (\<not> child_open c s), s)"
  using assms by (auto simp: childIsTerminal_def run_bind run_orDie child_open_def split: option.splits)

lemma run_anyChildTerminal:
  assumes "children_read s"
  shows "run_proc anyChildTerminal s = (Inr (\<exists>c \<in> snd ` set (cl_awaitedChildren s). \<not> child_open c s), s)"
proof -
  have "run_proc (some_proc childIsTerminal cs) s = (Inr (\<exists>c \<in> set cs. \<not> child_open c s), s)"
    if "\<forall>c \<in> set cs. \<exists>task. store_taskByExecutionId (xr_queue c) (xr_executionId c) s = (Inr task, s)" for cs
    using that
  proof (induction cs)
    case (Cons c cs)
    then obtain task where "store_taskByExecutionId (xr_queue c) (xr_executionId c) s = (Inr task, s)" by auto
    from run_childIsTerminal [OF this] Cons show ?case by (simp add: run_bind)
  qed simp
  from this [of "map snd (cl_awaitedChildren s)"] assms show ?thesis
    by (simp add: anyChildTerminal_def run_bind children_read_def)
qed

lemma schedule_now_claimable:
  assumes "queue_inv q" "find_run i q = Some r" "r_state r = Running"
  shows "\<exists>q' r'. schedule_run i now q = Inr q' \<and> find_run i q' = Some r' \<and> claimable now q' r'"
proof -
  have r: "r \<in> set (runs q)" "r_id r = i" using find_runD [OF assms(2)] by simp_all
  obtain r0 where r0: "tbl_find (\<lambda>r. r_id r = i \<and> r_state r = Running) (runs q) = Some r0"
    using r assms(3) by (cases "tbl_find (\<lambda>r. r_id r = i \<and> r_state r = Running) (runs q)") (auto simp: tbl_find_None)
  then have "r0 = r" using running_unique [OF assms(1,2)] by (auto dest!: tbl_find_SomeD)
  obtain t where t: "find_task (r_task r) q = Some t" "t_id t = r_task r"
    using find_run_same_task [OF assms(1,2)] by blast
  define f where "f = (\<lambda>x :: run_row. x\<lparr>r_state := Sleeping, r_claimed_by := None, r_claim_expires_at := None,
    r_available_at := At now, r_wake_event := None\<rparr>)"
  define q' where "q' = update_tasks (\<lambda>t. t_id t = r_task r) (\<lambda>t. t\<lparr>t_state := Sleeping\<rparr>) (update_runs (\<lambda>x. r_id x = i) f q)"
  have "schedule_run i now q = Inr q'" using r0 \<open>r0 = r\<close> by (simp add: schedule_run_def q'_def f_def)
  moreover have "find_run i q' = Some (f r)"
  proof -
    have "find_run i q' = find_run i (update_runs (\<lambda>x. r_id x = i) f q)" by (simp add: q'_def find_run_def store_updates)
    then show ?thesis using assms(2) r(2) by (simp add: find_run_update_runs f_def)
  qed
  moreover have "find_task (r_task r) q' = Some (t\<lparr>t_state := Sleeping\<rparr>)"
  proof -
    have "find_task (r_task r) (update_runs P f q) = find_task (r_task r) q" for P by (simp add: find_task_def store_updates)
    then show ?thesis using t by (simp add: q'_def find_task_update_tasks)
  qed
  ultimately show ?thesis by (intro exI [of _ q'] exI [of _ "f r"]) (simp add: claimable_def f_def active_def)
qed

text \<open>
  A child that has ended turns waiting into spinning. When one of the children that the handler executed
  has ended, even one whose result it has used long before, parking the suspended run gives it back at once, whatever
  the run is waiting for: the next claim replays it, finds nothing new, and parks it again.
\<close>

lemma park_hot_loop:
  assumes "queue_at claim s q" "find_run (ac_runId claim) q = Some r" "r_state r = Running"
    and "get_task_checkpoint_state (ac_taskId claim) interruptCheckpointName q = None"
    and "children_read s" "c \<in> snd ` set (cl_awaitedChildren s)" "\<not> child_open c s"
  shows "\<exists>s' q' r'. run_proc (parkSuspended random claim) s = (Inr (), s') \<and>
    map_of (w_queues s') (ac_queue claim) = Some q' \<and> find_run (ac_runId claim) q' = Some r' \<and>
    claimable (w_db_now s) q' r'"
proof -
  have m: "map_of (w_queues s) (ac_queue claim) = Some q" and inv: "queue_inv q" using assms(1) by (simp_all add: queue_at_def)
  obtain q' r' where q': "schedule_run (ac_runId claim) (w_db_now s) q = Inr q'" "find_run (ac_runId claim) q' = Some r'"
    "claimable (w_db_now s) q' r'"
    using schedule_now_claimable [OF inv assms(2,3)] by blast
  have "run_proc (reschedule claim) s = (Inr (), set_queue (ac_queue claim) q' s)"
    using m q'(1) by (simp add: reschedule_def run_orDie store_scheduleRunInSeconds_def sql_void_eq)
  then have "run_proc (parkSuspended random claim) s = (Inr (), set_queue (ac_queue claim) q' s)"
    using assms(4,6,7) by (auto simp: parkSuspended_def run_bind run_interruptRequested [OF m] run_anyChildTerminal [OF assms(5)])
  with q'(2,3) show ?thesis by auto
qed

text \<open>The demonstration: its handler executed the child \<open>y\<close>, which was cancelled, and waits for its deferred.\<close>

definition demo_child :: ExecutionReference where
  "demo_child = \<lparr>xr_queue = ''default'', xr_executionId = ''y''\<rparr>"

definition demo_execute_child :: "(claim_state, unit) wf" where
  "demo_execute_child =
     bind_proc (orDie (store_spawnTask ''default'' ''flow'' (JNum 2) (JObj [(''idempotency_key'', JStr ''y'')]))) (\<lambda>i.
     bind_proc (orDie (store_cancelTask ''default'' i)) (\<lambda>_. modify (note_child demo_child)))"

definition demo_bereft :: claim_state where
  "demo_bereft = snd (run_proc demo_execute_child demo_suspended)"

section \<open>A wake-up that is lost\<close>

text \<open>What the completion of the deferred does in one piece, as another process would.\<close>

definition demo_completion :: "claim_state \<Rightarrow> claim_state \<Rightarrow> bool" where
  "demo_completion s s' \<longleftrightarrow>
     run_proc (deferredDone demo_codec (demo_engine False) ''flow'' ''x'' ''d'' (Inr (Some (JNum 7)))) s = (Inr (), s')"

definition demo_missed :: claim_state where
  "demo_missed = snd (run_proc (deferredDone demo_codec (demo_engine False) ''flow'' ''x'' ''d'' (Inr (Some (JNum 7)))) demo_suspended)"

definition demo_lost :: claim_state where
  "demo_lost = snd (run_proc (parkSuspended (1, 2) demo_own) demo_missed)"

text \<open>The reads of a park whose awaited deferreds are all at hand.\<close>

lemma run_deferredAvailable:
  assumes "map_of (w_queues s) (ac_queue claim) = Some q" "available_in claim d q" "quoteQueueTable ''e_'' (ac_queue claim) = Inr name"
  shows "run_proc (deferredAvailable claim d) s = (Inr True, s)"
  using assms
  by (auto simp: deferredAvailable_def checkpoint_def run_bind run_orDie store_checkpointState_def store_eventPayload_def
      sql_rows_eq available_in_def event_payload_def bind_ts_def check_def ret_def split: option.splits)

lemma run_survey:
  assumes "map_of (w_queues s) (ac_queue claim) = Some q" "quoteQueueTable ''e_'' (ac_queue claim) = Inr name"
    "\<forall>d \<in> set (in_awaitedDeferreds (cl_root s)). available_in claim d q"
  shows "run_proc (survey claim) s = (Inr (None, []), s)"
proof -
  have "run_proc (fold_proc (survey_one claim) ds (None, [])) s = (Inr (None, []), s)"
    if "\<forall>d \<in> set ds. available_in claim d q" for ds
    using that by (induction ds) (simp_all add: run_bind survey_one_def run_deferredAvailable [OF assms(1) _ assms(2)])
  with assms(3) show ?thesis by (simp add: survey_def run_bind)
qed

lemma bell_plain: "\<not> is_blank (db_eventName (makeDoorbell random x))"
  by (simp add: makeDoorbell_def name_defs namespace_def is_blank_def)

text \<open>The registration of a wait without a timeout on an event that has not been emitted.\<close>

lemma await_without_timeout:
  assumes "queue_inv q" "find_run i q = Some r" "r_task r = ti" "r_state r = Running" "\<not> is_blank ev"
    "event_payload ev q = None" "find_checkpoint ti c q = None" "r_wake_event r \<noteq> Some ev"
  shows "\<exists>q' r'. await_event now ti i c ev None q = Inr (\<lparr>aw_suspend = True, aw_payload = None\<rparr>, q') \<and>
    find_run i q' = Some r' \<and> r_state r' = Sleeping \<and> r_available_at r' = Infinity \<and>
    checkpoints q' = checkpoints q \<and> (\<forall>e. event_payload e q' = event_payload e q)"
proof -
  let ?q = "ensure_event ev q"
  obtain t where t: "find_task ti q = Some t" "t_id t = ti" using find_run_same_task [OF assms(1,2)] assms(3) by blast
  have live: "t_state t \<noteq> Cancelled"
    using active_task(1) [OF assms(1), of r t] find_runD [OF assms(2)] find_taskD [OF t(1)] assms(3,4) by (simp add: active_def)
  have same: "find_run i ?q = Some r" "find_task (r_task r) ?q = Some t" "checkpoints ?q = checkpoints q"
    "Option.bind (find_event ev ?q) e_payload = None" "event_payload e ?q = event_payload e q" for e
    using assms(2,3,6) t(1)
    by (auto simp: ensure_event_def find_run_def find_task_def event_payload_def find_event_def tbl_find_append split: option.splits)
  define q1 where "q1 = (if r_event_payload r \<noteq> None
    then update_runs (\<lambda>x. r_id x = i) (\<lambda>x. x\<lparr>r_event_payload := None\<rparr>) ?q else ?q)"
  let ?q' = "register_wait now ti i c ev None q1"
  have a: "await_event now ti i c ev None q = Inr (\<lparr>aw_suspend = True, aw_payload = None\<rparr>, ?q')"
    using assms(3-5,7,8) live same(1,2,4) by (simp add: await_event_def Let_def q1_def)
  have "r_id r = i" using find_runD [OF assms(2)] by simp
  then have "\<exists>r1. find_run i q1 = Some r1 \<and> r_id r1 = i"
    using same(1) by (cases "r_event_payload r") (simp_all add: q1_def find_run_update_runs)
  then obtain r1 where r1: "find_run i q1 = Some r1" "r_id r1 = i" by blast
  then have "find_run i ?q' = Some (r1\<lparr>r_state := Sleeping, r_claimed_by := None, r_claim_expires_at := None,
      r_available_at := Infinity, r_wake_event := Some ev, r_event_payload := None\<rparr>)"
  proof -
    have "find_run i (update_tasks P f x) = find_run i x" "find_run i (x\<lparr>waits := ws\<rparr>) = find_run i x" for P f x ws
      by (simp_all add: find_run_def store_updates)
    then show ?thesis using r1 by (simp add: register_wait_def find_run_update_runs)
  qed
  moreover have "checkpoints ?q' = checkpoints q" using same(3) by (simp add: register_wait_def q1_def store_updates)
  moreover have "event_payload e ?q' = event_payload e q" for e
    using same(5) [of e] by (simp add: register_wait_def q1_def event_payload_def find_event_def store_updates)
  ultimately show ?thesis using a by auto
qed

text \<open>
  Property C40: a wake-up is lost when the last awaited deferred is completed between the suspension of the handler and
  the park. Let the awaited deferreds of a suspended run all be at hand when \<open>parkSuspended\<close> starts, with no child, no
  marker of an interruption, and a fresh doorbell. Then the park, left alone, takes none of them for unresolved, so that
  its recheck does not look at them either, and puts the run to sleep without a timeout: no claim takes it at any time
  unless somebody rings, although everything it waits for is there. With a child in flight, or a clock not yet due, the
  run would sleep with a timeout.
\<close>

theorem lost_wakeup:
  assumes "queue_at claim s q" "find_run (ac_runId claim) q = Some r" "r_state r = Running" "\<not> marked claim s"
    and "cl_awaitedChildren s = []" "\<forall>d \<in> set (in_awaitedDeferreds (cl_root s)). available_in claim d q"
    and "quoteQueueTable ''e_'' (ac_queue claim) = Inr name" "event_payload (bell_of random claim) q = None"
    and "find_checkpoint (ac_taskId claim) (db_checkpointName (makeDoorbell random (ac_executionId claim))) q = None"
    and "r_wake_event r \<noteq> Some (bell_of random claim)"
  shows "\<exists>s' q' r'. run_proc (parkSuspended random claim) s = (Inr (), s') \<and> map_of (w_queues s') (ac_queue claim) = Some q' \<and>
    find_run (ac_runId claim) q' = Some r' \<and> r_state r' = Sleeping \<and> (\<nexists>now. claimable now q' r') \<and>
    (\<forall>d \<in> set (in_awaitedDeferreds (cl_root s)). available_in claim d q')"
proof -
  let ?bell = "makeDoorbell random (ac_executionId claim)"
  have m: "map_of (w_queues s) (ac_queue claim) = Some q" and inv: "queue_inv q" and owner: "r_task r = ac_taskId claim"
    using assms(1,2) by (auto simp: queue_at_def owned_by_def)
  have none: "get_task_checkpoint_state (ac_taskId claim) interruptCheckpointName q = None" using assms(4) m by (simp add: marked_def)
  from await_without_timeout [OF inv assms(2) owner assms(3) bell_plain assms(8,9,10)] obtain q' r' where
    a: "await_event (w_db_now s) (ac_taskId claim) (ac_runId claim) (db_checkpointName ?bell) (db_eventName ?bell) None q
      = Inr (\<lparr>aw_suspend = True, aw_payload = None\<rparr>, q')"
    and r': "find_run (ac_runId claim) q' = Some r'" "r_state r' = Sleeping" "r_available_at r' = Infinity"
    and same: "checkpoints q' = checkpoints q" "\<forall>e. event_payload e q' = event_payload e q" by blast
  let ?s = "set_queue (ac_queue claim) q' s"
  have cells: "get_task_checkpoint_state ti n q' = get_task_checkpoint_state ti n q" for ti n
    by (simp add: get_task_checkpoint_state_def find_checkpoint_def same(1))
  have kids: "children_read s" "children_read ?s" "cl_awaitedChildren ?s = []" using assms(5) by (simp_all add: children_read_def set_queue_def)
  have register: "run_proc (register_doorbell claim ?bell None) s = (Inr True, ?s)"
    using assms(5) m a
    by (simp add: register_doorbell_def run_bind run_orDie clockTimeoutSeconds_def childPollTimeoutSeconds_def minimumDefined_def
        store_awaitEvent_def sql_eq bind_ts_def ret_def)
  have recheck: "run_proc (recheck claim (bell_of random claim) []) ?s = (Inr (), ?s)"
    using cells none kids(3) by (simp add: recheck_def Let_def run_bind run_interruptRequested [of ?s claim q'] run_anyChildTerminal [OF kids(2)])
  have "run_proc (parkSuspended random claim) s = (Inr (), ?s)"
    using none kids(1) assms(5) register recheck
    by (simp add: parkSuspended_def Let_def run_bind run_interruptRequested [OF m] run_anyChildTerminal [OF kids(1)]
        run_survey [OF m assms(7,6)])
  moreover have "\<nexists>now. claimable now q' r'" using r'(3) by (simp add: claimable_def)
  moreover have "\<forall>d \<in> set (in_awaitedDeferreds (cl_root s)). available_in claim d q'"
    using assms(6) cells same(2) by (simp add: available_in_def)
  ultimately show ?thesis using r'(1,2) by (intro exI [of _ ?s] exI [of _ q'] exI [of _ r']) simp
qed

text \<open>An execution of a claim in which this happens: its deferred is completed when its handler has just suspended.\<close>

lemma demo_loses_wakeup:
  "\<exists>s' q r. processClaim demo_completion (demo_engine False) demo_config (1, 2) (fst demo_taken) (snd demo_taken) (Inr ()) s' \<and>
     queue_at demo_own s' q \<and> event_payload (event_of demo_own ''d'') q \<noteq> None \<and>
     asleep_at (1, 2) demo_own s' \<and> find_run 1 q = Some r \<and> (\<nexists>now. claimable now q r)"
proof -
  let ?p = "deferredDone demo_codec (demo_engine False) ''flow'' ''x'' ''d'' (Inr (Some (JNum 7)))"
  have fin: "run_proc ?p demo_suspended = (Inr (), demo_missed)"
  proof -
    have "fst (run_proc ?p demo_suspended) = Inr ()" by code_simp
    then show ?thesis unfolding demo_missed_def by (metis prod.collapse)
  qed
  have park: "run_proc (parkSuspended (1, 2) demo_own) demo_missed = (Inr (), demo_lost)"
  proof -
    have "fst (run_proc (parkSuspended (1, 2) demo_own) demo_missed) = Inr ()" by code_simp
    then show ?thesis unfolding demo_lost_def by (metis prod.collapse)
  qed
  have "demo_completion\<^sup>*\<^sup>* demo_suspended demo_missed" using fin by (auto simp: demo_completion_def)
  then have "ends demo_completion (run_handler demo_own (demo_registration False) (JNum 1)) demo_started (Inr Suspended) demo_missed"
    by (rule ends_on [OF run_proc_ends [OF demo_suspends]])
  moreover have "ends demo_completion (settle_outcome (1, 2) demo_own (demo_registration False) (fst demo_taken) Suspended)
      demo_missed (Inr ()) demo_lost"
    using run_proc_ends [OF park] by (simp add: settle_outcome_def)
  ultimately have "ends demo_completion (bind_proc (run_handler demo_own (demo_registration False) (JNum 1))
      (settle_outcome (1, 2) demo_own (demo_registration False) (fst demo_taken))) demo_started (Inr ()) demo_lost"
    unfolding ends_bind by blast
  from processClaim.handler [OF run_proc_ends [OF demo_begin [unfolded demo_started_def]] demo_own_claim [symmetric]
      this [unfolded demo_started_def]]
  have 1: "processClaim demo_completion (demo_engine False) demo_config (1, 2) (fst demo_taken) (snd demo_taken) (Inr ()) demo_lost" .
  from demo_queue_at [OF demo_kept [OF lawful_park park demo_kept [OF lawful_deferredDone fin demo_suspended_kept]]]
  have 2: "queue_at demo_own demo_lost (demo_queue demo_lost)" .
  have 3: "event_payload (event_of demo_own ''d'') (demo_queue demo_lost) = Some (JArr [JNum 7])"
    "event_payload (bell_of (1, 2) demo_own) (demo_queue demo_lost) = None" by code_simp+
  have "map_option (\<lambda>r. (r_task r, r_state r, r_wake_event r, r_available_at r)) (find_run 1 (demo_queue demo_lost))
    = Some (0, Sleeping, Some (bell_of (1, 2) demo_own), Infinity)" by code_simp
  then obtain r where r: "find_run 1 (demo_queue demo_lost) = Some r" "r_task r = 0" "r_state r = Sleeping"
    "r_wake_event r = Some (bell_of (1, 2) demo_own)" "r_available_at r = Infinity" by auto
  then have "asleep_on (bell_of (1, 2) demo_own) 0 1 (demo_queue demo_lost)" using 3(2) by (simp add: asleep_on_def)
  then have "asleep_at (1, 2) demo_own demo_lost" using 2 unfolding asleep_at_def demo_own_fields by blast
  moreover have "\<nexists>now. claimable now (demo_queue demo_lost) r" using r(5) by (simp add: claimable_def)
  ultimately show ?thesis using 1 2 3(1) r(1) by blast
qed

theorem lost_wakeup_witness:
  "\<exists>s'. in_awaitedDeferreds (cl_root demo_missed) = [''d''] \<and> run_proc (parkSuspended (1, 2) demo_own) demo_missed = (Inr (), s') \<and>
     (\<exists>q' r'. map_of (w_queues s') ''default'' = Some q' \<and> find_run 1 q' = Some r' \<and> r_state r' = Sleeping \<and>
        (\<nexists>now. claimable now q' r') \<and> available_in demo_own ''d'' q')"
proof -
  have "run_proc (deferredDone demo_codec (demo_engine False) ''flow'' ''x'' ''d'' (Inr (Some (JNum 7)))) demo_suspended
      = (fst (run_proc (deferredDone demo_codec (demo_engine False) ''flow'' ''x'' ''d'' (Inr (Some (JNum 7)))) demo_suspended), demo_missed)"
    by (simp add: demo_missed_def)
  from demo_queue_at [OF demo_kept [OF lawful_deferredDone this demo_suspended_kept]]
  have at: "queue_at demo_own demo_missed (demo_queue demo_missed)" .
  have "map_option (\<lambda>r. (r_state r, r_wake_event r)) (find_run 1 (demo_queue demo_missed)) = Some (Running, None)" by code_simp
  then obtain r where r: "find_run (ac_runId demo_own) (demo_queue demo_missed) = Some r" "r_state r = Running" "r_wake_event r = None"
    by (auto simp: demo_own_fields)
  have "get_task_checkpoint_state 0 interruptCheckpointName (demo_queue demo_missed) = None" by code_simp
  then have "\<not> marked demo_own demo_missed" using at by (auto simp: marked_def queue_at_def demo_own_fields)
  moreover have d: "in_awaitedDeferreds (cl_root demo_missed) = [''d'']" "cl_awaitedChildren demo_missed = []" by code_simp+
  moreover have "event_payload (event_of demo_own ''d'') (demo_queue demo_missed) \<noteq> None" by code_simp
  then have "\<forall>d \<in> set (in_awaitedDeferreds (cl_root demo_missed)). available_in demo_own d (demo_queue demo_missed)"
    using d(1) by (simp add: available_in_def)
  moreover have "quoteQueueTable ''e_'' (ac_queue demo_own) = Inr (the (Some (projr (quoteQueueTable ''e_'' (ac_queue demo_own)))))"
    by code_simp
  moreover have "event_payload (bell_of (1, 2) demo_own) (demo_queue demo_missed) = None"
    "find_checkpoint (ac_taskId demo_own) (db_checkpointName (makeDoorbell (1, 2) (ac_executionId demo_own))) (demo_queue demo_missed) = None"
    by code_simp+
  ultimately show ?thesis
    using lost_wakeup [OF at r(1,2), where random = "(1, 2)"] r(3) by (fastforce simp: demo_own_fields)
qed

section \<open>A worker whose claim fails\<close>

lemma ended_stays:
  assumes "(queue_workers env outside e config workerId)\<^sup>*\<^sup>* (fs, w) (fs', w')" "i < length fs" "fs ! i = Ended"
  shows "i < length fs' \<and> fs' ! i = Ended"
  using assms(1)
proof (induction rule: rtranclp_induct2)
  case refl
  then show ?case using assms(2,3) by simp
next
  case (step fs1 w1 fs2 w2)
  from step.hyps(2) obtain k j where "workerLoop env outside e config workerId (fs1 ! j, w1) (k, w2)" "fs2 = fs1[j := k]"
    by (auto elim: queue_workers.cases)
  then show ?case using step.IH by (cases "j = i") (auto elim: workerLoop.cases)
qed

text \<open>
  One failed claim ends a worker fiber for good. When the query that claims fails, be it for a connection
  that was lost or for a task with a malformed policy, the fiber that sent it ends, and nothing ever starts it again.
\<close>

lemma failed_claim_ends_fiber:
  assumes "i < length fs" "fs ! i = Looping"
    and "store_claimTask (qc_name config) workerId (toPositiveWholeSeconds (qc_claimTimeout config)) w = (Inl err, w1)"
  shows "queue_workers env outside e config workerId (fs, w) (fs[i := Ended], w1) \<and>
    (\<forall>fs' w'. (queue_workers env outside e config workerId)\<^sup>*\<^sup>* (fs[i := Ended], w1) (fs', w') \<longrightarrow> fs' ! i = Ended)"
proof
  show "queue_workers env outside e config workerId (fs, w) (fs[i := Ended], w1)"
    using workerLoop.claim_fails [OF assms(3)] assms(1,2) by (intro queue_workers.fiber) simp_all
  show "\<forall>fs' w'. (queue_workers env outside e config workerId)\<^sup>*\<^sup>* (fs[i := Ended], w1) (fs', w') \<longrightarrow> fs' ! i = Ended"
    using ended_stays [of env outside e config workerId "fs[i := Ended]" w1] assms(1) by auto
qed

end
