(* ===== verification/Keeping.thy ===== *)
theory Keeping
  imports Workflow_Moves Checkpoint_Life
begin

text \<open>
  What programs keep while other processes move: predicates of the state, and in particular the checkpoints of a task,
  which the cells of its durable operations are.
\<close>

section \<open>What a program keeps\<close>

text \<open>The others keep \<open>P\<close>, and \<open>P\<close> looks at nothing but the queues.\<close>

definition unmoved :: "('s \<Rightarrow> 's \<Rightarrow> bool) \<Rightarrow> ('s \<Rightarrow> bool) \<Rightarrow> bool" where
  "unmoved env P \<longleftrightarrow> (\<forall>s s'. env s s' \<longrightarrow> P s \<longrightarrow> P s')"

definition about_queues :: "('w world_scheme \<Rightarrow> bool) \<Rightarrow> bool" where
  "about_queues P \<longleftrightarrow> (\<forall>s s'. w_queues s' = w_queues s \<longrightarrow> P s \<longrightarrow> P s')"

definition keeps :: "('s \<Rightarrow> 's \<Rightarrow> bool) \<Rightarrow> ('s \<Rightarrow> bool) \<Rightarrow> ('s, 'e, 'a) proc \<Rightarrow> bool" where
  "keeps env P p \<longleftrightarrow> (\<forall>s r s'. P s \<longrightarrow> ends env p s r s' \<longrightarrow> P s')"

named_theorems keepsI \<open>programs that keep a predicate which the others keep\<close>

lemma keepsD: "keeps env P p \<Longrightarrow> ends env p s r s' \<Longrightarrow> P s \<Longrightarrow> P s'"
  unfolding keeps_def by blast

lemma unmoved_star:
  assumes "unmoved env P" "env\<^sup>*\<^sup>* s s'" "P s"
  shows "P s'"
  using assms(2,3) by (induction rule: rtranclp_induct) (use assms(1) in \<open>auto simp: unmoved_def\<close>)

lemma keeps_match [keepsI]: "keeps env P p \<Longrightarrow> (\<And>r. keeps env P (k r)) \<Longrightarrow> keeps env P (match_proc p k)"
  unfolding keeps_def ends_match by blast

lemma keeps_bind [keepsI]: "keeps env P p \<Longrightarrow> (\<And>a. keeps env P (k a)) \<Longrightarrow> keeps env P (bind_proc p k)"
  unfolding keeps_def ends_bind by blast

lemma keeps_statements [keepsI]:
  assumes "unmoved env P"
  shows "keeps env P (Exit r)" "keeps env P (give a)" "keeps env P (fail e)" "keeps env P (die x)" "keeps env P (or_throw y)"
    "keeps env P (get f)"
  using unmoved_star [OF assms] by (auto simp: keeps_def or_throw_def split: sum.splits)

lemma keeps_modify:
  assumes "unmoved env P" "\<And>s. P s \<Longrightarrow> P (f s)"
  shows "keeps env P (modify f)"
  using unmoved_star [OF assms(1)] assms(2) by (auto simp: keeps_def)

lemma keeps_reads: "reads env p \<Longrightarrow> unmoved env P \<Longrightarrow> keeps env P p"
  unfolding keeps_def using readsD unmoved_star by metis

lemma keeps_own [keepsI]:
  assumes "unmoved env P" "about_queues P"
  shows "keeps env P (modify (update_current f))" "keeps env P (note_pending g)" "keeps env P wf_suspend"
proof -
  have own: "P (update_current f s)" "P (s\<lparr>cl_pendingDeferreds := ds\<rparr>)" if "P s" for f ds and s :: claim_state
    by (use assms(2) that in \<open>simp add: about_queues_def\<close>)+
  note modified = keeps_modify [OF assms(1)] own
  show "keeps env P (modify (update_current f))" for f by (intro modified)
  then show "keeps env P wf_suspend" unfolding wf_suspend_def by (intro keepsI assms)
  show "keeps env P (note_pending g)"
    unfolding note_pending_def at_workflow_level_def by (auto intro!: keepsI assms modified)
qed

lemma keeps_run:
  assumes "unmoved env P" "about_queues P" "keeps env P p"
  shows "keeps env P (with_instance (intoResult w p))"
proof -
  have "P (s\<lparr>cl_inner := i\<rparr>)" if "P s" for s i using assms(2) that by (simp add: about_queues_def)
  note inner = keeps_modify [OF assms(1) this]
  have "keeps env P (suspendOnFailure w r)" for r
    by (auto simp: suspendOnFailure_def intro!: keepsI assms split: sum.splits)
  then have "keeps env P (intoResult w p)"
    unfolding intoResult_def by (auto intro!: keepsI assms split: sum.splits)
  then show ?thesis unfolding with_instance_def by (auto intro!: keepsI assms inner)
qed

section \<open>The cells of a task\<close>

definition stored_at :: "ActiveClaim \<Rightarrow> string \<Rightarrow> 'w world_scheme \<Rightarrow> json option" where
  "stored_at claim n s = Option.bind (map_of (w_queues s) (ac_queue claim)) (\<lambda>q.
     map_option (\<lambda>c. or_null (c_state c)) (get_task_checkpoint_state (ac_taskId claim) n q))"

text \<open>The others move the queues by the stored functions and leave the cell alone.\<close>

definition spare :: "ActiveClaim \<Rightarrow> string \<Rightarrow> ('w world_scheme \<Rightarrow> 'w world_scheme \<Rightarrow> bool) \<Rightarrow> bool" where
  "spare claim n env \<longleftrightarrow> (\<forall>s s'. env s s' \<longrightarrow> db_others s s' \<and> stored_at claim n s' = stored_at claim n s)"

text \<open>The queues are well-formed, the run is the task's, and the cell holds \<open>m\<close>.\<close>

definition holds_cell :: "ActiveClaim \<Rightarrow> string \<Rightarrow> json option \<Rightarrow> 'w world_scheme \<Rightarrow> bool" where
  "holds_cell claim n m s \<longleftrightarrow> world_inv s \<and> own_claim claim s \<and> stored_at claim n s = m"

lemma about_cell [simp]: "about_queues (holds_cell claim n m)"
  by (simp add: about_queues_def holds_cell_def world_inv_def holds_run_def stored_at_def)

lemma spare_unmoved: "spare claim n env \<Longrightarrow> unmoved env (holds_cell claim n m)"
  using world_inv_others holds_run_later unfolding spare_def unmoved_def holds_cell_def by blast

lemma spare_star: "spare claim n env \<Longrightarrow> env\<^sup>*\<^sup>* s s' \<Longrightarrow> stored_at claim n s' = stored_at claim n s"
  by (rule unmoved_star [of env "\<lambda>x. stored_at claim n x = stored_at claim n s"]) (auto simp: unmoved_def spare_def)

lemma reads_checkpoint [reading]: "reads env (checkpoint claim n)"
  by (auto simp: checkpoint_def intro!: reading)

lemma checkpoint_at:
  assumes "ends env (checkpoint claim n) s (Inr v) s'" "spare claim n env"
  shows "v = stored_at claim n s" "env\<^sup>*\<^sup>* s s'"
proof -
  from assms(1) obtain x y where x: "env\<^sup>*\<^sup>* s x" "env\<^sup>*\<^sup>* y s'" "store_checkpointState (ac_queue claim) (ac_taskId claim) n x = (Inr v, y)"
    by (auto simp: checkpoint_def)
  then have "y = x" "v = stored_at claim n x"
    by (auto simp: store_checkpointState_def sql_rows_eq stored_at_def split: option.splits)
  then show "v = stored_at claim n s" "env\<^sup>*\<^sup>* s s'" using spare_star [OF assms(2) x(1)] x(1,2) by auto
qed

lemma orDie_fails:
  fixes m :: "('s, 'b) ts"
  shows "ends env (orDie m) s (Inl c) s' \<Longrightarrow> \<exists>x. c = [Die x]"
proof -
  assume "ends env (orDie m) s (Inl c) s'"
  then obtain z :: "exn + 'b" where "(Inl c :: cause + 'b) = (case z of Inl e \<Rightarrow> Inl [Die e] | Inr a \<Rightarrow> Inr a)"
    unfolding ends_orDie by blast
  then show ?thesis by (cases z) auto
qed

text \<open>A write: the cell gets the value if it was empty, and other cells stay as they are.\<close>

lemma write_parts:
  assumes "ends env (write_checkpoint claim n v) s r s'"
  obtains x y where "env\<^sup>*\<^sup>* s x" "env\<^sup>*\<^sup>* y s'" "own_claim claim x \<longrightarrow> db_others x y"
    "\<forall>n'. n' \<noteq> n \<longrightarrow> stored_at claim n' y = stored_at claim n' x"
    "\<not> isl r \<and> world_inv x \<and> stored_at claim n x = None \<longrightarrow> stored_at claim n y = Some v"
proof -
  let ?set = "store_setCheckpointState (ac_queue claim) (ac_taskId claim) n v (ac_runId claim) None"
  from assms obtain x y z where x: "env\<^sup>*\<^sup>* s x" "env\<^sup>*\<^sup>* y s'" "?set x = (z, y)"
    and r: "r = (case z of Inl e \<Rightarrow> Inl [Die e] | Inr a \<Rightarrow> Inr a)"
    unfolding write_checkpoint_def ends_orDie by auto
  from r have x4: "isl r = isl z" by (cases z) auto
  have "db_others x y" if "own_claim claim x"
  proof -
    have "snd (run_proc (write_checkpoint claim n v) x) = y"
      using x(3) by (cases z) (simp_all add: write_checkpoint_def run_orDie)
    then show ?thesis using run_lawful [OF lawful_write [of claim n v] holds_run_later that] by simp
  qed
  moreover have "(\<forall>n'. n' \<noteq> n \<longrightarrow> stored_at claim n' y = stored_at claim n' x) \<and>
    (\<not> isl z \<and> world_inv x \<and> stored_at claim n x = None \<longrightarrow> stored_at claim n y = Some v)"
  proof (cases z)
    case (Inl e)
    then have "y = x" using x(3) by (auto simp: store_setCheckpointState_def sql_void_eq split: option.splits sum.splits)
    with Inl show ?thesis by simp
  next
    case (Inr u)
    then obtain q q' where q: "map_of (w_queues x) (ac_queue claim) = Some q" "y = set_queue (ac_queue claim) q' x"
      "set_task_checkpoint_state (w_db_now x) (ac_taskId claim) n (Some v) (ac_runId claim) None q = Inr q'"
      using x(3) by (auto simp: store_setCheckpointState_def sql_void_eq split: option.splits sum.splits)
    obtain run where run: "find_run (ac_runId claim) q = Some run" using set_checkpoint_run [OF q(3)] by blast
    note effect = set_checkpoint_effect [OF q(3) run]
    have "stored_at claim n y = Some v" if "world_inv x" "stored_at claim n x = None"
    proof -
      have "get_task_checkpoint_state (ac_taskId claim) n q = None" using that(2) q(1) by (simp add: stored_at_def)
      moreover have "reachable (q_mode q) q" using that(1) q(1) by (auto simp: world_inv_def)
      ultimately have "find_checkpoint (ac_taskId claim) n q = None" by (rule no_checkpoint)
      with effect show ?thesis by (auto simp: stored_at_def q(2) or_null_def)
    qed
    with effect q(1,2) show ?thesis by (auto simp: stored_at_def)
  qed
  ultimately show ?thesis using that [OF x(1,2)] x4 by blast
qed

lemma written_at:
  assumes "ends env (write_checkpoint claim n v) s (Inr ()) s'" "spare claim n env" "holds_cell claim n None s"
  shows "stored_at claim n s' = Some v"
  using assms(1)
proof (rule write_parts)
  fix x y
  assume 1: "env\<^sup>*\<^sup>* s x" "env\<^sup>*\<^sup>* y s'"
    "\<not> isl (Inr () :: cause + unit) \<and> world_inv x \<and> stored_at claim n x = None \<longrightarrow> stored_at claim n y = Some v"
  have "holds_cell claim n None x" using unmoved_star [OF spare_unmoved [OF assms(2)] 1(1) assms(3)] .
  with 1(3) have "stored_at claim n y = Some v" by (simp add: holds_cell_def)
  with spare_star [OF assms(2) 1(2)] show ?thesis by simp
qed

lemma keeps_write:
  assumes "spare claim n' env" "n' \<noteq> n"
  shows "keeps env (holds_cell claim n' m) (write_checkpoint claim n v)"
  unfolding keeps_def
proof (intro allI impI)
  fix s r s' assume s: "holds_cell claim n' m s" and e: "ends env (write_checkpoint claim n v) s r s'"
  from e show "holds_cell claim n' m s'"
  proof (rule write_parts)
    fix x y
    assume 1: "env\<^sup>*\<^sup>* s x" "env\<^sup>*\<^sup>* y s'" "own_claim claim x \<longrightarrow> db_others x y"
      "\<forall>n'. n' \<noteq> n \<longrightarrow> stored_at claim n' y = stored_at claim n' x"
    note star = unmoved_star [OF spare_unmoved [OF assms(1)]]
    have x: "holds_cell claim n' m x" by (rule star [OF 1(1) s])
    then have "db_others x y" using 1(3) by (simp add: holds_cell_def)
    then have "holds_cell claim n' m y"
      using x 1(4) assms(2) world_inv_others holds_run_later by (auto simp: holds_cell_def)
    then show ?thesis by (rule star [OF 1(2)])
  qed
qed

end
