(* ===== verification/Activity_Spec.thy ===== *)
theory Activity_Spec
  imports Keeping
begin

text \<open>
  Activities: a body that has returned is not executed again.
\<close>

section \<open>The checkpoint of an activity\<close>

text \<open>The read of a checkpoint that is there succeeds, since its queue stays.\<close>

lemma checkpoint_stored:
  assumes "ends env (checkpoint claim n) s r s'" "spare claim n env" "stored_at claim n s = Some v"
  shows "r = Inr (Some v)" "env\<^sup>*\<^sup>* s s'"
proof -
  from assms(1) obtain x y z where x: "env\<^sup>*\<^sup>* s x" "store_checkpointState (ac_queue claim) (ac_taskId claim) n x = (z, y)"
    "env\<^sup>*\<^sup>* y s'" "r = (case z of Inl e \<Rightarrow> Inl [Die e] | Inr a \<Rightarrow> Inr a)"
    unfolding checkpoint_def ends_orDie by blast
  have "stored_at claim n x = Some v" using spare_star [OF assms(2) x(1)] assms(3) by simp
  then have "z = Inr (Some v)" "y = x"
    using x(2) by (auto simp: store_checkpointState_def sql_rows_eq stored_at_def bind_eq_Some_conv)
  with x show "r = Inr (Some v)" "env\<^sup>*\<^sup>* s s'" by auto
qed

lemma activity_stored:
  assumes "ends env (activityExecute codec claim w n a body) s r s'" "spare claim (activityCheckpointName n a) env"
    and "stored_at claim (activityCheckpointName n a) s = Some v"
  shows "env\<^sup>*\<^sup>* s s'" "r = (case decodeStructuralExit codec v of Inl x \<Rightarrow> Inl [Die x] | Inr e \<Rightarrow> Inr (Complete e))"
proof -
  let ?c = "checkpoint claim (activityCheckpointName n a) :: (claim_state, json option) wf"
  let ?found = "\<lambda>v. bind_proc (or_throw (decodeStructuralExit codec v)) (\<lambda>e. give (Complete e)) :: (claim_state, wf_result) wf"
  obtain fresh where fresh: "activityExecute codec claim w n a body = bind_proc ?c (\<lambda>stored. case stored of None \<Rightarrow> fresh
      | Some v \<Rightarrow> ?found v)"
    unfolding activityExecute_def Let_def by blast
  from assms(1) [unfolded fresh ends_bind [of env ?c]] obtain s1 where
    1: "ends env ?c s (Inr (Some v)) s1" "ends env (?found v) s1 r s'"
    using checkpoint_stored(1) [OF _ assms(2,3)] by (elim disjE exE conjE) fastforce+
  note c = checkpoint_stored(2) [OF 1(1) assms(2,3)]
  with 1(2) show "env\<^sup>*\<^sup>* s s'" "r = (case decodeStructuralExit codec v of Inl x \<Rightarrow> Inl [Die x] | Inr e \<Rightarrow> Inr (Complete e))"
    by (cases "decodeStructuralExit codec v"; auto simp: ends_bind)+
qed

text \<open>
  The codec reads back an exit that it wrote. Defects need not be read back: \<open>Schema.Defect\<close> keeps no more of them than
  it documents, so that this is asked only of the exits at hand.
\<close>

definition reads_back :: "exit_codec \<Rightarrow> exit_value \<Rightarrow> bool" where
  "reads_back codec e \<longleftrightarrow>
     (\<forall>j. encodeStructuralExit codec e = Inr j \<longrightarrow> decodeStructuralExit codec j = Inr (exitWithNullishValues e))"

text \<open>An exit with which the body of an activity can complete.\<close>

definition outcome :: "(claim_state \<Rightarrow> claim_state \<Rightarrow> bool) \<Rightarrow> 'p workflow \<Rightarrow> (claim_state, json option) wf \<Rightarrow> exit_value \<Rightarrow> bool" where
  "outcome env w body e \<longleftrightarrow> (\<exists>s s'. ends env (with_instance (intoResult w body)) s (Inr (Complete e)) s')"

text \<open>What the first execution leaves.\<close>

lemma activity_first:
  assumes "ends env (activityExecute codec claim w n a body) s (Inr (Complete e)) s'"
    and spare: "spare claim (activityCheckpointName n a) env" and "world_inv s" "own_claim claim s"
    and body: "keeps env (holds_cell claim (activityCheckpointName n a) None) body"
    and codec: "\<forall>x. outcome env w body x \<longrightarrow> exitWithNullishValues x = e \<longrightarrow> reads_back codec x"
  shows "\<exists>v. stored_at claim (activityCheckpointName n a) s' = Some v \<and> decodeStructuralExit codec v = Inr e"
proof (cases "stored_at claim (activityCheckpointName n a) s")
  case (Some v)
  from activity_stored [OF assms(1) spare Some] show ?thesis using spare_star [OF spare] Some by (auto split: sum.splits)
next
  case None
  let ?n = "activityCheckpointName n a" and ?u = "holds_cell claim (activityCheckpointName n a) None :: claim_state \<Rightarrow> bool"
  note env = spare_unmoved [OF spare, of None]
  let ?settle = "\<lambda>result. (case result of Suspended \<Rightarrow> give Suspended
    | Complete e \<Rightarrow> bind_proc (or_throw (encodeStructuralExit codec e)) (\<lambda>encoded.
        bind_proc (write_checkpoint claim ?n encoded) (\<lambda>_. give (Complete (exitWithNullishValues e))))) :: (claim_state, wf_result) wf"
  let ?rest = "bind_proc (interruptRequested claim) (\<lambda>interrupted.
    if interrupted
    then bind_proc (modify (update_current (\<lambda>i. i\<lparr>in_interrupted := True, in_suspended := False\<rparr>))) (\<lambda>_. fail [Interrupt])
    else bind_proc (with_instance (intoResult w body)) ?settle)"
  from assms(1) obtain stored s1 where 1: "ends env (checkpoint claim ?n) s (Inr stored) s1"
    "stored = None \<longrightarrow> ends env ?rest s1 (Inr (Complete e)) s'"
    unfolding activityExecute_def Let_def by (rule ends_bind_InrE) (auto split: option.splits)
  note c = checkpoint_at [OF 1(1) spare]
  with 1(2) None have "ends env ?rest s1 (Inr (Complete e)) s'" by simp
  then obtain b s2 where 2: "ends env (interruptRequested claim) s1 (Inr b) s2"
    "ends env (if b then bind_proc (modify (update_current (\<lambda>i. i\<lparr>in_interrupted := True, in_suspended := False\<rparr>))) (\<lambda>_. fail [Interrupt])
      else bind_proc (with_instance (intoResult w body)) ?settle) s2 (Inr (Complete e)) s'" by (rule ends_bind_InrE)
  then have "\<not> b" by (auto simp: ends_bind)
  with 2(2) have "ends env (bind_proc (with_instance (intoResult w body)) ?settle) s2 (Inr (Complete e)) s'" by simp
  then obtain result s3 where 3: "ends env (with_instance (intoResult w body)) s2 (Inr result) s3"
    "ends env (?settle result) s3 (Inr (Complete e)) s'" by (rule ends_bind_InrE)
  have "?u s" using assms(3,4) None by (simp add: holds_cell_def)
  moreover have "env\<^sup>*\<^sup>* s s2" using c(2) readsD [OF reads_polymorphic(1) 2(1)] by simp
  ultimately have "?u s2" using unmoved_star [OF env] by blast
  moreover have "keeps env ?u (with_instance (intoResult w body))"
    by (rule keeps_run [OF env about_cell body])
  ultimately have u3: "?u s3" using keepsD [OF _ 3(1)] by blast
  obtain e0 where e0: "result = Complete e0" using 3(2) by (cases result) auto
  with 3(2) obtain encoded s4 where 4: "ends env (or_throw (encodeStructuralExit codec e0)) s3 (Inr encoded) s4"
    "ends env (bind_proc (write_checkpoint claim ?n encoded) (\<lambda>_. give (Complete (exitWithNullishValues e0)))) s4 (Inr (Complete e)) s'"
    by (auto elim: ends_bind_InrE)
  have enc: "encodeStructuralExit codec e0 = Inr encoded" "env\<^sup>*\<^sup>* s3 s4"
    using 4(1) by (cases "encodeStructuralExit codec e0"; simp)+
  from 4(2) obtain s5 where 5: "ends env (write_checkpoint claim ?n encoded) s4 (Inr ()) s5" "e = exitWithNullishValues e0" "env\<^sup>*\<^sup>* s5 s'"
    by (auto simp: ends_bind)
  have "stored_at claim ?n s5 = Some encoded" using written_at [OF 5(1) spare] unmoved_star [OF env enc(2) u3] by blast
  then have "stored_at claim ?n s' = Some encoded" using spare_star [OF spare 5(3)] by simp
  moreover have "outcome env w body e0" using 3(1) unfolding e0 outcome_def by blast
  ultimately show ?thesis using codec enc(1) 5(2) unfolding reads_back_def by blast
qed

text \<open>
  An activity that has completed is not executed again. Whenever a later run of the execution comes to the
  same attempt of the activity, with whatever body, it gets the exit that the first one got and executes no statement
  but reads, as long as nobody writes over the checkpoint and the codec reads back this exit.
\<close>

lemma activity_not_repeated:
  assumes "ends env (activityExecute codec claim w n a body) s (Inr (Complete e)) s1"
    and "spare claim (activityCheckpointName n a) env" "world_inv s" "own_claim claim s"
    and "keeps env (holds_cell claim (activityCheckpointName n a) None) body"
    and "\<forall>x. outcome env w body x \<longrightarrow> exitWithNullishValues x = e \<longrightarrow> reads_back codec x"
    and "stored_at claim (activityCheckpointName n a) s2 = stored_at claim (activityCheckpointName n a) s1"
    and "ac_queue later = ac_queue claim" "ac_taskId later = ac_taskId claim"
    and "ends env (activityExecute codec later w' n a body') s2 r s3"
  shows "env\<^sup>*\<^sup>* s2 s3 \<and> r = Inr (Complete e)"
proof -
  from activity_first [OF assms(1-6)] obtain v where
    v: "stored_at claim (activityCheckpointName n a) s1 = Some v" "decodeStructuralExit codec v = Inr e" by blast
  have same: "stored_at later m = (stored_at claim m :: claim_state \<Rightarrow> json option)" for m by (simp add: stored_at_def fun_eq_iff assms(8,9))
  have "spare later (activityCheckpointName n a) env" using assms(2) by (simp add: spare_def same)
  then show ?thesis using activity_stored [OF assms(10)] v assms(7) by (simp add: same)
qed

lemma demo_codec_reads: "reads_back demo_codec e"
  by (auto simp: reads_back_def encodeStructuralExit_def decodeStructuralExit_def demo_codec_def demo_encode_exit_def
      exitWithNullishValues_def or_null_def split: sum.splits option.splits if_splits)

end
