(* ===== verification/Workflow_Flow.thy ===== *)
theory Workflow_Flow
  imports Workflow_Engine
begin

text \<open>
  What a handler calls: an activity, the wait for a deferred, a durable sleep and the execution of a child, as Effect
  builds them on the engine; and handlers that are made of such operations.
\<close>

section \<open>The operations\<close>

text \<open>\<open>Activity.makeExecute\<close>; the spans and the latch that counts the activities under way are not modelled.\<close>

definition perform_activity ::
    "exit_codec \<Rightarrow> ActiveClaim \<Rightarrow> 'p workflow \<Rightarrow> string \<Rightarrow> int \<Rightarrow> (claim_state, json option) wf \<Rightarrow>
     (claim_state, json option) wf" where
  "perform_activity codec claim w activityName attempt body =
     bind_proc (activityExecute codec claim w activityName attempt body) (\<lambda>result.
       case result of
         Suspended \<Rightarrow> wf_suspend
       | Complete e \<Rightarrow> Exit e)"

text \<open>
  \<open>DurableClock.sleep\<close>: a sleep of at most the threshold, which is a minute unless the handler gives one, is an
  activity that waits in memory. Both are numbers of milliseconds, and a threshold of 0 counts as none, since the code
  tests its truth.
\<close>

definition clockDeferredName :: "string \<Rightarrow> string" where
  "clockDeferredName name = ''DurableClock/'' @ name"

definition memoryThreshold :: "rat option \<Rightarrow> rat" where
  "memoryThreshold inMemoryThreshold =
     (case inMemoryThreshold of None \<Rightarrow> 60000 | Some t \<Rightarrow> if t = 0 then 60000 else t)"

definition durable_sleep ::
    "exit_codec \<Rightarrow> ActiveClaim \<Rightarrow> 'p workflow \<Rightarrow> string \<Rightarrow> rat \<Rightarrow> rat option \<Rightarrow> int \<Rightarrow>
     (claim_state, json option) wf" where
  "durable_sleep codec claim w name duration inMemoryThreshold attempt =
     (if duration = 0 then give None
      else if duration \<le> memoryThreshold inMemoryThreshold
      then perform_activity codec claim w (clockDeferredName name) attempt (give None)
      else bind_proc (scheduleClock codec claim (ac_workflowTag claim) (ac_executionId claim) (clockDeferredName name) duration)
             (\<lambda>_. await_deferred codec claim (clockDeferredName name)))"

text \<open>
  \<open>WorkflowEngine.execute\<close> inside a handler, for a result; the finalizer that passes an interruption on to the child
  is not modelled.
\<close>

definition execute_child ::
    "QueueConfig list \<Rightarrow> 'p workflow \<Rightarrow> string \<Rightarrow> 'p \<Rightarrow> 'p workflow \<times> string \<Rightarrow> (claim_state, json option) wf" where
  "execute_child configs w executionId payload parent =
     bind_proc (engine_execute configs note_child w executionId payload (Some parent) False) (\<lambda>result.
       case result of
         Some (Complete e) \<Rightarrow> Exit e
       | _ \<Rightarrow> wf_suspend)"

section \<open>Handlers\<close>

text \<open>
  A handler that is made of operations: it ends with an exit, or performs an operation and goes on by its exit. It can
  recover from a typed failure, but a defect or an interruption of an operation ends it.
\<close>

datatype 'o flow = Done exit_value | Perform 'o "exit_value \<Rightarrow> 'o flow"

definition settled :: "exit_value \<Rightarrow> bool" where
  "settled e = (case e of Inr _ \<Rightarrow> True | Inl c \<Rightarrow> c \<noteq> [] \<and> list_all (\<lambda>r. case r of Fail _ \<Rightarrow> True | _ \<Rightarrow> False) c)"

primrec run_flow :: "('o \<Rightarrow> ('s, json option) wf) \<Rightarrow> 'o flow \<Rightarrow> ('s, json option) wf" where
  "run_flow perform (Done e) = Exit e"
| "run_flow perform (Perform op k) =
     match_proc (perform op) (\<lambda>e. if settled e then run_flow perform (k e) else Exit e)"

text \<open>The operations whose outcome the engine checkpoints.\<close>

datatype flow_op =
    Run_Activity string int "(claim_state, json option) wf"
  | Await_Deferred string

definition perform_op :: "exit_codec \<Rightarrow> 'p workflow \<Rightarrow> ActiveClaim \<Rightarrow> flow_op \<Rightarrow> (claim_state, json option) wf" where
  "perform_op codec w claim op =
     (case op of
        Run_Activity name attempt body \<Rightarrow> perform_activity codec claim w name attempt body
      | Await_Deferred name \<Rightarrow> await_deferred codec claim name)"

definition op_cell :: "flow_op \<Rightarrow> string" where
  "op_cell op =
     (case op of
        Run_Activity name attempt _ \<Rightarrow> activityCheckpointName name attempt
      | Await_Deferred name \<Rightarrow> deferredCheckpointName name)"

end
