(* ===== verification/Flow_Spec.thy ===== *)
theory Flow_Spec
  imports Activity_Spec Workflow_Flow Interrupt_Spec
begin

text \<open>
  Handlers made of durable operations: when a run of the handler has come to an end and its result was not committed, a
  later run comes to the same end over the checkpoints.
\<close>

section \<open>Programs that leave the queues alone\<close>

text \<open>Whatever can be said of the queues and is kept by the others still holds.\<close>

definition still :: "('w world_scheme \<Rightarrow> 'w world_scheme \<Rightarrow> bool) \<Rightarrow> 'w world_scheme \<Rightarrow> 'w world_scheme \<Rightarrow> bool" where
  "still env s s' \<longleftrightarrow> (\<forall>P. about_queues P \<longrightarrow> unmoved env P \<longrightarrow> P s \<longrightarrow> P s')"

definition quiet :: "('w world_scheme \<Rightarrow> 'w world_scheme \<Rightarrow> bool) \<Rightarrow> ('w world_scheme, 'e, 'a) proc \<Rightarrow> bool" where
  "quiet env p \<longleftrightarrow> (\<forall>P. about_queues P \<longrightarrow> unmoved env P \<longrightarrow> keeps env P p)"

lemma quietD: "quiet env p \<Longrightarrow> ends env p s r s' \<Longrightarrow> still env s s'"
  unfolding quiet_def still_def keeps_def by blast

lemma still_refl [simp]: "still env s s"
  by (simp add: still_def)

lemma still_trans: "still env s x \<Longrightarrow> still env x s' \<Longrightarrow> still env s s'"
  unfolding still_def by blast

lemma still_star: "env\<^sup>*\<^sup>* s s' \<Longrightarrow> still env s s'"
  unfolding still_def by (auto intro: unmoved_star)

lemma still_cell:
  assumes "spare claim n env" "still env s s'"
  shows "stored_at claim n s' = stored_at claim n s"
  using assms(2) [unfolded still_def, rule_format, of "\<lambda>x. stored_at claim n x = stored_at claim n s"] assms(1)
  by (auto simp: about_queues_def unmoved_def spare_def stored_at_def)

definition spare_all :: "ActiveClaim \<Rightarrow> ('w world_scheme \<Rightarrow> 'w world_scheme \<Rightarrow> bool) \<Rightarrow> bool" where
  "spare_all claim env \<longleftrightarrow> (\<forall>n. n \<noteq> interruptCheckpointName \<longrightarrow> spare claim n env)"

lemma still_all: "spare_all claim env \<Longrightarrow> still env s s' \<Longrightarrow> n \<noteq> interruptCheckpointName \<Longrightarrow> stored_at claim n s' = stored_at claim n s"
  by (rule still_cell) (auto simp: spare_all_def)

section \<open>Flows of any durable operations\<close>

primrec sound_flow :: "('o \<Rightarrow> bool) \<Rightarrow> 'o flow \<Rightarrow> bool" where
  "sound_flow sound (Done e) \<longleftrightarrow> True"
| "sound_flow sound (Perform op k) \<longleftrightarrow> sound op \<and> (\<forall>e. sound_flow sound (k e))"

text \<open>Flows that perform operations with the same cells; the bodies of activities may differ.\<close>

primrec alike :: "('o \<Rightarrow> string) \<Rightarrow> 'o flow \<Rightarrow> 'o flow \<Rightarrow> bool" where
  "alike cell (Done e) g \<longleftrightarrow> g = Done e"
| "alike cell (Perform op k) g \<longleftrightarrow> (\<exists>op' k'. g = Perform op' k' \<and> cell op' = cell op \<and> (\<forall>e. alike cell (k e) (k' e)))"

lemma alike_refl: "alike cell f f"
  by (induction f) auto

text \<open>The cells lead through the flow to the exit \<open>r\<close>.\<close>

primrec recorded ::
    "('o \<Rightarrow> string) \<Rightarrow> (json \<Rightarrow> exn + exit_value) \<Rightarrow> (string \<Rightarrow> json option) \<Rightarrow> 'o flow \<Rightarrow> exit_value \<Rightarrow> bool" where
  "recorded cell decode look (Done e) r \<longleftrightarrow> r = e"
| "recorded cell decode look (Perform op k) r \<longleftrightarrow>
     (\<exists>v e. look (cell op) = Some v \<and> decode v = Inr e \<and> settled e \<and> recorded cell decode look (k e) r)"

text \<open>What is left of a flow when the operations are skipped whose exits the cells hold.\<close>

primrec advance ::
    "('o \<Rightarrow> string) \<Rightarrow> (json \<Rightarrow> exn + exit_value) \<Rightarrow> (string \<Rightarrow> json option) \<Rightarrow> 'o flow \<Rightarrow> 'o flow" where
  "advance cell decode look (Done e) = Done e"
| "advance cell decode look (Perform op k) =
     (case Option.bind (look (cell op)) (\<lambda>v. case decode v of Inr e \<Rightarrow> Some e | Inl _ \<Rightarrow> None) of
        Some e \<Rightarrow> if settled e then advance cell decode look (k e) else Perform op k
      | None \<Rightarrow> Perform op k)"

lemma not_settled_Die [simp]: "\<not> settled (Inl [Die x])"
  by (simp add: settled_def)

locale durable_ops =
  fixes perform :: "ActiveClaim \<Rightarrow> 'o \<Rightarrow> (claim_state, json option) wf"
    and cell :: "'o \<Rightarrow> string"
    and decode :: "json \<Rightarrow> exn + exit_value"
    and sound :: "(claim_state \<Rightarrow> claim_state \<Rightarrow> bool) \<Rightarrow> ActiveClaim \<Rightarrow> 'o \<Rightarrow> bool"
  assumes cell_free: "cell op \<noteq> interruptCheckpointName"
    and first: "ends env (perform claim op) s r s' \<Longrightarrow> spare_all claim env \<Longrightarrow> sound env claim op \<Longrightarrow>
      world_inv s \<Longrightarrow> own_claim claim s \<Longrightarrow>
      world_inv s' \<and> own_claim claim s' \<and>
      (\<forall>n v. n \<noteq> interruptCheckpointName \<longrightarrow> stored_at claim n s = Some v \<longrightarrow> stored_at claim n s' = Some v) \<and>
      (settled r \<longrightarrow> (\<exists>v. stored_at claim (cell op) s' = Some v \<and> decode v = Inr r))"
    and again: "ends env (perform claim op) s r s' \<Longrightarrow> spare claim (cell op) env \<Longrightarrow>
      stored_at claim (cell op) s = Some v \<Longrightarrow> decode v = Inr e \<Longrightarrow>
      still env s s' \<and> r = e"
begin

lemma recorded_mono:
  assumes "\<forall>n v. n \<noteq> interruptCheckpointName \<longrightarrow> look n = Some v \<longrightarrow> look' n = Some v"
  shows "recorded cell decode look f r \<Longrightarrow> recorded cell decode look' f r"
  by (induction f) (use assms cell_free in auto)

lemma first_run:
  assumes "spare_all claim env"
  shows "ends env (run_flow (perform claim) f) s r s' \<Longrightarrow> sound_flow (sound env claim) f \<Longrightarrow> world_inv s \<Longrightarrow>
    own_claim claim s \<Longrightarrow>
    (\<forall>n v. n \<noteq> interruptCheckpointName \<longrightarrow> stored_at claim n s = Some v \<longrightarrow> stored_at claim n s' = Some v) \<and>
    (settled r \<longrightarrow> recorded cell decode (\<lambda>n. stored_at claim n s') f r)"
proof (induction f arbitrary: s)
  case (Done e)
  then have "env\<^sup>*\<^sup>* s s'" "r = e" by auto
  then show ?case using still_all [OF assms still_star] by auto
next
  case (Perform op k)
  from Perform.prems(1) obtain e s1 where 1: "ends env (perform claim op) s e s1"
    "ends env (if settled e then run_flow (perform claim) (k e) else Exit e) s1 r s'"
    by (auto simp: ends_match)
  have "sound env claim op" using Perform.prems(2) by simp
  note a = first [OF 1(1) assms this Perform.prems(3,4)]
  show ?case
  proof (cases "settled e")
    case True
    then have "ends env (run_flow (perform claim) (k e)) s1 r s'" using 1(2) by simp
    moreover have "sound_flow (sound env claim) (k e)" using Perform.prems(2) by simp
    ultimately have b: "\<forall>n v. n \<noteq> interruptCheckpointName \<longrightarrow> stored_at claim n s1 = Some v \<longrightarrow> stored_at claim n s' = Some v"
      "settled r \<longrightarrow> recorded cell decode (\<lambda>n. stored_at claim n s') (k e) r"
      using Perform.IH [OF rangeI [of k e]] a by blast+
    then show ?thesis using a True cell_free by (auto intro!: exI)
  next
    case False
    then have "env\<^sup>*\<^sup>* s1 s'" "r = e" using 1(2) by auto
    then show ?thesis using still_all [OF assms still_star] a False by auto
  qed
qed

lemma advance_cong:
  assumes "\<forall>n. n \<noteq> interruptCheckpointName \<longrightarrow> look' n = look n"
  shows "advance cell decode look' f = advance cell decode look f"
  using assms cell_free by (induction f) (auto split: option.splits)

lemma resume:
  assumes "spare_all claim env"
  shows "ends env (run_flow (perform claim) f) s r s' \<Longrightarrow>
    \<exists>s1. still env s s1 \<and> ends env (run_flow (perform claim) (advance cell decode (\<lambda>n. stored_at claim n s) f)) s1 r s'"
proof (induction f arbitrary: s)
  case (Perform op k)
  let ?look = "\<lambda>n. stored_at claim n s"
  show ?case
  proof (cases "\<exists>v e. stored_at claim (cell op) s = Some v \<and> decode v = Inr e \<and> settled e")
    case False
    then have "advance cell decode ?look (Perform op k) = Perform op k"
    proof (cases "stored_at claim (cell op) s")
      case (Some v)
      then show ?thesis using False by (cases "decode v") auto
    qed simp
    then show ?thesis using Perform.prems still_refl [of env s] by metis
  next
    case True
    then obtain v e where v: "stored_at claim (cell op) s = Some v" "decode v = Inr e" "settled e" by blast
    then have skip: "advance cell decode ?look (Perform op k) = advance cell decode ?look (k e)" by simp
    from Perform.prems obtain e' s1 where 1: "ends env (perform claim op) s e' s1"
      "ends env (if settled e' then run_flow (perform claim) (k e') else Exit e') s1 r s'"
      by (auto simp: ends_match)
    have "spare claim (cell op) env" using assms cell_free by (simp add: spare_all_def)
    note a = again [OF 1(1) this v(1,2)]
    then have "ends env (run_flow (perform claim) (k e)) s1 r s'" using 1(2) v(3) by simp
    note IH = Perform.IH [OF rangeI [of k e] this]
    have "advance cell decode (\<lambda>n. stored_at claim n s1) (k e) = advance cell decode ?look (k e)"
      by (rule advance_cong) (use still_all [OF assms] a in auto)
    then show ?thesis using IH a still_trans unfolding skip by metis
  qed
qed (auto intro: exI still_refl)

lemma replay:
  assumes "spare_all claim env"
  shows "ends env (run_flow (perform claim) g) s r' s' \<Longrightarrow> alike cell f g \<Longrightarrow>
    recorded cell decode (\<lambda>n. stored_at claim n s) f r \<Longrightarrow> still env s s' \<and> r' = r"
proof (induction f arbitrary: g s)
  case (Done e)
  then show ?case by (auto intro: still_star)
next
  case (Perform op k)
  from Perform.prems(2) obtain op' k' where g: "g = Perform op' k'" "cell op' = cell op" "\<forall>e. alike cell (k e) (k' e)"
    by auto
  from Perform.prems(1) [unfolded g(1)] obtain e' s1 where 1: "ends env (perform claim op') s e' s1"
    "ends env (if settled e' then run_flow (perform claim) (k' e') else Exit e') s1 r' s'"
    by (auto simp: ends_match)
  from Perform.prems(3) obtain v e where v: "stored_at claim (cell op') s = Some v" "decode v = Inr e" "settled e"
    "recorded cell decode (\<lambda>n. stored_at claim n s) (k e) r"
    by (auto simp: g(2))
  have "spare claim (cell op') env" using assms cell_free by (simp add: spare_all_def)
  note a = again [OF 1(1) this v(1,2)]
  then have "ends env (run_flow (perform claim) (k' e)) s1 r' s'" using 1(2) v(3) by simp
  moreover have "recorded cell decode (\<lambda>n. stored_at claim n s1) (k e) r"
    by (rule recorded_mono [OF _ v(4)]) (use still_all [OF assms] a in auto)
  ultimately have "still env s1 s' \<and> r' = r" using Perform.IH [OF rangeI [of k e]] g(3) by blast
  then show ?case using a still_trans by blast
qed

end

section \<open>The operations of the engine\<close>

lemma quiet_own:
  "quiet env (modify (update_current f))" "quiet env (note_pending g)" "quiet env wf_suspend"
  by (auto simp: quiet_def intro: keepsI)

lemma quiet_bind: "quiet env p \<Longrightarrow> (\<And>a. quiet env (k a)) \<Longrightarrow> quiet env (bind_proc p k)"
  by (auto simp: quiet_def intro!: keeps_bind)

lemma quiet_match: "quiet env p \<Longrightarrow> (\<And>r. quiet env (k r)) \<Longrightarrow> quiet env (match_proc p k)"
  by (auto simp: quiet_def intro!: keeps_match)

lemma quiet_statements: "quiet env (Exit r)" "quiet env (give a)" "quiet env (or_throw y)" "quiet env (get h)" "quiet env (fail c)"
  by (auto simp: quiet_def intro: keepsI)

lemma quiet_reads: "reads env p \<Longrightarrow> quiet env p"
  by (simp add: quiet_def keeps_reads)

lemma reserved_cells:
  "activityCheckpointName name attempt \<noteq> interruptCheckpointName" "deferredCheckpointName name \<noteq> interruptCheckpointName"
  by (simp_all add: name_defs)

text \<open>An activity performed over its checkpoint.\<close>

lemma activity_again:
  assumes "ends env (perform_activity codec claim w name attempt body) s r s'" "spare claim (activityCheckpointName name attempt) env"
    "stored_at claim (activityCheckpointName name attempt) s = Some v"
  shows "still env s s' \<and> (\<forall>e. decodeStructuralExit codec v = Inr e \<longrightarrow> r = e)"
proof -
  let ?act = "activityExecute codec claim w name attempt body"
  from assms(1) [unfolded perform_activity_def ends_bind [of env ?act]]
  consider c where "ends env ?act s (Inl c) s'"
    | b s1 where "ends env ?act s (Inr b) s1" "ends env (case b of Suspended \<Rightarrow> wf_suspend | Complete e \<Rightarrow> Exit e) s1 r s'"
    by blast
  then show ?thesis
  proof cases
    case 1
    then show ?thesis using activity_stored [OF 1 assms(2,3)] still_star by auto
  next
    case (2 b s1)
    obtain e where "env\<^sup>*\<^sup>* s s1" "b = Complete e" "decodeStructuralExit codec v = Inr e"
      using activity_stored [OF 2(1) assms(2,3)] by (cases "decodeStructuralExit codec v") auto
    then show ?thesis using 2(2) still_star [of env] by (simp add: rtranclp_trans)
  qed
qed

text \<open>An activity that gives no result has died, or was interrupted.\<close>

definition breaks_off :: "('s \<Rightarrow> 's \<Rightarrow> bool) \<Rightarrow> ('s, 'a) wf \<Rightarrow> bool" where
  "breaks_off env p \<longleftrightarrow> (\<forall>s c s'. ends env p s (Inl c) s' \<longrightarrow> \<not> settled (Inl c))"

named_theorems breaksI \<open>programs that fail only by a defect or an interruption\<close>

lemma breaks_bind [breaksI]: "breaks_off env p \<Longrightarrow> (\<And>a. breaks_off env (k a)) \<Longrightarrow> breaks_off env (bind_proc p k)"
  unfolding breaks_off_def ends_bind by blast

lemma breaks_statements [breaksI]:
  "breaks_off env (give a)" "breaks_off env (fail [Interrupt])" "breaks_off env (die x)" "breaks_off env (or_throw y)"
  "breaks_off env (get f)" "breaks_off env (modify g)" "breaks_off env (orDie m)"
  by (auto simp: breaks_off_def or_throw_def settled_def split: sum.splits dest!: orDie_fails)

lemma breaks_cause: "result_of_cause w i c = Inl c' \<Longrightarrow> \<not> settled (Inl c')"
  by (auto simp: result_of_cause_def Let_def settled_def is_die_def list_ex_iff list_all_iff filter_empty_conv
      split: if_splits reason.splits) (case_tac c'; auto)

lemma breaks_into [breaksI]: "breaks_off env (intoResult w p)"
proof -
  have 1: "breaks_off env (bind_proc (get current) (\<lambda>i. Exit (result_of_cause w i c)))" for c
    by (auto simp: breaks_off_def ends_bind dest: breaks_cause [OF sym])
  have "breaks_off env (suspendOnFailure w r)" for r
    by (auto simp: suspendOnFailure_def intro!: breaksI split: sum.splits)
  then have "breaks_off env (bind_proc (suspendOnFailure w r) (\<lambda>r'. case r' of Inr v \<Rightarrow> give (Complete (Inr v))
      | Inl c \<Rightarrow> bind_proc (get current) (\<lambda>i. Exit (result_of_cause w i c))))" for r
    by (auto intro!: breaksI 1 split: sum.splits)
  then show ?thesis unfolding intoResult_def by (auto simp: breaks_off_def ends_match)
qed

lemma breaks_instance [breaksI]: "breaks_off env p \<Longrightarrow> breaks_off env (with_instance p)"
  by (auto simp: breaks_off_def with_instance_def ends_bind ends_match)

lemma activity_breaks: "breaks_off env (activityExecute codec claim w name attempt body)"
  unfolding activityExecute_def Let_def checkpoint_def interruptRequested_def write_checkpoint_def
  by (auto intro!: breaksI split: option.splits wf_result.splits)

lemma deferred_breaks: "breaks_off env (deferredResult codec claim name)"
  unfolding deferredResult_def Let_def checkpoint_def write_checkpoint_def note_pending_def at_workflow_level_def
  by (auto intro!: breaksI split: option.splits)

text \<open>A deferred awaited over its checkpoint.\<close>

lemma note_pending_ends: "ends env (note_pending g) s r s' \<Longrightarrow> r = Inr ()"
  by (auto simp: note_pending_def at_workflow_level_def ends_bind split: if_splits)

lemma note_pending_then:
  assumes "ends env (bind_proc (note_pending g) k) s r s'"
  shows "\<exists>x. ends env (k ()) x r s'"
proof -
  from assms [unfolded ends_bind [of env "note_pending g"]] show ?thesis
  proof (elim disjE exE conjE)
    fix c assume "ends env (note_pending g) s (Inl c) s'"
    from note_pending_ends [OF this] show ?thesis by simp
  qed auto
qed

lemma deferred_stored:
  assumes "ends env (deferredResult codec claim name) s r s'" "spare claim (deferredCheckpointName name) env"
    "stored_at claim (deferredCheckpointName name) s = Some v"
  shows "still env s s'" "r = (case decodeStructuralExit codec v of Inl x \<Rightarrow> Inl [Die x] | Inr e \<Rightarrow> Inr (Some e))"
proof -
  let ?c = "checkpoint claim (deferredCheckpointName name) :: (claim_state, json option) wf"
  let ?found = "\<lambda>v. bind_proc (note_pending (set_delete name)) (\<lambda>_.
      bind_proc (or_throw (decodeStructuralExit codec v)) (\<lambda>e. give (Some e))) :: (claim_state, exit_value option) wf"
  obtain fresh where fresh: "deferredResult codec claim name = bind_proc ?c (\<lambda>stored. case stored of None \<Rightarrow> fresh | Some v \<Rightarrow> ?found v)"
    unfolding deferredResult_def Let_def by blast
  from assms(1) [unfolded fresh ends_bind [of env ?c]] obtain s1 where
    1: "ends env ?c s (Inr (Some v)) s1" "ends env (?found v) s1 r s'"
    using checkpoint_stored(1) [OF _ assms(2,3)] by (elim disjE exE conjE) fastforce+
  note c = checkpoint_stored(2) [OF 1(1) assms(2,3)]
  obtain s2 where 3: "ends env (bind_proc (or_throw (decodeStructuralExit codec v)) (\<lambda>e. give (Some e))) s2 r s'"
    using note_pending_then [OF 1(2)] by blast
  show "still env s s'" using still_trans [OF still_star [OF c] quietD [OF _ 1(2)]]
    by (simp add: quiet_bind quiet_own quiet_statements)
  show "r = (case decodeStructuralExit codec v of Inl x \<Rightarrow> Inl [Die x] | Inr e \<Rightarrow> Inr (Some e))"
    using 3 by (cases "decodeStructuralExit codec v") (auto simp: ends_bind)
qed

lemma await_split:
  assumes "ends env (await_deferred codec claim name) s r s'"
  obtains s1 x s2 where "still env s s1" "ends env (deferredResult codec claim name) s1 x s2"
    "case x of Inl c \<Rightarrow> r = Inl c \<and> s' = s2 | Inr y \<Rightarrow> ends env (case y of None \<Rightarrow> wf_suspend | Some e \<Rightarrow> Exit e) s2 r s'"
proof -
  from assms obtain s1 where 1: "ends env (modify (update_current
      (\<lambda>i. i\<lparr>in_awaitedDeferreds := set_add name (in_awaitedDeferreds i)\<rparr>))) s (Inr ()) s1"
    "ends env (bind_proc (deferredResult codec claim name) (\<lambda>r. case r of None \<Rightarrow> wf_suspend | Some e \<Rightarrow> Exit e)) s1 r s'"
    unfolding await_deferred_def ends_bind [of env "modify f" for f] by auto
  note a = quietD [OF quiet_own(1) 1(1)]
  from 1(2) [unfolded ends_bind] show ?thesis
  proof (elim disjE exE conjE)
    fix c assume "r = Inl c" "ends env (deferredResult codec claim name) s1 (Inl c) s'"
    then show ?thesis using that [OF a] by auto
  next
    fix y s2 assume "ends env (deferredResult codec claim name) s1 (Inr y) s2"
      "ends env (case y of None \<Rightarrow> wf_suspend | Some e \<Rightarrow> Exit e) s2 r s'"
    then show ?thesis using that [OF a] by auto
  qed
qed

lemma deferred_again:
  assumes "ends env (await_deferred codec claim name) s r s'" "spare claim (deferredCheckpointName name) env"
    "stored_at claim (deferredCheckpointName name) s = Some v"
  shows "still env s s' \<and> (\<forall>e. decodeStructuralExit codec v = Inr e \<longrightarrow> r = e)"
  using assms(1)
proof (rule await_split)
  fix s1 x s2
  assume 1: "still env s s1" "ends env (deferredResult codec claim name) s1 x s2"
    "case x of Inl c \<Rightarrow> r = Inl c \<and> s' = s2 | Inr y \<Rightarrow> ends env (case y of None \<Rightarrow> wf_suspend | Some e \<Rightarrow> Exit e) s2 r s'"
  have "stored_at claim (deferredCheckpointName name) s1 = Some v" using still_cell [OF assms(2) 1(1)] assms(3) by simp
  from deferred_stored [OF 1(2) assms(2) this]
  have "still env s s2" and x: "x = (case decodeStructuralExit codec v of Inl y \<Rightarrow> Inl [Die y] | Inr e \<Rightarrow> Inr (Some e))"
    using still_trans [OF 1(1)] by auto
  then show ?thesis using 1(3) still_trans [OF _ still_star] by (cases "decodeStructuralExit codec v") auto
qed

text \<open>The first time.\<close>

lemma deferred_first:
  assumes "ends env (deferredResult codec claim name) s (Inr (Some e)) s'" "spare claim (deferredCheckpointName name) env"
    "world_inv s" "own_claim claim s"
  shows "\<exists>v. stored_at claim (deferredCheckpointName name) s' = Some v \<and> decodeStructuralExit codec v = Inr e"
proof (cases "stored_at claim (deferredCheckpointName name) s")
  case (Some v)
  from deferred_stored [OF assms(1,2) Some] show ?thesis using still_cell [OF assms(2)] Some by (auto split: sum.splits)
next
  case None
  let ?n = "deferredCheckpointName name"
  let ?c = "checkpoint claim ?n :: (claim_state, json option) wf"
  let ?event = "orDie (store_eventPayload (ac_queue claim)
      (deferredEventName (ac_workflowTag claim) (ac_executionId claim) name)) :: (claim_state, json option) wf"
  let ?close = "\<lambda>v. bind_proc (note_pending (set_delete name)) (\<lambda>_.
      bind_proc (or_throw (decodeStructuralExit codec v)) (\<lambda>e. give (Some e))) :: (claim_state, exit_value option) wf"
  let ?rest = "bind_proc ?event (\<lambda>event. case event of
      None \<Rightarrow> bind_proc (note_pending (set_add name)) (\<lambda>_. give None)
    | Some v \<Rightarrow> bind_proc (write_checkpoint claim ?n v) (\<lambda>_. ?close v))"
  from assms(1) obtain stored s1 where 1: "ends env ?c s (Inr stored) s1"
    "stored = None \<longrightarrow> ends env ?rest s1 (Inr (Some e)) s'"
    unfolding deferredResult_def Let_def by (rule ends_bind_InrE) (auto split: option.splits)
  note c = checkpoint_at [OF 1(1) assms(2)]
  with 1(2) None have "ends env ?rest s1 (Inr (Some e)) s'" by simp
  then obtain event s2 where 2: "ends env ?event s1 (Inr event) s2"
    "ends env (case event of None \<Rightarrow> bind_proc (note_pending (set_add name)) (\<lambda>_. give None)
      | Some v \<Rightarrow> bind_proc (write_checkpoint claim ?n v) (\<lambda>_. ?close v)) s2 (Inr (Some e)) s'" by (rule ends_bind_InrE)
  from 2(2) obtain v where v: "ends env (bind_proc (write_checkpoint claim ?n v) (\<lambda>_. ?close v)) s2 (Inr (Some e)) s'"
    by (cases event) (auto simp: ends_bind)
  then obtain s3 where 3: "ends env (write_checkpoint claim ?n v) s2 (Inr ()) s3" "ends env (?close v) s3 (Inr (Some e)) s'"
    by (rule ends_bind_InrE) auto
  have "env\<^sup>*\<^sup>* s s2" using c(2) readsD [OF reads_queries(2) 2(1)] by simp
  then have "holds_cell claim ?n None s2"
    using unmoved_star [OF spare_unmoved [OF assms(2)]] assms(3,4) None by (auto simp: holds_cell_def)
  from written_at [OF 3(1) assms(2) this] have w: "stored_at claim ?n s3 = Some v" .
  have "still env s3 s'" using quietD [OF _ 3(2)] by (simp add: quiet_bind quiet_own quiet_statements)
  then have "stored_at claim ?n s' = Some v" using still_cell [OF assms(2)] w by simp
  moreover have "decodeStructuralExit codec v = Inr e"
    using 3(2) by (cases "decodeStructuralExit codec v") (auto simp: ends_bind)
  ultimately show ?thesis by blast
qed

text \<open>
  An operation is sound when the body of its activity writes no checkpoint of its own, and the codec reads back the
  values and the typed failures with which the body completes; nothing is asked for defects, which are not settled.
\<close>

definition sound_op ::
    "exit_codec \<Rightarrow> 'p workflow \<Rightarrow> (claim_state \<Rightarrow> claim_state \<Rightarrow> bool) \<Rightarrow> ActiveClaim \<Rightarrow> flow_op \<Rightarrow> bool" where
  "sound_op codec w env claim op =
     (case op of
        Run_Activity name attempt body \<Rightarrow>
          (\<forall>e. outcome env w body e \<longrightarrow> settled e \<longrightarrow> reads_back codec e) \<and>
          (\<forall>n m. n \<noteq> interruptCheckpointName \<longrightarrow> keeps env (holds_cell claim n m) body)
      | Await_Deferred name \<Rightarrow> True)"

lemma settled_nullish [simp]: "settled (exitWithNullishValues e) = settled e"
  by (cases e) (simp_all add: settled_def exitWithNullishValues_def)

lemma op_cell_free: "op_cell op \<noteq> interruptCheckpointName"
  by (cases op) (simp_all add: op_cell_def reserved_cells)

lemma keeps_op:
  assumes "spare claim n env" "sound_op codec w env claim op" "n \<noteq> op_cell op" "n \<noteq> interruptCheckpointName"
  shows "keeps env (holds_cell claim n m) (perform_op codec w claim op)"
proof (cases op)
  note env = spare_unmoved [OF assms(1), of m]
  note queries = keeps_reads [OF reads_checkpoint env] keeps_reads [OF reads_polymorphic(1) env] keeps_reads [OF reads_queries(2) env]
  case (Run_Activity name attempt body)
  have "keeps env (holds_cell claim n m) body" using assms(2,4) by (simp add: sound_op_def Run_Activity)
  note run = keeps_run [OF env about_cell this, of w]
  show ?thesis
    unfolding perform_op_def Run_Activity flow_op.case perform_activity_def activityExecute_def Let_def
    by (use assms(3) in \<open>auto simp: op_cell_def Run_Activity intro!: keepsI env run keeps_write [OF assms(1)] queries
        split: option.splits wf_result.splits\<close>)
next
  note env = spare_unmoved [OF assms(1), of m]
  note queries = keeps_reads [OF reads_checkpoint env] keeps_reads [OF reads_queries(2) env]
  case (Await_Deferred name)
  show ?thesis
    unfolding perform_op_def Await_Deferred flow_op.case await_deferred_def deferredResult_def Let_def
    by (use assms(3) in \<open>auto simp: op_cell_def Await_Deferred intro!: keepsI env keeps_write [OF assms(1)] queries
        split: option.splits\<close>)
qed

text \<open>The first time an operation is performed.\<close>

lemma perform_first:
  assumes "ends env (perform_op codec w claim op) s r s'" "spare_all claim env" "sound_op codec w env claim op"
    "world_inv s" "own_claim claim s" "settled r"
  shows "\<exists>v. stored_at claim (op_cell op) s' = Some v \<and> decodeStructuralExit codec v = Inr r"
proof (cases op)
  case (Run_Activity name attempt body)
  let ?act = "activityExecute codec claim w name attempt body" and ?n = "activityCheckpointName name attempt"
  have spare: "spare claim ?n env" using assms(2) reserved_cells by (simp add: spare_all_def)
  from assms(1) [unfolded Run_Activity perform_op_def flow_op.case perform_activity_def ends_bind [of env ?act]]
  consider c where "r = Inl c" "ends env ?act s (Inl c) s'"
    | b s1 where "ends env ?act s (Inr b) s1" "ends env (case b of Suspended \<Rightarrow> wf_suspend | Complete e \<Rightarrow> Exit e) s1 r s'"
    by blast
  then show ?thesis
  proof cases
    case 1
    then show ?thesis using activity_breaks assms(6) unfolding breaks_off_def by blast
  next
    case (2 b s1)
    have "b \<noteq> Suspended" using 2(2) assms(6) by (auto simp: wf_suspend_def ends_bind settled_def)
    then have b: "b = Complete r" "env\<^sup>*\<^sup>* s1 s'" using 2(2) by (cases b; simp)+
    have "keeps env (holds_cell claim ?n None) body"
      using assms(3) reserved_cells by (simp add: sound_op_def Run_Activity)
    moreover have "\<forall>x. outcome env w body x \<longrightarrow> exitWithNullishValues x = r \<longrightarrow> reads_back codec x"
      using assms(3,6) by (auto simp: sound_op_def Run_Activity)
    ultimately obtain v where "stored_at claim ?n s1 = Some v" "decodeStructuralExit codec v = Inr r"
      using activity_first [OF 2(1) [unfolded b(1)] spare assms(4,5)] by blast
    then show ?thesis using spare_star [OF spare b(2)] by (simp add: op_cell_def Run_Activity)
  qed
next
  case (Await_Deferred name)
  let ?n = "deferredCheckpointName name"
  have spare: "spare claim ?n env" using assms(2) reserved_cells by (simp add: spare_all_def)
  from assms(1) [unfolded Await_Deferred perform_op_def flow_op.case] show ?thesis
  proof (rule await_split)
    fix s1 x s2
    assume 1: "still env s s1" "ends env (deferredResult codec claim name) s1 x s2"
      "case x of Inl c \<Rightarrow> r = Inl c \<and> s' = s2 | Inr y \<Rightarrow> ends env (case y of None \<Rightarrow> wf_suspend | Some e \<Rightarrow> Exit e) s2 r s'"
    have "\<not> isl x" using 1(2,3) assms(6) deferred_breaks unfolding breaks_off_def by (cases x) auto
    then obtain y where y: "x = Inr y" by (cases x) auto
    have "y \<noteq> None"
    proof
      assume "y = None"
      then have "ends env wf_suspend s2 r s'" using 1(3) y by simp
      then show False using assms(6) by (auto simp: wf_suspend_def ends_bind settled_def)
    qed
    then have x: "x = Inr (Some r)" "env\<^sup>*\<^sup>* s2 s'" using 1(3) y by auto
    have "world_inv s1 \<and> own_claim claim s1"
    proof -
      have "holds_cell claim ?n (stored_at claim ?n s) s" using assms(4,5) by (simp add: holds_cell_def)
      then have "holds_cell claim ?n (stored_at claim ?n s) s1"
        using 1(1) about_cell spare_unmoved [OF spare] unfolding still_def by blast
      then show ?thesis by (simp add: holds_cell_def)
    qed
    then show ?thesis using deferred_first [OF 1(2) [unfolded x(1)] spare] spare_star [OF spare x(2)]
      by (simp add: op_cell_def Await_Deferred)
  qed
qed

lemma perform_again:
  assumes "ends env (perform_op codec w claim op) s r s'" "spare claim (op_cell op) env" "stored_at claim (op_cell op) s = Some v"
  shows "still env s s' \<and> (\<forall>e. decodeStructuralExit codec v = Inr e \<longrightarrow> r = e)"
  using assms activity_again deferred_again by (cases op) (simp_all add: perform_op_def op_cell_def)

text \<open>What an operation keeps: the well-formed queues, the claim, and what is in a checkpoint.\<close>

lemma perform_keeps:
  assumes "ends env (perform_op codec w claim op) s r s'" "spare_all claim env" "sound_op codec w env claim op"
    "world_inv s" "own_claim claim s"
  shows "world_inv s'" "own_claim claim s'"
    "n \<noteq> interruptCheckpointName \<Longrightarrow> stored_at claim n s = Some v \<Longrightarrow> stored_at claim n s' = Some v"
proof -
  have other: "holds_cell claim n (stored_at claim n s) s'" if "n \<noteq> op_cell op" "n \<noteq> interruptCheckpointName" for n
    using keepsD [OF keeps_op [OF _ assms(3) that] assms(1)] assms(2,4,5) that by (simp add: spare_all_def holds_cell_def)
  obtain n0 where "n0 \<notin> {op_cell op, interruptCheckpointName}"
    using ex_new_if_finite [OF infinite_UNIV_listI, of "{op_cell op, interruptCheckpointName}"] by auto
  then show "world_inv s'" "own_claim claim s'" using other [of n0] by (simp_all add: holds_cell_def)
  assume n: "n \<noteq> interruptCheckpointName" "stored_at claim n s = Some v"
  show "stored_at claim n s' = Some v"
  proof (cases "n = op_cell op")
    case False
    then show ?thesis using other [OF False n(1)] n(2) by (simp add: holds_cell_def)
  next
    case True
    have spare: "spare claim n env" using assms(2) n(1) by (simp add: spare_all_def)
    show ?thesis using perform_again [OF assms(1) spare [unfolded True] n(2) [unfolded True]] still_cell [OF spare, of s s'] n(2) by simp
  qed
qed

interpretation engine_ops: durable_ops "perform_op codec w" op_cell "decodeStructuralExit codec" "sound_op codec w"
  for codec w
proof unfold_locales
  show "op_cell op \<noteq> interruptCheckpointName" for op by (rule op_cell_free)
next
  fix env claim op s r s'
  assume "ends env (perform_op codec w claim op) s r s'" "spare_all claim env" "sound_op codec w env claim op"
    "world_inv s" "own_claim claim s"
  from perform_keeps [OF this] perform_first [OF this]
  show "world_inv s' \<and> own_claim claim s' \<and>
    (\<forall>n v. n \<noteq> interruptCheckpointName \<longrightarrow> stored_at claim n s = Some v \<longrightarrow> stored_at claim n s' = Some v) \<and>
    (settled r \<longrightarrow> (\<exists>v. stored_at claim (op_cell op) s' = Some v \<and> decodeStructuralExit codec v = Inr r))"
    by simp
next
  fix env claim op s r s' v e
  assume "ends env (perform_op codec w claim op) s r s'" "spare claim (op_cell op) env"
    "stored_at claim (op_cell op) s = Some v" "decodeStructuralExit codec v = Inr e"
  then show "still env s s' \<and> r = e" using perform_again [of env codec w claim op s r s' v] by auto
qed

section \<open>Recovery\<close>

lemma same_cells:
  assumes "ac_queue later = ac_queue claim" "ac_taskId later = ac_taskId claim"
  shows "stored_at later n s = stored_at claim n s"
  by (simp add: stored_at_def assms)

lemma recovered:
  assumes "ends env (run_flow (perform_op codec w claim) f) s r s1" "settled r"
    and "spare_all claim env" "sound_flow (sound_op codec w env claim) f" "world_inv s" "own_claim claim s"
    and "\<forall>n. n \<noteq> interruptCheckpointName \<longrightarrow> stored_at claim n s2 = stored_at claim n s1"
    and "ac_queue later = ac_queue claim" "ac_taskId later = ac_taskId claim"
    and "spare_all later env'" "alike op_cell f g" "ends env' (run_flow (perform_op codec w later) g) s2 r' s3"
  shows "still env' s2 s3 \<and> r' = r"
proof -
  have "recorded op_cell (decodeStructuralExit codec) (\<lambda>n. stored_at claim n s1) f r"
    using engine_ops.first_run [OF assms(3,1,4-6)] assms(2) by blast
  then have "recorded op_cell (decodeStructuralExit codec) (\<lambda>n. stored_at later n s2) f r"
    by (rule engine_ops.recorded_mono [rotated]) (simp add: same_cells [OF assms(8,9)] assms(7))
  from engine_ops.replay [OF assms(10,12,11) this] show ?thesis .
qed

text \<open>
  Property C7: a handler that is made of activities and waits for deferreds is replayed. When one of its runs has come to
  a result, a value or a typed failure, and a later run of the same task finds the checkpoints as that run left them,
  then whenever it ends it has given the same result: it does not suspend, does not die and writes nothing, and whatever
  its activities would do now is not executed. The codec must read back the values and typed failures with which the
  activities of the first run can complete; nothing is asked of it for defects. Other processes may call any stored
  function, but neither write the cells of this task nor clean it up.
\<close>

theorem flow_replayed:
  assumes "ends env (run_flow (perform_op codec w claim) f) s r s1" "settled r"
    and "spare_all claim env" "sound_flow (sound_op codec w env claim) f" "world_inv s" "own_claim claim s"
    and "\<forall>n. n \<noteq> interruptCheckpointName \<longrightarrow> stored_at claim n s2 = stored_at claim n s1"
    and "ac_queue later = ac_queue claim" "ac_taskId later = ac_taskId claim"
    and "spare_all later env'" "alike op_cell f g" "ends env' (run_flow (perform_op codec w later) g) s2 r' s3"
  shows "still env' s2 s3 \<and> r' = r"
  using assms by (rule recovered)

text \<open>
  Property C6: wherever a handler was broken off, a later run resumes it. Every execution of the handler over the
  checkpoints of its task is one of what is left of it when the operations are skipped whose exits are in the
  checkpoints, from a state whose queues only other processes have changed. The skipped operations neither die nor
  suspend nor write; what comes after them is executed as the code of the handler says. Other processes may call any
  stored function, but do not write the cells of this task.
\<close>

theorem flow_resumes:
  assumes "spare_all claim env" "ends env (run_flow (perform_op codec w claim) f) s r s'"
  shows "\<exists>s1. still env s s1 \<and>
      ends env (run_flow (perform_op codec w claim)
        (advance op_cell (decodeStructuralExit codec) (\<lambda>n. stored_at claim n s) f)) s1 r s'"
  using assms by (rule engine_ops.resume)

text \<open>A sleep that is not longer than the threshold is such an activity.\<close>

lemma short_sleep:
  assumes "duration \<noteq> 0" "duration \<le> memoryThreshold threshold"
  shows "durable_sleep codec claim w name duration threshold attempt =
    perform_op codec w claim (Run_Activity (clockDeferredName name) attempt (give None))"
  using assms by (simp add: durable_sleep_def perform_op_def)

text \<open>The demonstration: two activities, whose bodies would fail the second time.\<close>

definition demo_steps :: "(claim_state, json option) wf \<Rightarrow> flow_op flow" where
  "demo_steps body = Perform (Run_Activity ''fetch'' 1 body) (\<lambda>_. Perform (Run_Activity ''store'' 1 body) Done)"

definition demo_handler :: "(claim_state, json option) wf \<Rightarrow> json Registration" where
  "demo_handler body = (demo_registration False)\<lparr>wr_execute :=
     \<lambda>claim payload executionId. run_flow (perform_op demo_codec (demo_flow False) claim) (demo_steps body)\<rparr>"

lemma demo_steps_fit:
  "spare_all demo_own (\<lambda>_ _. False)" "sound_flow (sound_op demo_codec w (\<lambda>_ _. False) demo_own) (demo_steps (give v))"
  "alike op_cell (demo_steps body) (demo_steps body')"
proof -
  show "spare_all demo_own (\<lambda>_ _. False)" by (simp add: spare_all_def spare_def)
  have "unmoved (\<lambda>_ _. False) P" for P :: "claim_state \<Rightarrow> bool" by (simp add: unmoved_def)
  then show "sound_flow (sound_op demo_codec w (\<lambda>_ _. False) demo_own) (demo_steps (give v))"
    using demo_codec_reads by (simp add: demo_steps_def sound_op_def keeps_statements)
  show "alike op_cell (demo_steps body) (demo_steps body')" by (simp add: demo_steps_def op_cell_def)
qed

theorem flow_replayed_witness:
  "\<exists>s1. run_proc (run_flow (perform_op demo_codec (demo_flow False) demo_own) (demo_steps (give (Some (JNum 3))))) demo_started
       = (Inr (Some (JNum 3)), s1) \<and>
     fst (run_proc (run_flow (perform_op demo_codec (demo_flow False) demo_own) (demo_steps (fail [Interrupt]))) s1)
       = Inr (Some (JNum 3))"
proof -
  let ?alone = "\<lambda>_ _. False :: bool"
  let ?m = "run_proc (run_flow (perform_op demo_codec (demo_flow False) demo_own) (demo_steps (give (Some (JNum 3))))) demo_started"
  let ?l = "run_proc (run_flow (perform_op demo_codec (demo_flow False) demo_own) (demo_steps (fail [Interrupt]))) (snd ?m)"
  have "fst ?m = Inr (Some (JNum 3))" by code_simp
  then have m: "?m = (Inr (Some (JNum 3)), snd ?m)" by (metis prod.collapse)
  have l: "?l = (fst ?l, snd ?l)" by simp
  have "settled (Inr (Some (JNum 3)))" by (simp add: settled_def)
  from flow_replayed [OF run_proc_ends [OF m] this demo_steps_fit(1,2) demo_started_kept _ refl refl demo_steps_fit(1,3)
      run_proc_ends [OF l]]
  have "fst ?l = Inr (Some (JNum 3))" by blast
  with m show ?thesis by blast
qed

text \<open>The run was broken off after its first activity; the second is executed now, the first is not.\<close>

theorem flow_resumes_witness:
  "\<exists>s s1 s'. run_proc (perform_op demo_codec (demo_flow False) demo_own (Run_Activity ''fetch'' 1 (give (Some (JNum 3))))) demo_started
       = (Inr (Some (JNum 3)), s) \<and> still (\<lambda>_ _. False) s s1 \<and>
     run_proc (run_flow (perform_op demo_codec (demo_flow False) demo_own)
       (Perform (Run_Activity ''store'' 1 (fail [Interrupt])) Done)) s1 =
       (fst (run_proc (run_flow (perform_op demo_codec (demo_flow False) demo_own) (demo_steps (fail [Interrupt]))) s), s')"
proof -
  let ?alone = "\<lambda>_ _. False :: bool" and ?op = "perform_op demo_codec (demo_flow False) demo_own"
  let ?m = "run_proc (?op (Run_Activity ''fetch'' 1 (give (Some (JNum 3))))) demo_started"
  let ?l = "run_proc (run_flow ?op (demo_steps (fail [Interrupt]))) (snd ?m)"
  let ?look = "\<lambda>n. stored_at demo_own n (snd ?m)"
  have "fst ?m = Inr (Some (JNum 3))" by code_simp
  then have m: "?m = (Inr (Some (JNum 3)), snd ?m)" by (metis prod.collapse)
  have l: "?l = (fst ?l, snd ?l)" by simp
  have cells: "Option.bind (?look (activityCheckpointName ''fetch'' 1)) (\<lambda>v. case decodeStructuralExit demo_codec v of
      Inr e \<Rightarrow> Some e | Inl _ \<Rightarrow> None) = Some (Inr (Some (JNum 3)))"
    "?look (activityCheckpointName ''store'' 1) = None" by code_simp+
  have rest: "advance op_cell (decodeStructuralExit demo_codec) ?look (demo_steps (fail [Interrupt])) =
      Perform (Run_Activity ''store'' 1 (fail [Interrupt])) Done"
    using cells by (simp add: demo_steps_def op_cell_def settled_def)
  from flow_resumes [OF demo_steps_fit(1) run_proc_ends [OF l], unfolded rest] obtain s1 where
    "still ?alone (snd ?m) s1" "run_proc (run_flow ?op (Perform (Run_Activity ''store'' 1 (fail [Interrupt])) Done)) s1 = (fst ?l, snd ?l)"
    unfolding ends_alone by blast
  with m show ?thesis by blast
qed

text \<open>The handler around the flow: its result is that of the program, and what follows writes nothing.\<close>

lemma quiet_ends:
  "quiet env (on_interrupt r)" "quiet env (commit_boundary claim)" "quiet env (suspendOnFailure w r)"
proof -
  have own: "quiet env (modify (\<lambda>s. if in_interrupted (cl_root s) then s else s\<lparr>cl_root := f (cl_root s)\<rparr>))"
    "quiet env (modify (\<lambda>s. s\<lparr>cl_root := f (cl_root s)\<rparr>))" for f :: "wf_instance \<Rightarrow> wf_instance"
    by (auto simp: quiet_def about_queues_def intro!: keeps_modify)
  show "quiet env (on_interrupt r)"
    unfolding on_interrupt_def by (auto intro!: quiet_statements own split: sum.splits)
  show "quiet env (commit_boundary claim)"
    unfolding commit_boundary_def by (auto intro!: quiet_bind quiet_statements quiet_reads [OF reads_polymorphic(1)] own)
  show "quiet env (suspendOnFailure w r)"
    unfolding suspendOnFailure_def by (auto intro!: quiet_bind quiet_statements quiet_own split: sum.splits)
qed

text \<open>The read at the commit boundary succeeds, and a marker that it finds stays.\<close>

lemma marker_known:
  assumes "ends env (interruptRequested claim) s r s'" "own_claim claim s" "\<forall>s s'. env s s' \<longrightarrow> db_others s s'"
  shows "env\<^sup>*\<^sup>* s s'" "\<exists>b. r = Inr b \<and> (b \<longrightarrow> marked claim s')"
proof -
  have star: "env\<^sup>*\<^sup>* x y \<Longrightarrow> db_others x y" for x y by (rule db_others_star [of env]) (use assms(3) in blast)+
  let ?c = "checkpoint claim interruptCheckpointName"
  have read: "r = Inr v \<and> env\<^sup>*\<^sup>* s s' \<and> (v \<noteq> None \<longrightarrow> marked claim s')" if "ends env ?c s r s'" "\<not> isl r \<longrightarrow> r = Inr v" for r v s'
  proof -
    from that(1) obtain x y z where x: "env\<^sup>*\<^sup>* s x" "env\<^sup>*\<^sup>* y s'"
        "store_checkpointState (ac_queue claim) (ac_taskId claim) interruptCheckpointName x = (z, y)"
        "r = (case z of Inl e \<Rightarrow> Inl [Die e] | Inr a \<Rightarrow> Inr a)"
      unfolding checkpoint_def ends_orDie by blast
    have "own_claim claim x" using holds_run_later assms(2) star [OF x(1)] by blast
    then obtain q where q: "map_of (w_queues x) (ac_queue claim) = Some q" by (auto simp: holds_run_def)
    then have z: "y = x" "z = Inr (map_option (\<lambda>c. or_null (c_state c)) (get_task_checkpoint_state (ac_taskId claim) interruptCheckpointName q))"
      using x(3) by (auto simp: store_checkpointState_def sql_rows_eq)
    have "marked claim x" if "v \<noteq> None" using that z(2) x(4) \<open>\<not> isl r \<longrightarrow> r = Inr v\<close> q by (auto simp: marked_def)
    then show ?thesis using x(1,2,4) z marked_later star [OF x(2)] \<open>\<not> isl r \<longrightarrow> r = Inr v\<close> by auto
  qed
  have fails: "\<not> ends env ?c s (Inl c) y" for c y using read [of "Inl c" y] by auto
  from assms(1) [unfolded interruptRequested_def ends_bind [of env ?c]] fails obtain v s1 where
    v: "ends env ?c s (Inr v) s1" "r = Inr (v \<noteq> None)" "env\<^sup>*\<^sup>* s1 s'" by auto
  note v1 = read [OF v(1), of v]
  show "env\<^sup>*\<^sup>* s s'" using v1 v(3) by auto
  show "\<exists>b. r = Inr b \<and> (b \<longrightarrow> marked claim s')" using v1 v(2) marked_later star [OF v(3)] by auto
qed

lemma marked_still:
  assumes "still env s s'" "\<forall>s s'. env s s' \<longrightarrow> db_others s s'"
  shows "marked claim s \<Longrightarrow> marked claim s'" "own_claim claim s \<Longrightarrow> own_claim claim s'"
proof -
  have "about_queues (marked claim)" "about_queues (own_claim claim)"
    by (auto simp: about_queues_def marked_def holds_run_def)
  moreover have "unmoved env (marked claim)" "unmoved env (own_claim claim)"
    using assms(2) marked_later holds_run_later unfolding unmoved_def by blast+
  ultimately show "marked claim s \<Longrightarrow> marked claim s'" "own_claim claim s \<Longrightarrow> own_claim claim s'"
    using assms(1) unfolding still_def by blast+
qed

lemma boundary_passes:
  assumes "ends env (commit_boundary claim) s r s'" "own_claim claim s" "\<forall>s s'. env s s' \<longrightarrow> db_others s s'"
  shows "r = Inr () \<or> marked claim s'"
proof -
  from assms(1) obtain x s1 where x: "ends env (interruptRequested claim) s x s1"
    "case x of Inl c \<Rightarrow> True | Inr b \<Rightarrow> ends env (if \<not> b then give ()
       else bind_proc (modify (\<lambda>s. s\<lparr>cl_root := (cl_root s)\<lparr>in_interrupted := True, in_suspended := False\<rparr>\<rparr>)) (\<lambda>_. fail [Interrupt])) s1 r s'"
    unfolding commit_boundary_def ends_bind [of env "interruptRequested claim"] by fastforce
  from marker_known(2) [OF x(1) assms(2,3)] obtain b where b: "x = Inr b" "b \<longrightarrow> marked claim s1" by blast
  show ?thesis
  proof (cases b)
    case True
    have "quiet env (modify (\<lambda>s. s\<lparr>cl_root := f (cl_root s)\<rparr>))" for f :: "wf_instance \<Rightarrow> wf_instance"
      by (auto simp: quiet_def about_queues_def intro!: keeps_modify)
    then have "quiet env (bind_proc (modify (\<lambda>s. s\<lparr>cl_root := (cl_root s)\<lparr>in_interrupted := True, in_suspended := False\<rparr>\<rparr>))
        (\<lambda>_. fail [Interrupt] :: (claim_state, unit) wf))"
      by (intro quiet_bind quiet_statements)
    then have "still env s1 s'" using x(2) b True quietD by auto
    then show ?thesis using marked_still(1) [OF _ assms(3)] b True by blast
  qed (use x(2) b in auto)
qed

text \<open>A handler whose program returns completes with what it returned, unless an interruption has been requested.\<close>

lemma handler_returns:
  assumes "ends env (run_handler claim registration payload) s r s'" "\<forall>s s'. env s s' \<longrightarrow> db_others s s'"
    and "\<forall>r0 s1. ends env (wr_execute registration claim payload (ac_executionId claim)) s r0 s1 \<longrightarrow> r0 = Inr v \<and> own_claim claim s1 \<and> still env s s1"
  shows "still env s s' \<and> (\<not> marked claim s' \<longrightarrow> r = Inr (Complete (Inr v)))"
proof -
  let ?w = "wr_workflow registration" and ?body = "wr_execute registration claim payload (ac_executionId claim)"
  let ?give = "\<lambda>r'. (case r' of Inr v \<Rightarrow> give (Complete (Inr v))
      | Inl c \<Rightarrow> bind_proc (get current) (\<lambda>i. Exit (result_of_cause ?w i c))) :: (claim_state, wf_result) wf"
  from assms(1) obtain r1 s1 where 1: "ends env (onExit (onExit ?body on_interrupt) (\<lambda>_. commit_boundary claim)) s r1 s1"
    "ends env (bind_proc (suspendOnFailure ?w r1) ?give) s1 r s'"
    unfolding run_handler_def intoResult_def ends_match by blast
  from 1(1) obtain r2 s2 x s3 where 2: "ends env (onExit ?body on_interrupt) s r2 s2" "ends env (commit_boundary claim) s2 x s3"
    "ends env (case x of Inr _ \<Rightarrow> Exit r2 | Inl c \<Rightarrow> fail (case r2 of Inl c0 \<Rightarrow> causeCombine c0 c | Inr _ \<Rightarrow> c)) s3 r1 s1"
    unfolding onExit_def [of "onExit _ _"] ends_match by blast
  from 2(1) obtain r3 s4 y s5 where 3: "ends env ?body s r3 s4" "ends env (on_interrupt r3) s4 y s5"
    "ends env (case y of Inr _ \<Rightarrow> Exit r3 | Inl c \<Rightarrow> fail (case r3 of Inl c0 \<Rightarrow> causeCombine c0 c | Inr _ \<Rightarrow> c)) s5 r2 s2"
    unfolding onExit_def ends_match by blast
  have b: "r3 = Inr v" "own_claim claim s4" "still env s s4" using assms(3) 3(1) by blast+
  then have y: "y = Inr ()" "env\<^sup>*\<^sup>* s4 s5" using 3(2) by (simp_all add: on_interrupt_def)
  then have r2: "r2 = Inr v" "env\<^sup>*\<^sup>* s4 s2" using 3(3) b(1) by auto
  have "own_claim claim s2" using marked_still(2) [OF still_star [OF r2(2)] assms(2)] b(2) by blast
  note x = boundary_passes [OF 2(2) this assms(2)]
  have s3: "still env s2 s3" by (rule quietD [OF quiet_ends(2) 2(2)])
  have s1: "still env s3 s1" using 2(3) still_star by (cases x) auto
  have "quiet env (?give r')" for r' by (auto intro!: quiet_bind quiet_statements split: sum.splits)
  then have s': "still env s1 s'" using quietD [OF quiet_bind [OF quiet_ends(3)] 1(2)] by blast
  have "r = Inr (Complete (Inr v))" if "x = Inr ()"
  proof -
    have "r1 = Inr v" using 2(3) that r2(1) by simp
    then show ?thesis using 1(2) by (auto simp: suspendOnFailure_def ends_bind)
  qed
  moreover have "marked claim s'" if "marked claim s3"
    using marked_still(1) [OF still_trans [OF s1 s'] assms(2)] that by blast
  ultimately show ?thesis using x still_trans b(3) still_star [OF r2(2)] s3 s1 s' by blast
qed

lemma intoResult_parts:
  assumes "ends env (intoResult w p) s (Inr (Complete (Inr v))) s'"
  shows "\<exists>s1. ends env p s (Inr v) s1 \<and> still env s1 s'"
proof -
  let ?give = "\<lambda>r'. case r' of Inr v \<Rightarrow> give (Complete (Inr v))
      | Inl c \<Rightarrow> bind_proc (get current) (\<lambda>i. Exit (result_of_cause w i c))"
  from assms obtain r0 s1 where 1: "ends env p s r0 s1"
    "ends env (bind_proc (suspendOnFailure w r0) ?give) s1 (Inr (Complete (Inr v))) s'"
    unfolding intoResult_def ends_match by blast
  have "quiet env (?give r')" for r'
    by (auto intro!: quiet_bind quiet_statements split: sum.splits)
  then have "still env s1 s'" using quietD [OF quiet_bind [OF quiet_ends(3)] 1(2)] by blast
  moreover from 1(2) obtain r' s2 where 2: "ends env (suspendOnFailure w r0) s1 (Inr r') s2"
    "ends env (?give r') s2 (Inr (Complete (Inr v))) s'"
    by (rule ends_bind_InrE)
  have "r' = Inr v"
    using 2(2) by (cases r') (auto simp: ends_bind result_of_cause_def Let_def split: if_splits)
  then have "r0 = Inr v" using 2(1) by (cases r0) (auto simp: suspendOnFailure_def ends_bind split: if_splits)
  ultimately show ?thesis using 1(1) by blast
qed

lemma onExit_parts:
  assumes "ends env (onExit p finalizer) s (Inr v) s'" "\<And>r. quiet env (finalizer r)"
  shows "\<exists>s1. ends env p s (Inr v) s1 \<and> still env s1 s'"
proof -
  from assms(1) obtain r0 s1 x s2 where 1: "ends env p s r0 s1" "ends env (finalizer r0) s1 x s2"
    "ends env (case x of Inr _ \<Rightarrow> Exit r0 | Inl c \<Rightarrow> fail (case r0 of Inl c0 \<Rightarrow> causeCombine c0 c | Inr _ \<Rightarrow> c)) s2 (Inr v) s'"
    unfolding onExit_def ends_match by blast
  have "still env s1 s2" by (rule quietD [OF assms(2) 1(2)])
  moreover have "still env s2 s' \<and> r0 = Inr v" using 1(3) still_star by (cases x) auto
  ultimately show ?thesis using 1(1) still_trans by blast
qed

lemma handler_parts:
  assumes "ends env (run_handler claim registration payload) s (Inr (Complete (Inr v))) s'"
  shows "\<exists>s1. ends env (wr_execute registration claim payload (ac_executionId claim)) s (Inr v) s1 \<and> still env s1 s'"
proof -
  let ?p = "wr_execute registration claim payload (ac_executionId claim)"
  obtain s2 where 2: "ends env (onExit (onExit ?p on_interrupt) (\<lambda>_. commit_boundary claim)) s (Inr v) s2" "still env s2 s'"
    using intoResult_parts [OF assms [unfolded run_handler_def]] by blast
  obtain s1 where 1: "ends env (onExit ?p on_interrupt) s (Inr v) s1" "still env s1 s2"
    using onExit_parts [OF 2(1) quiet_ends(2)] by blast
  show ?thesis using onExit_parts [OF 1(1) quiet_ends(1)] still_trans [OF _ still_trans [OF 1(2) 2(2)]] by blast
qed

text \<open>
  Property C5: a workflow survives the crash of its worker. When the handler of a claim completed with a value but the
  worker went down before it could commit it, the handler of a later claim of the same task, whatever the bodies of its
  activities do now, writes nothing and, unless an interruption of the execution has been requested by then, completes
  with exactly that value; it does not die, suspend or give another one. As in the replay of the program itself the
  codec must read back the values and typed failures with which the activities of the first run can complete, and other
  processes may call any stored function but neither write the cells of this task nor clean it up.
\<close>

theorem crash_recovered:
  assumes "ends env (run_handler claim registration payload) s (Inr (Complete (Inr v))) s1"
    and "wr_execute registration claim payload (ac_executionId claim) = run_flow (perform_op codec w claim) f"
    and "spare_all claim env" "sound_flow (sound_op codec w env claim) f" "world_inv s" "own_claim claim s"
    and "\<forall>n. n \<noteq> interruptCheckpointName \<longrightarrow> stored_at claim n s2 = stored_at claim n s1"
    and "ac_queue later = ac_queue claim" "ac_taskId later = ac_taskId claim" "own_claim later s2"
    and "wr_execute registration' later payload (ac_executionId later) = run_flow (perform_op codec w later) g"
    and "spare_all later env'" "alike op_cell f g"
    and "ends env' (run_handler later registration' payload) s2 r s3"
  shows "still env' s2 s3 \<and> (\<not> marked later s3 \<longrightarrow> r = Inr (Complete (Inr v)))"
proof -
  from handler_parts [OF assms(1)] obtain a where a: "ends env (run_flow (perform_op codec w claim) f) s (Inr v) a" "still env a s1"
    by (auto simp: assms(2))
  have cells: "\<forall>n. n \<noteq> interruptCheckpointName \<longrightarrow> stored_at claim n s2 = stored_at claim n a"
    using still_all [OF assms(3) a(2)] assms(7) by simp
  have others: "\<forall>s s'. env' s s' \<longrightarrow> db_others s s'"
    using assms(12) reserved_cells(1) by (auto simp: spare_all_def spare_def)
  have "r0 = Inr v \<and> own_claim later b \<and> still env' s2 b"
    if "ends env' (wr_execute registration' later payload (ac_executionId later)) s2 r0 b" for r0 b
  proof -
    have "settled (Inr v)" by (simp add: settled_def)
    from recovered [OF a(1) this assms(3-6) cells assms(8,9,12,13) that [unfolded assms(11)]]
    show ?thesis using marked_still(2) [OF _ others] assms(10) by blast
  qed
  then show ?thesis using handler_returns [OF assms(14) others] by blast
qed

theorem crash_recovered_witness:
  "\<exists>s1. run_proc (run_handler demo_own (demo_handler (give (Some (JNum 3)))) (JNum 1)) demo_started
       = (Inr (Complete (Inr (Some (JNum 3)))), s1) \<and>
     w_queues (snd (run_proc (run_handler demo_own (demo_handler (fail [Die SchemaError])) (JNum 1)) s1)) = w_queues s1 \<and>
     fst (run_proc (run_handler demo_own (demo_handler (fail [Die SchemaError])) (JNum 1)) s1)
       = Inr (Complete (Inr (Some (JNum 3))))"
proof -
  let ?alone = "\<lambda>_ _. False :: bool"
  let ?m = "run_proc (run_handler demo_own (demo_handler (give (Some (JNum 3)))) (JNum 1)) demo_started"
  let ?l = "run_proc (run_handler demo_own (demo_handler (fail [Die SchemaError])) (JNum 1)) (snd ?m)"
  have "fst ?m = Inr (Complete (Inr (Some (JNum 3))))" by code_simp
  then have m: "?m = (Inr (Complete (Inr (Some (JNum 3)))), snd ?m)" by (metis prod.collapse)
  have l: "?l = (fst ?l, snd ?l)" by simp
  have handler: "wr_execute (demo_handler body) demo_own (JNum 1) (ac_executionId demo_own) =
      run_flow (perform_op demo_codec (demo_flow False) demo_own) (demo_steps body)" for body
    by (simp add: demo_handler_def)
  let ?marker = "\<lambda>s. case map_of (w_queues s) ''default'' of None \<Rightarrow> False
    | Some q \<Rightarrow> get_task_checkpoint_state 0 interruptCheckpointName q \<noteq> None"
  have "(case map_of (w_queues (snd ?m)) ''default'' of None \<Rightarrow> False
      | Some q \<Rightarrow> map_option r_task (find_run 1 q) = Some 0) = True" "?marker (snd ?l) = False" by code_simp+
  then have own: "own_claim demo_own (snd ?m)" and free: "\<not> marked demo_own (snd ?l)"
    by (auto simp: holds_run_def owned_by_def marked_def demo_own_fields split: option.splits)
  from crash_recovered [OF run_proc_ends [OF m] handler demo_steps_fit(1,2) demo_started_kept _ refl refl own handler
      demo_steps_fit(1,3) run_proc_ends [OF l]] free
  have 1: "still ?alone (snd ?m) (snd ?l)" "fst ?l = Inr (Complete (Inr (Some (JNum 3))))" by blast+
  have "w_queues (snd ?l) = w_queues (snd ?m)"
    using 1(1) [unfolded still_def, rule_format, of "\<lambda>x. w_queues x = w_queues (snd ?m)"] by (simp add: about_queues_def unmoved_def)
  with 1(2) m show ?thesis by blast
qed

end
