(* ===== verification/Clock_Spec.thy ===== *)
theory Clock_Spec
  imports Flow_Spec
begin

text \<open>
  Durable clocks: the deadline of the first scheduling is kept, and the clock does not ring before it.
\<close>

section \<open>Time\<close>

text \<open>The clock of the processes does not run backwards.\<close>

definition ticking :: "('w world_scheme \<Rightarrow> 'w world_scheme \<Rightarrow> bool) \<Rightarrow> bool" where
  "ticking env \<longleftrightarrow> (\<forall>s s'. env s s' \<longrightarrow> w_js_now s \<le> w_js_now s')"

lemma ticking_unmoved: "ticking env \<Longrightarrow> unmoved env (\<lambda>s. t \<le> w_js_now s)"
  unfolding ticking_def unmoved_def by (meson order_trans)

lemma keeps_orDie:
  assumes "unmoved env P" "\<And>s. P s \<Longrightarrow> P (snd (m s))"
  shows "keeps env P (orDie m)"
proof -
  have "P s'" if "P s" "ends env (orDie m) s r s'" for s r s'
  proof -
    from that(2) obtain s1 s2 z where "env\<^sup>*\<^sup>* s s1" "m s1 = (z, s2)" "env\<^sup>*\<^sup>* s2 s'" by (auto simp: ends_orDie)
    then show "P s'" using unmoved_star [OF assms(1)] assms(2) [of s1] that(1) by auto
  qed
  then show ?thesis unfolding keeps_def by blast
qed

lemma time_sql: "w_js_now (snd (sql_void n f s)) = w_js_now s"
  by (auto simp: sql_void_eq set_queue_def split: option.splits sum.splits)

lemma time_passes:
  assumes "ticking env"
  shows "ends env (write_checkpoint claim n v) s r s' \<Longrightarrow> w_js_now s \<le> w_js_now s'"
    "ends env (orDie (store_emitEvent q ev p)) s r s' \<Longrightarrow> w_js_now s \<le> w_js_now s'"
    "env\<^sup>*\<^sup>* s s' \<Longrightarrow> w_js_now s \<le> w_js_now s'"
proof -
  note env = ticking_unmoved [OF assms, of "w_js_now s"]
  have w: "keeps env (\<lambda>x. w_js_now s \<le> w_js_now x) (write_checkpoint claim n v)"
    unfolding write_checkpoint_def store_setCheckpointState_def by (rule keeps_orDie [OF env]) (simp add: time_sql)
  then show "ends env (write_checkpoint claim n v) s r s' \<Longrightarrow> w_js_now s \<le> w_js_now s'" using keepsD [OF w, of s r s'] by simp
  have e: "keeps env (\<lambda>x. w_js_now s \<le> w_js_now x) (orDie (store_emitEvent q ev p))"
    unfolding store_emitEvent_def by (rule keeps_orDie [OF env]) (simp add: time_sql)
  then show "ends env (orDie (store_emitEvent q ev p)) s r s' \<Longrightarrow> w_js_now s \<le> w_js_now s'" using keepsD [OF e, of s r s'] by simp
  show "env\<^sup>*\<^sup>* s s' \<Longrightarrow> w_js_now s \<le> w_js_now s'" using unmoved_star [OF env] by simp
qed

section \<open>The clock\<close>

text \<open>A checkpoint that is stored stays stored, even where events are emitted that wake waits for it.\<close>

lemma stored_kept: "db_others s s' \<Longrightarrow> stored_at claim n s \<noteq> None \<Longrightarrow> stored_at claim n s' \<noteq> None"
  by (auto simp: stored_at_def bind_eq_Some_conv) (metis db_othersD stored_later option.distinct(1) not_None_eq)

lemma emit_keeps_stored:
  assumes "ends env (orDie (store_emitEvent q ev p)) s r s'" "spare claim n env" "stored_at claim n s \<noteq> None"
  shows "stored_at claim n s' \<noteq> None"
proof -
  have "db_others s s'"
    by (rule lawful_ends [OF assms(1) lawful_emit, of "\<lambda>_. True"]) (use assms(2) in \<open>auto simp: spare_def\<close>)
  then show ?thesis using stored_kept assms(3) by blast
qed

text \<open>A clock that is due.\<close>

lemma clock_rings:
  assumes "ends env (bind_proc (or_throw (encodeStructuralExit codec e)) (\<lambda>completion.
      bind_proc (write_checkpoint claim n completion) (\<lambda>_. orDie (store_emitEvent q ev completion)))) s (Inr ()) s'"
    "holds_cell claim n None s" "spare claim n env" "ticking env"
  shows "stored_at claim n s' \<noteq> None \<and> w_js_now s \<le> w_js_now s'"
proof -
  from assms(1) obtain completion s1 where 1: "ends env (or_throw (encodeStructuralExit codec e)) s (Inr completion) s1"
    "ends env (bind_proc (write_checkpoint claim n completion) (\<lambda>_. orDie (store_emitEvent q ev completion))) s1 (Inr ()) s'"
    by (rule ends_bind_InrE)
  have star: "env\<^sup>*\<^sup>* s s1" using 1(1) by (cases "encodeStructuralExit codec e") auto
  from 1(2) obtain s2 where 2: "ends env (write_checkpoint claim n completion) s1 (Inr ()) s2"
    "ends env (orDie (store_emitEvent q ev completion)) s2 (Inr ()) s'" by (rule ends_bind_InrE) auto
  have "stored_at claim n s2 = Some completion"
    using written_at [OF 2(1) assms(3) unmoved_star [OF spare_unmoved [OF assms(3)] star assms(2)]] .
  then have "stored_at claim n s' \<noteq> None" using emit_keeps_stored [OF 2(2) assms(3)] by simp
  moreover have "w_js_now s \<le> w_js_now s1" "w_js_now s1 \<le> w_js_now s2" "w_js_now s2 \<le> w_js_now s'"
    using time_passes [OF assms(4)] star 2 by blast+
  ultimately show ?thesis by simp
qed

text \<open>What is done before the deadline is compared with the present time.\<close>

definition ring_clock :: "exit_codec \<Rightarrow> ActiveClaim \<Rightarrow> string \<Rightarrow> string \<Rightarrow> string \<Rightarrow> (claim_state, unit) wf" where
  "ring_clock codec claim tag x name =
     bind_proc (or_throw (encodeStructuralExit codec (Inr (Some JNull)))) (\<lambda>completion.
     bind_proc (write_checkpoint claim (deferredCheckpointName name) completion) (\<lambda>_.
       orDie (store_emitEvent (ac_queue claim) (deferredEventName tag x name) completion)))"

lemma clock_scheduled:
  assumes "ends env (scheduleClock codec claim tag x name duration) s (Inr ()) s'"
    and "spare claim (clockDeadlineCheckpointName name) env" "spare claim (deferredCheckpointName name) env" "ticking env"
    and "world_inv s" "own_claim claim s" "stored_at claim (deferredCheckpointName name) s = None"
    and "\<forall>j. stored_at claim (clockDeadlineCheckpointName name) s = Some j \<longrightarrow> (\<exists>d. j = JNum d)"
  obtains due now s3 where "w_js_now s \<le> now" "now \<le> w_js_now s3"
    "stored_at claim (clockDeadlineCheckpointName name) s3 = Some (JNum due)" "holds_cell claim (deferredCheckpointName name) None s3"
    "case stored_at claim (clockDeadlineCheckpointName name) s of Some j \<Rightarrow> j = JNum due | None \<Rightarrow> due = of_int now + duration"
    "ends env (if of_int now < due then give () else ring_clock codec claim tag x name) s3 (Inr ()) s'"
proof -
  let ?d = "clockDeadlineCheckpointName name" and ?n = "deferredCheckpointName name" and ?ring = "ring_clock codec claim tag x name"
  let ?keep = "\<lambda>due existing. (if existing = (None :: json option) then write_checkpoint claim ?d (JNum due) else give ()) :: (claim_state, unit) wf"
  let ?due = "\<lambda>existing now. case Option.bind existing json_number of Some t \<Rightarrow> t | None \<Rightarrow> of_int now + duration"
  note time = time_passes [OF assms(4)]
  from assms(1) obtain existing s1 where 1: "ends env (checkpoint claim ?d) s (Inr existing) s1"
    "ends env (bind_proc clock_now (\<lambda>now. bind_proc (?keep (?due existing now) existing) (\<lambda>_.
      if of_int now < ?due existing now then give () else ?ring))) s1 (Inr ()) s'"
    unfolding scheduleClock_def Let_def ring_clock_def [symmetric] by (rule ends_bind_InrE)
  note c = checkpoint_at [OF 1(1) assms(2)]
  from 1(2) obtain now s2 where 2: "ends env clock_now s1 (Inr now) s2"
    "ends env (bind_proc (?keep (?due existing now) existing) (\<lambda>_. if of_int now < ?due existing now then give () else ?ring)) s2 (Inr ()) s'"
    by (rule ends_bind_InrE)
  from 2(1) obtain sn where now: "env\<^sup>*\<^sup>* s1 sn" "env\<^sup>*\<^sup>* sn s2" "now = w_js_now sn" by (auto simp: clock_now_def)
  define due where "due = ?due existing now"
  from 2(2) obtain s3 where 3: "ends env (?keep due existing) s2 (Inr ()) s3"
    "ends env (if of_int now < due then give () else ?ring) s3 (Inr ()) s'"
    unfolding due_def by (rule ends_bind_InrE) auto
  have t: "w_js_now s \<le> now" "now \<le> w_js_now s2" using time(3) [OF rtranclp_trans [OF c(2) now(1)]] time(3) [OF now(2)] now(3) by auto
  have t3: "now \<le> w_js_now s3" using t(2) 3(1) time by (cases "existing = None") fastforce+
  have star: "env\<^sup>*\<^sup>* s s2" using c(2) now by simp
  have h2: "holds_cell claim m (stored_at claim m s) s2" if "spare claim m env" for m
    using unmoved_star [OF spare_unmoved [OF that] star] assms(5,6) by (simp add: holds_cell_def)
  show ?thesis
  proof (cases existing)
    case None
    then have w: "ends env (write_checkpoint claim ?d (JNum due)) s2 (Inr ()) s3" "due = of_int now + duration"
      using 3(1) by (simp_all add: due_def)
    have "?n \<noteq> ?d" by (simp add: name_defs)
    then have "holds_cell claim ?n None s3" using keepsD [OF keeps_write [OF assms(3)] w(1)] h2 [OF assms(3)] assms(7) by simp
    moreover have "stored_at claim ?d s3 = Some (JNum due)" using written_at [OF w(1) assms(2)] h2 [OF assms(2)] c(1) None by simp
    ultimately show ?thesis using that [OF t(1) t3 _ _ _ 3(2)] w(2) c(1) None by simp
  next
    case (Some j)
    then have j: "j = JNum due" "env\<^sup>*\<^sup>* s2 s3" using assms(8) c(1) 3(1) by (auto simp: due_def)
    have "holds_cell claim ?n None s3"
      using unmoved_star [OF spare_unmoved [OF assms(3)] j(2)] h2 [OF assms(3)] assms(7) by simp
    moreover have "stored_at claim ?d s3 = Some (JNum due)"
      using spare_star [OF assms(2) j(2)] h2 [OF assms(2)] c(1) Some j(1) by (simp add: holds_cell_def)
    ultimately show ?thesis using that [OF t(1) t3 _ _ _ 3(2)] c(1) [symmetric] Some j(1) by simp
  qed
qed

text \<open>
  Property C14: a durable clock keeps its first deadline and does not ring early. While its deferred is open, scheduling
  it takes the deadline that is stored, whatever duration is asked for now, or else the duration from the present time;
  afterwards either the deferred is completed, and the deadline has passed, or the deadline had not come, and is stored.
\<close>

theorem clock_keeps_deadline:
  assumes "ends env (scheduleClock codec claim tag x name duration) s (Inr ()) s'"
    and "spare claim (clockDeadlineCheckpointName name) env" "spare claim (deferredCheckpointName name) env" "ticking env"
    and "world_inv s" "own_claim claim s" "stored_at claim (deferredCheckpointName name) s = None"
    and "\<forall>j. stored_at claim (clockDeadlineCheckpointName name) s = Some j \<longrightarrow> (\<exists>d. j = JNum d)"
  shows "\<exists>due. (case stored_at claim (clockDeadlineCheckpointName name) s of
        Some j \<Rightarrow> j = JNum due
      | None \<Rightarrow> of_int (w_js_now s) + duration \<le> due \<and> due \<le> of_int (w_js_now s') + duration) \<and>
    (if stored_at claim (deferredCheckpointName name) s' = None
     then of_int (w_js_now s) < due \<and> stored_at claim (clockDeadlineCheckpointName name) s' = Some (JNum due)
     else due \<le> of_int (w_js_now s'))"
  using assms
proof (rule clock_scheduled)
  let ?d = "clockDeadlineCheckpointName name" and ?n = "deferredCheckpointName name"
  fix due now s3
  assume t: "w_js_now s \<le> now" "now \<le> w_js_now s3" and stored: "stored_at claim ?d s3 = Some (JNum due)" "holds_cell claim ?n None s3"
    and due: "case stored_at claim ?d s of Some j \<Rightarrow> j = JNum due | None \<Rightarrow> due = of_int now + duration"
    and e: "ends env (if of_int now < due then give () else ring_clock codec claim tag x name) s3 (Inr ()) s'"
  have first: "case stored_at claim ?d s of Some j \<Rightarrow> j = JNum due
      | None \<Rightarrow> of_int (w_js_now s) + duration \<le> due \<and> due \<le> of_int (w_js_now s') + duration" if "w_js_now s3 \<le> w_js_now s'"
    using due t that by (simp split: option.splits)
  show ?thesis
  proof (cases "of_int now < due")
    case True
    then have "env\<^sup>*\<^sup>* s3 s'" using e by simp
    then have "stored_at claim ?d s' = Some (JNum due)" "stored_at claim ?n s' = None" "w_js_now s3 \<le> w_js_now s'"
      using spare_star [OF assms(2), of s3 s'] spare_star [OF assms(3), of s3 s'] stored time_passes(3) [OF assms(4)]
      by (simp_all add: holds_cell_def)
    moreover have "of_int (w_js_now s) < due" using t(1) True by (meson le_less_trans of_int_le_iff)
    ultimately show ?thesis using first by (intro exI [of _ due]) simp
  next
    case False
    then have "ends env (ring_clock codec claim tag x name) s3 (Inr ()) s'" using e by simp
    from clock_rings [OF this [unfolded ring_clock_def] stored(2) assms(3,4)]
    have r: "stored_at claim ?n s' \<noteq> None" "w_js_now s3 \<le> w_js_now s'" by blast+
    moreover have "due \<le> of_int (w_js_now s')"
      using False t(2) r(2) by (meson not_less of_int_le_iff order_trans)
    ultimately show ?thesis using first by (intro exI [of _ due]) (simp del: not_None_eq)
  qed
qed

text \<open>The demonstration: a clock of two minutes, scheduled at its beginning, is not due.\<close>

theorem clock_keeps_deadline_witness:
  "\<exists>s' due. run_proc (scheduleClock demo_codec demo_own ''flow'' ''x'' (clockDeferredName ''nap'') 120000) demo_started = (Inr (), s') \<and>
     stored_at demo_own (clockDeadlineCheckpointName (clockDeferredName ''nap'')) s' = Some (JNum due) \<and>
     of_int (w_js_now demo_started) + 120000 \<le> due"
proof -
  let ?alone = "\<lambda>_ _. False :: bool" and ?c = "clockDeferredName ''nap''"
  let ?m = "run_proc (scheduleClock demo_codec demo_own ''flow'' ''x'' ?c 120000) demo_started"
  have "fst ?m = Inr ()" by code_simp
  then have m: "?m = (Inr (), snd ?m)" by (metis prod.collapse)
  have spare: "spare demo_own n ?alone" "ticking ?alone" for n by (simp_all add: spare_def ticking_def)
  have none: "stored_at demo_own (deferredCheckpointName ?c) demo_started = None"
    "stored_at demo_own (clockDeadlineCheckpointName ?c) demo_started = None"
    by code_simp+
  have open_still: "stored_at demo_own (deferredCheckpointName ?c) (snd ?m) = None" by code_simp
  from clock_keeps_deadline [OF run_proc_ends [OF m] spare(1) spare demo_started_kept none(1)] none(2) open_still
  show ?thesis using m by auto
qed

end
