(* ===== verification/Cleanup.thy ===== *)
theory Cleanup
  imports Store_Spec
begin

text \<open>
  Retention: \<open>cleanup_tasks\<close> and \<open>cleanup_events\<close> of \<open>sql/absurd.sql\<close>, which operators run, and what they leave of a
  queue. They are no steps of \<open>queue_step\<close>: what is final there is final until it is cleaned up.
\<close>

section \<open>Tasks\<close>

text \<open>The time at which a task ended: of its last run, or of its cancellation.\<close>

definition ended_at :: "qstate \<Rightarrow> task_row \<Rightarrow> int option" where
  "ended_at q t =
     (let r = Option.bind (t_last_attempt_run t) (\<lambda>i. find_run i q)
      in case t_state t of
           Completed \<Rightarrow> Option.bind r r_completed_at
         | Failed \<Rightarrow> Option.bind r r_failed_at
         | Cancelled \<Rightarrow> t_cancelled_at t
         | _ \<Rightarrow> None)"

definition ended_before :: "int \<Rightarrow> qstate \<Rightarrow> task_row \<Rightarrow> bool" where
  "ended_before cutoff q t \<longleftrightarrow>
     terminal (t_state t) \<and> (case ended_at q t of None \<Rightarrow> False | Some e \<Rightarrow> e < cutoff)"

text \<open>\<open>LIMIT\<close>: null is no limit. Rows with the same time are taken in the order of the table.\<close>

definition limit_rows :: "int option \<Rightarrow> 'r list \<Rightarrow> 'r list" where
  "limit_rows limit rs = (case limit of None \<Rightarrow> rs | Some n \<Rightarrow> take (nat n) rs)"

definition tasks_to_delete :: "int \<Rightarrow> int option \<Rightarrow> qstate \<Rightarrow> uuid list" where
  "tasks_to_delete cutoff limit q =
     map t_id (limit_rows limit (sort_key (\<lambda>t. the (ended_at q t)) (filter (ended_before cutoff q) (tasks q))))"

definition delete_tasks :: "uuid list \<Rightarrow> qstate \<Rightarrow> qstate" where
  "delete_tasks ids q =
     q\<lparr>waits := tbl_delete (\<lambda>w. w_task w \<in> set ids) (waits q),
       checkpoints := tbl_delete (\<lambda>c. c_task c \<in> set ids) (checkpoints q),
       runs := tbl_delete (\<lambda>r. r_task r \<in> set ids) (runs q),
       idempotency := (if q_mode q = Partitioned then tbl_delete (\<lambda>(k, i). i \<in> set ids) (idempotency q) else idempotency q),
       tasks := tbl_delete (\<lambda>t. t_id t \<in> set ids) (tasks q)\<rparr>"

definition negative_limit :: pg_error where
  "negative_limit = PgError ''2201W'' ''LIMIT must not be negative''"

definition check_retention :: "int option \<Rightarrow> int option \<Rightarrow> pg_error option" where
  "check_retention ttl limit =
     (if ttl = None \<or> the ttl < 0 then Some (raise_exception ''TTL must be a non-negative number of seconds'')
      else if limit \<noteq> None \<and> the limit < 0 then Some negative_limit
      else None)"

definition cleanup_tasks :: "int \<Rightarrow> int option \<Rightarrow> int option \<Rightarrow> qstate \<Rightarrow> pg_error + int \<times> qstate" where
  "cleanup_tasks now ttl limit q =
     (case check_retention ttl limit of
        Some e \<Rightarrow> Inl e
      | None \<Rightarrow>
          let ids = tasks_to_delete (now - the ttl * second) limit q
          in Inr (int (length (filter (\<lambda>t. t_id t \<in> set ids) (tasks q))), delete_tasks ids q))"

section \<open>Events\<close>

definition events_to_delete :: "int \<Rightarrow> int option \<Rightarrow> qstate \<Rightarrow> string list" where
  "events_to_delete cutoff limit q =
     map e_name (limit_rows limit (sort_key e_emitted_at (filter (\<lambda>e. e_emitted_at e < cutoff) (events q))))"

definition cleanup_events :: "int \<Rightarrow> int option \<Rightarrow> int option \<Rightarrow> qstate \<Rightarrow> pg_error + int \<times> qstate" where
  "cleanup_events now ttl limit q =
     (case check_retention ttl limit of
        Some e \<Rightarrow> Inl e
      | None \<Rightarrow>
          let names = events_to_delete (now - the ttl * second) limit q
          in Inr (int (length (filter (\<lambda>e. e_name e \<in> set names) (events q))),
               q\<lparr>events := tbl_delete (\<lambda>e. e_name e \<in> set names) (events q)\<rparr>))"

section \<open>What is left\<close>

lemma in_limit_rows: "x \<in> set (limit_rows limit rs) \<Longrightarrow> x \<in> set rs"
  by (auto simp: limit_rows_def split: option.splits dest: in_set_takeD)

lemma limit_rows_map: "limit_rows limit (map f rs) = map f (limit_rows limit rs)"
  by (simp add: limit_rows_def take_map split: option.splits)

text \<open>The number of rows with one of the keys, when the keys are unique.\<close>

lemma count_keys:
  assumes "distinct (map k rs)" "distinct ids" "set ids \<subseteq> k ` set rs"
  shows "length (filter (\<lambda>r. k r \<in> set ids) rs) = length ids"
proof -
  have "distinct (map k (filter (\<lambda>r. k r \<in> set ids) rs))" using assms(1) by (rule distinct_map_filter)
  moreover have "set (map k (filter (\<lambda>r. k r \<in> set ids) rs)) = set ids" using assms(3) by auto
  ultimately show ?thesis using assms(2) by (metis distinct_card length_map)
qed

lemma limited:
  assumes "distinct (map k rs)"
  shows "distinct (map k (limit_rows limit (sort_key g (filter P rs))))"
    "set (map k (limit_rows limit (sort_key g (filter P rs)))) \<subseteq> k ` set (filter P rs)"
    "limit = Some l \<Longrightarrow> 0 \<le> l \<Longrightarrow> int (length (map k (limit_rows limit (sort_key g (filter P rs))))) \<le> l"
proof -
  have "distinct (map k (sort_key g (filter P rs)))"
  proof -
    have "inj_on k (set rs)" "distinct rs" using assms by (simp_all add: distinct_map)
    then show ?thesis by (auto simp: distinct_map intro: inj_on_subset)
  qed
  then show "distinct (map k (limit_rows limit (sort_key g (filter P rs))))"
    by (simp add: limit_rows_def take_map [symmetric] distinct_take split: option.splits)
  show "set (map k (limit_rows limit (sort_key g (filter P rs)))) \<subseteq> k ` set (filter P rs)"
    using in_limit_rows by fastforce
  show "limit = Some l \<Longrightarrow> 0 \<le> l \<Longrightarrow> int (length (map k (limit_rows limit (sort_key g (filter P rs))))) \<le> l"
    by (simp add: limit_rows_def)
qed

lemma delete_core:
  assumes "core_inv ts rs n"
  shows "core_inv (tbl_delete (\<lambda>t. t_id t \<in> S) ts) (tbl_delete (\<lambda>r. r_task r \<in> S) rs) n"
proof -
  have "\<exists>r \<in> {r \<in> set rs. r_task r \<notin> S}. newest_run t r" if "t \<in> set ts" "t_id t \<notin> S" for t
  proof -
    from core_inv_newest [OF assms that(1)] obtain r where "r \<in> set rs" "newest_run t r" by blast
    then show ?thesis using that(2) by (intro bexI [of _ r]) (auto simp: newest_run_def)
  qed
  moreover have "r_task r \<in> t_id ` {t \<in> set ts. t_id t \<notin> S}" if "r \<in> set rs" "r_task r \<notin> S" for r
    using assms that unfolding core_inv_def by force
  ultimately show ?thesis
    using assms unfolding core_inv_def tbl_delete_def set_filter not_not
    by (intro conjI ballI distinct_map_filter) (simp_all del: not_not)
qed

lemma delete_tasks_inv:
  assumes "queue_inv q"
  shows "queue_inv (delete_tasks ids q)"
proof -
  have "\<exists>r \<in> set (runs (delete_tasks ids q)). waits_for w r" if "w \<in> set (waits q)" "w_task w \<notin> set ids" for w
  proof -
    from assms that(1) obtain r where r: "r \<in> set (runs q)" "waits_for w r" by (auto simp: queue_inv_def wait_inv_def)
    then have "r_task r = w_task w" by (simp add: waits_for_def)
    then show ?thesis using r that(2) by (intro bexI [of _ r]) (simp_all add: delete_tasks_def tbl_delete_def)
  qed
  then have "wait_inv (waits (delete_tasks ids q)) (runs (delete_tasks ids q))"
    using assms by (simp add: queue_inv_def wait_inv_def delete_tasks_def tbl_delete_def distinct_map_filter)
  moreover have "core_inv (tasks (delete_tasks ids q)) (runs (delete_tasks ids q)) (uuids q)"
    using delete_core assms by (simp add: queue_inv_def delete_tasks_def)
  ultimately show ?thesis
    using assms by (simp add: queue_inv_def key_inv_def) (simp add: delete_tasks_def tbl_delete_def distinct_map_filter)
qed

lemma cleanup_tasks_parts:
  assumes "queue_inv q" "cleanup_tasks now ttl limit q = Inr (n, q')"
  obtains ids where "q' = delete_tasks ids q" "n = int (length ids)" "distinct ids"
    "\<And>i. i \<in> set ids \<Longrightarrow> \<exists>t \<in> set (tasks q). t_id t = i \<and> ended_before (now - the ttl * second) q t"
    "\<And>l. limit = Some l \<Longrightarrow> n \<le> l"
    "\<And>t. t \<in> set (tasks q) \<Longrightarrow> ended_before (now - the ttl * second) q t \<Longrightarrow> (case limit of None \<Rightarrow> True | Some l \<Rightarrow> n < l) \<Longrightarrow>
      t_id t \<in> set ids"
proof -
  let ?c = "now - the ttl * second"
  let ?old = "filter (ended_before ?c q) (tasks q)"
  define ids where "ids = tasks_to_delete ?c limit q"
  from assms(2) have c: "check_retention ttl limit = None" "q' = delete_tasks ids q"
    and n: "n = int (length (filter (\<lambda>t. t_id t \<in> set ids) (tasks q)))"
    by (auto simp: cleanup_tasks_def Let_def ids_def split: option.splits)
  have d: "distinct (map t_id (tasks q))" using assms(1) by (simp add: queue_inv_def core_inv_def)
  note l = limited [OF d, where limit = limit and g = "\<lambda>t. the (ended_at q t)" and P = "ended_before ?c q", folded tasks_to_delete_def ids_def]
  have sub: "set ids \<subseteq> t_id ` set (tasks q)" using l(2) by auto
  have len: "n = int (length ids)" using count_keys [OF d l(1) sub] n by simp
  have all: "t_id t \<in> set ids" if "t \<in> set (tasks q)" "ended_before ?c q t" "case limit of None \<Rightarrow> True | Some l \<Rightarrow> n < l" for t
  proof -
    have "limit_rows limit (sort_key (\<lambda>t. the (ended_at q t)) ?old) = sort_key (\<lambda>t. the (ended_at q t)) ?old"
      using that(3) len by (auto simp: ids_def tasks_to_delete_def limit_rows_def split: option.splits)
    then show ?thesis using that(1,2) by (simp add: ids_def tasks_to_delete_def)
  qed
  have "0 \<le> k" if "limit = Some k" for k using c(1) that by (auto simp: check_retention_def split: if_splits)
  then show ?thesis using that [of ids] c(2) len l all by fastforce
qed

text \<open>
  Property C32: cleaning up tasks keeps the tables consistent and takes nothing but what is old. It deletes at most the
  requested number of tasks, all of which ended before the retention time, and leaves nothing of them behind: no run, no
  checkpoint, no wait, and in a partitioned queue no row of the idempotency table. Every other task keeps its row, its
  runs, its checkpoints, its waits and its idempotency rows; no event is touched; and when it deletes fewer than it
  may, no old task is left. What is consistent is what \<open>queue_inv\<close> says of tasks, runs, waits and keys.
\<close>

theorem cleanup_tasks_exact:
  assumes "queue_inv q" "cleanup_tasks now ttl limit q = Inr (n, q')"
  shows "queue_inv q' \<and> n = int (length (tasks q)) - int (length (tasks q')) \<and> (\<forall>l. limit = Some l \<longrightarrow> n \<le> l) \<and>
    events q' = events q \<and> (\<forall>t \<in> set (tasks q).
       if t \<in> set (tasks q')
       then filter (\<lambda>r. r_task r = t_id t) (runs q') = filter (\<lambda>r. r_task r = t_id t) (runs q) \<and>
         filter (\<lambda>c. c_task c = t_id t) (checkpoints q') = filter (\<lambda>c. c_task c = t_id t) (checkpoints q) \<and>
         filter (\<lambda>w. w_task w = t_id t) (waits q') = filter (\<lambda>w. w_task w = t_id t) (waits q) \<and>
         filter (\<lambda>(k, i). i = t_id t) (idempotency q') = filter (\<lambda>(k, i). i = t_id t) (idempotency q) \<and>
         (ended_before (now - the ttl * second) q t \<longrightarrow> limit = Some n)
       else ended_before (now - the ttl * second) q t \<and> (\<forall>r \<in> set (runs q'). r_task r \<noteq> t_id t) \<and>
         (\<forall>c \<in> set (checkpoints q'). c_task c \<noteq> t_id t) \<and> (\<forall>w \<in> set (waits q'). w_task w \<noteq> t_id t) \<and>
         (q_mode q = Partitioned \<longrightarrow> (\<forall>(k, i) \<in> set (idempotency q'). i \<noteq> t_id t)))"
  using assms
proof (rule cleanup_tasks_parts)
  fix ids
  let ?c = "now - the ttl * second"
  assume q': "q' = delete_tasks ids q" and n: "n = int (length ids)" "distinct ids" "\<And>l. limit = Some l \<Longrightarrow> n \<le> l"
    and old: "\<And>i. i \<in> set ids \<Longrightarrow> \<exists>t \<in> set (tasks q). t_id t = i \<and> ended_before ?c q t"
    and all: "\<And>t. t \<in> set (tasks q) \<Longrightarrow> ended_before ?c q t \<Longrightarrow> (case limit of None \<Rightarrow> True | Some l \<Rightarrow> n < l) \<Longrightarrow> t_id t \<in> set ids"
  have d: "distinct (map t_id (tasks q))" using assms(1) by (simp add: queue_inv_def core_inv_def)
  have "length (filter (\<lambda>t. t_id t \<in> set ids) (tasks q)) = length ids" using count_keys [OF d n(2)] old by blast
  then have "n = int (length (tasks q)) - int (length (tasks q'))"
    using n(1) sum_length_filter_compl [of "\<lambda>t. t_id t \<in> set ids" "tasks q"] by (simp add: q' delete_tasks_def tbl_delete_def)
  moreover have "ended_before ?c q t \<longrightarrow> limit = Some n" if "t \<in> set (tasks q)" "t_id t \<notin> set ids" for t
    using all [OF that(1)] that(2) n(3) by (cases limit) force+
  moreover have "ended_before ?c q t" if "t \<in> set (tasks q)" "t_id t \<in> set ids" for t
    using old [OF that(2)] that(1) key_inj [OF d] by blast
  ultimately show ?thesis
    using n(3) delete_tasks_inv [OF assms(1)] by (auto simp: q' delete_tasks_def tbl_delete_def intro!: filter_cong)
qed

text \<open>The demonstration: the completed task is cleaned up.\<close>

theorem cleanup_tasks_exact_witness:
  "\<exists>q'. cleanup_tasks 90000000 (Some 80) (Some 10) demo_done = Inr (1, q') \<and> queue_inv q' \<and>
     int (length (tasks q')) = int (length (tasks demo_done)) - 1"
proof -
  obtain n q' where q': "cleanup_tasks 90000000 (Some 80) (Some 10) demo_done = Inr (n, q')"
    by (simp add: cleanup_tasks_def check_retention_def Let_def)
  note inv = reachable_inv [OF demo_done_reachable]
  have "(case cleanup_tasks 90000000 (Some 80) (Some 10) demo_done of Inr (n, _) \<Rightarrow> n | Inl _ \<Rightarrow> 0) = 1" by code_simp
  then have "n = 1" using q' by simp
  moreover from cleanup_tasks_exact [OF inv q'] have "queue_inv q'"
    "n = int (length (tasks demo_done)) - int (length (tasks q'))" by blast+
  ultimately show ?thesis using q' by (intro exI [of _ q']) simp
qed

text \<open>The wake-up by an emission does not look at the events.\<close>

lemma upsert_events: "upsert_checkpoint c (q\<lparr>events := es\<rparr>) = (upsert_checkpoint c q)\<lparr>events := es\<rparr>"
  by (simp add: upsert_checkpoint_def)

lemma fold_upsert_events:
  "fold (\<lambda>w. upsert_checkpoint (h w)) ws (q\<lparr>events := es\<rparr>) = (fold (\<lambda>w. upsert_checkpoint (h w)) ws q)\<lparr>events := es\<rparr>"
  by (induction ws arbitrary: q) (simp_all add: upsert_events)

lemma wake_events: "wake_waiters now n p (q\<lparr>events := es\<rparr>) = (wake_waiters now n p q)\<lparr>events := es\<rparr>"
  by (simp add: wake_waiters_def Let_def woken_waits_def fold_upsert_events delete_waits_def update_tasks_def update_runs_def)

lemma record_events: "record_event now n p q = Some q' \<Longrightarrow> \<exists>es. q' = q\<lparr>events := es\<rparr>"
  by (auto simp: record_event_def split: option.splits if_splits)

lemma cleaned_events:
  assumes "cleanup_events now ttl limit q = Inr (n, q')"
  shows "\<exists>P. q' = q\<lparr>events := tbl_delete P (events q)\<rparr>"
  using assms by (auto simp: cleanup_events_def Let_def split: option.splits)

lemma cleaned_payload:
  assumes "event_payload n q = None" "key_inv cs (events q)"
  shows "event_payload n (q\<lparr>events := tbl_delete P (events q)\<rparr>) = None"
proof (cases "find_event n (q\<lparr>events := tbl_delete P (events q)\<rparr>)")
  case (Some e)
  then have e: "e \<in> set (events q)" "e_name e = n" by (auto simp: find_event_def in_tbl_delete dest: tbl_find_SomeD)
  then have "find_event n q = Some e" using assms(2) by (auto simp: find_event_def key_inv_def intro!: tbl_find_key)
  with assms(1) Some show ?thesis by (simp add: event_payload_def)
qed (simp add: event_payload_def)

text \<open>
  Property C33: cleaning up events loses no wake-up. Where an event has not been emitted, what its emission makes of
  tasks, runs, checkpoints and waits is the same after a cleanup as without it.
\<close>

theorem cleanup_events_wakes:
  assumes "queue_inv q" "cleanup_events now ttl limit q = Inr (n, q1)" "event_payload ev q = None"
    "emit_event now2 ev p q = Inr q2"
  shows "queue_inv q1 \<and> (\<exists>q3. emit_event now2 ev p q1 = Inr q3 \<and> tasks q3 = tasks q2 \<and> runs q3 = runs q2 \<and>
    checkpoints q3 = checkpoints q2 \<and> waits q3 = waits q2 \<and> event_payload ev q3 = event_payload ev q2)"
proof -
  let ?v = "case p of None \<Rightarrow> JNull | Some j \<Rightarrow> j"
  obtain P where q1: "q1 = q\<lparr>events := tbl_delete P (events q)\<rparr>" using cleaned_events [OF assms(2)] by blast
  have inv: "queue_inv q1" using assms(1) by (simp add: q1 queue_inv_def key_inv_def tbl_delete_def distinct_map_filter)
  have "event_payload ev q1 = None"
    unfolding q1 by (rule cleaned_payload [OF assms(3), of "checkpoints q"]) (use assms(1) in \<open>simp add: queue_inv_def\<close>)
  then obtain x1 where x1: "record_event now2 ev ?v q1 = Some x1"
    by (cases "find_event ev q1") (auto simp: record_event_def event_payload_def)
  from assms(4) obtain x where x: "record_event now2 ev ?v q = Some x" "q2 = wake_waiters now2 ev ?v x"
    by (cases rule: emit_event_cases) (use assms(3) in auto)
  obtain es es1 where e: "x = q\<lparr>events := es\<rparr>" "x1 = q1\<lparr>events := es1\<rparr>" using record_events x(1) x1 by meson
  have "emit_event now2 ev p q1 = Inr (wake_waiters now2 ev ?v x1)"
    using assms(4) x1 by (auto simp: emit_event_def Let_def split: if_splits)
  moreover have "wake_waiters now2 ev ?v x1 = q2\<lparr>events := es1\<rparr>" by (simp add: x(2) e q1 wake_events)
  moreover have "event_payload ev (wake_waiters now2 ev ?v x1) = event_payload ev q2"
    unfolding x(2) payload_same [OF wake_waiters_fields(1)] using record_event_payload(2) [OF x1] record_event_payload(2) [OF x(1)] by simp
  ultimately show ?thesis using inv by auto
qed

text \<open>The demonstration: the placeholder of the event that a run waits for is cleaned up, and the run is woken all the same.\<close>

theorem cleanup_events_wakes_witness:
  "\<exists>q1 q3 r. cleanup_events 100 (Some 0) None demo_waiting = Inr (1, q1) \<and> emit_event 140 ''go'' (Some (JNum 7)) q1 = Inr q3 \<and>
     find_run 1 q3 = Some r \<and> r_state r = Pending"
proof -
  let ?x = "cleanup_events 100 (Some 0) None demo_waiting" and ?y = "emit_event 140 ''go'' (Some (JNum 7)) demo_waiting"
  have "(case ?x of Inr (n, _) \<Rightarrow> n | Inl _ \<Rightarrow> 0) = 1" by code_simp
  then obtain q1 where q1: "?x = Inr (1, q1)" by (auto split: sum.splits)
  have pay: "event_payload ''go'' demo_waiting = None" by code_simp
  have "\<not> isl ?y" by code_simp
  then obtain q2 where q2: "?y = Inr q2" by (cases ?y) auto
  from cleanup_events_wakes [OF reachable_inv [OF demo_waiting_reachable] q1 pay q2] obtain q3 where
    q3: "emit_event 140 ''go'' (Some (JNum 7)) q1 = Inr q3" "runs q3 = runs q2" by blast
  have "(case ?y of Inr q \<Rightarrow> map_option r_state (find_run 1 q) | Inl _ \<Rightarrow> None) = Some Pending" by code_simp
  then obtain r where "find_run 1 q2 = Some r" "r_state r = Pending" using q2 by auto
  moreover have "find_run 1 q3 = find_run 1 q2" using q3(2) by (simp add: find_run_def)
  ultimately show ?thesis using q1 q3(1) by auto
qed

end
