(* ===== verification/Policy.thy ===== *)
theory Policy
  imports Client Cleanup
begin

text \<open>
  The policies of queues: \<open>set_queue_policy\<close>, \<open>get_queue_policy\<close> and \<open>cleanup_all_queues\<close> of \<open>sql/absurd.sql\<close>, which
  complete the operations on queues of the TypeScript client.
\<close>

section \<open>Policies\<close>

text \<open>
  An interval of PostgreSQL has months, days and microseconds. How the text of a JSON value is read as one, and how it
  is written, are parameters. An interval is compared by months of 30 days, and its epoch counts years of 365.25 days.
\<close>

record interval =
  iv_months :: int
  iv_days :: int
  iv_micros :: int

definition interval_negative :: "interval \<Rightarrow> bool" where
  "interval_negative i \<longleftrightarrow> (iv_months i * 30 + iv_days i) * 86400 * second + iv_micros i < 0"

definition interval_epoch :: "interval \<Rightarrow> rat" where
  "interval_epoch i =
     (let years = (if iv_months i < 0 then - (- iv_months i div 12) else iv_months i div 12);
          months = iv_months i - 12 * years
      in (of_int years * (1461 / 4) + of_int (30 * months + iv_days i)) * 86400 + of_int (iv_micros i) / of_int second)"

definition days_interval :: "int \<Rightarrow> interval" where
  "days_interval n = \<lparr>iv_months = 0, iv_days = n, iv_micros = 0\<rparr>"

record queue_policy =
  qp_defaultPartition :: bool
  qp_partitionLookahead :: interval
  qp_partitionLookback :: interval
  qp_cleanupTtl :: interval
  qp_cleanupLimit :: int
  qp_detachMode :: QueueDetachMode
  qp_detachMinAge :: interval

text \<open>The defaults of the table \<open>absurd.queues\<close>.\<close>

definition default_policy :: queue_policy where
  "default_policy = \<lparr>qp_defaultPartition = True, qp_partitionLookahead = days_interval 28,
     qp_partitionLookback = days_interval 1, qp_cleanupTtl = days_interval 30, qp_cleanupLimit = 1000,
     qp_detachMode = Detach_none, qp_detachMinAge = days_interval 30\<rparr>"

text \<open>The policies by queue; one that is not entered has the defaults. A dropped queue loses its row.\<close>

record policy_world = world +
  w_policies :: "(string \<times> queue_policy) list"

definition policy_of :: "string \<Rightarrow> policy_world \<Rightarrow> queue_policy" where
  "policy_of n w = (case map_of (w_policies w) n of None \<Rightarrow> default_policy | Some p \<Rightarrow> p)"

definition drop_queue_row :: "string \<Rightarrow> (policy_world, unit) ts" where
  "drop_queue_row n = (\<lambda>w. case sql_drop_queue n w of (r, w') \<Rightarrow> (r, w'\<lparr>w_policies := AList.delete n (w_policies w')\<rparr>))"

section \<open>Setting a policy\<close>

definition policy_keys :: "string list" where
  "policy_keys = [''partition_lookahead'', ''partition_lookback'', ''cleanup_ttl'', ''cleanup_limit'', ''detach_mode'',
     ''detach_min_age'', ''default_partition'']"

text \<open>The variables of the function, which may be null.\<close>

record policy_values =
  pv_partitionLookahead :: "interval option"
  pv_partitionLookback :: "interval option"
  pv_cleanupTtl :: "interval option"
  pv_cleanupLimit :: "int option"
  pv_detachMode :: string
  pv_detachMinAge :: "interval option"
  pv_defaultPartition :: string

definition cast_interval :: "(json \<Rightarrow> pg_error + interval) \<Rightarrow> json option \<Rightarrow> pg_error + interval option" where
  "cast_interval interval_in v =
     (case v of
        None \<Rightarrow> Inr None
      | Some JNull \<Rightarrow> Inr None
      | Some j \<Rightarrow> bind_result (interval_in j) (\<lambda>i. Inr (Some i)))"

definition given :: "string \<Rightarrow> json \<Rightarrow> (json option \<Rightarrow> pg_error + 'a) \<Rightarrow> 'a \<Rightarrow> pg_error + 'a" where
  "given k p cast old = (if json_has_key k p then cast (json_get k p) else Inr old)"

text \<open>\<open>lower(trim(coalesce(..., '')))\<close>, on ASCII; a number or an object is none of the words that are compared with it.\<close>

definition lower_char :: "char \<Rightarrow> char" where
  "lower_char c = (let n = of_char c :: nat in if 65 \<le> n \<and> n \<le> 90 then char_of (n + 32) else c)"

definition lower_trim :: "json option \<Rightarrow> pg_error + string" where
  "lower_trim v =
     Inr (map lower_char (trim_blanks (case json_text v of None \<Rightarrow> [] | Some t \<Rightarrow> t)))"

fun default_text :: "bool \<Rightarrow> string" where
  "default_text True = ''enabled''"
| "default_text False = ''disabled''"

definition read_policy :: "(json \<Rightarrow> pg_error + interval) \<Rightarrow> json \<Rightarrow> queue_policy \<Rightarrow> pg_error + policy_values" where
  "read_policy interval_in p old =
     bind_result (given ''partition_lookahead'' p (cast_interval interval_in) (Some (qp_partitionLookahead old))) (\<lambda>lookahead.
     bind_result (given ''partition_lookback'' p (cast_interval interval_in) (Some (qp_partitionLookback old))) (\<lambda>lookback.
     bind_result (given ''cleanup_ttl'' p (cast_interval interval_in) (Some (qp_cleanupTtl old))) (\<lambda>ttl.
     bind_result (given ''cleanup_limit'' p cast_int4 (Some (qp_cleanupLimit old))) (\<lambda>limit.
     bind_result (given ''detach_mode'' p lower_trim (detach_text (qp_detachMode old))) (\<lambda>mode.
     bind_result (given ''detach_min_age'' p (cast_interval interval_in) (Some (qp_detachMinAge old))) (\<lambda>age.
     bind_result (given ''default_partition'' p lower_trim (default_text (qp_defaultPartition old))) (\<lambda>default_partition.
       Inr \<lparr>pv_partitionLookahead = lookahead, pv_partitionLookback = lookback, pv_cleanupTtl = ttl,
            pv_cleanupLimit = limit, pv_detachMode = mode, pv_detachMinAge = age,
            pv_defaultPartition = default_partition\<rparr>)))))))"

text \<open>The checks; a comparison with null is not true. A null is then refused by the table.\<close>

definition null_in_column :: pg_error where
  "null_in_column = PgError ''23502'' ''null value in column violates not-null constraint''"

definition is_negative :: "interval option \<Rightarrow> bool" where
  "is_negative i = (case i of None \<Rightarrow> False | Some v \<Rightarrow> interval_negative v)"

definition check_policy :: "storage_mode \<Rightarrow> json \<Rightarrow> policy_values \<Rightarrow> pg_error + queue_policy" where
  "check_policy mode p v =
     (if is_negative (pv_partitionLookahead v) then Inl (raise_exception ''partition_lookahead must be non-negative'')
      else if is_negative (pv_partitionLookback v) then Inl (raise_exception ''partition_lookback must be non-negative'')
      else if is_negative (pv_cleanupTtl v) then Inl (raise_exception ''cleanup_ttl must be non-negative'')
      else if (case pv_cleanupLimit v of None \<Rightarrow> False | Some n \<Rightarrow> n < 1)
      then Inl (raise_exception ''cleanup_limit must be at least 1'')
      else if pv_detachMode v \<notin> {''none'', ''empty''} then Inl (raise_exception ''Unsupported detach mode'')
      else if is_negative (pv_detachMinAge v) then Inl (raise_exception ''detach_min_age must be non-negative'')
      else if pv_defaultPartition v \<notin> {''enabled'', ''disabled''}
      then Inl (raise_exception ''Unsupported default_partition mode'')
      else if mode \<noteq> Partitioned \<and> json_has_key ''default_partition'' p
      then Inl (raise_exception ''default_partition policy is only supported for partitioned queues'')
      else case (pv_partitionLookahead v, pv_partitionLookback v, pv_cleanupTtl v, pv_cleanupLimit v, pv_detachMinAge v) of
        (Some lookahead, Some lookback, Some ttl, Some limit, Some age) \<Rightarrow>
          Inr \<lparr>qp_defaultPartition = (pv_defaultPartition v = ''enabled''), qp_partitionLookahead = lookahead,
               qp_partitionLookback = lookback, qp_cleanupTtl = ttl, qp_cleanupLimit = limit,
               qp_detachMode = (if pv_detachMode v = ''none'' then Detach_none else Detach_empty), qp_detachMinAge = age\<rparr>
      | _ \<Rightarrow> Inl null_in_column)"

text \<open>
  What a changed default partition does to the tables is data definition and the parameter \<open>ddl\<close>, which may raise.
\<close>

definition sql_set_queue_policy ::
    "(json \<Rightarrow> pg_error + interval) \<Rightarrow> (string \<Rightarrow> bool \<Rightarrow> pg_error option) \<Rightarrow> string \<Rightarrow> json \<Rightarrow> (policy_world, unit) ts" where
  "sql_set_queue_policy interval_in ddl n p = (\<lambda>w.
     case bind_result (validate_queue_name n) (\<lambda>_.
        case p of
          JObj kvs \<Rightarrow>
            if list_ex (\<lambda>k. k \<notin> set policy_keys) (map fst kvs) then Inl (raise_exception ''Unsupported queue policy key'')
            else (case map_of (w_queues w) n of
              None \<Rightarrow> Inl (raise_exception ''Queue does not exist'')
            | Some q \<Rightarrow>
                bind_result (read_policy interval_in p (policy_of n w)) (\<lambda>v.
                bind_result (check_policy (q_mode q) p v) (\<lambda>new.
                  if q_mode q = Partitioned \<and> qp_defaultPartition new \<noteq> qp_defaultPartition (policy_of n w)
                  then (case ddl n (qp_defaultPartition new) of None \<Rightarrow> Inr new | Some e \<Rightarrow> Inl e)
                  else Inr new)))
        | _ \<Rightarrow> Inl (raise_exception ''Queue policy must be a JSON object'')) of
       Inl e \<Rightarrow> (Inl (DbError e), w)
     | Inr new \<Rightarrow> (Inr (), w\<lparr>w_policies := AList.update n new (w_policies w)\<rparr>))"

section \<open>Reading a policy\<close>

record QueuePolicy =
  py_queueName :: string
  py_storageMode :: storage_mode
  py_partitionLookahead :: string
  py_partitionLookback :: string
  py_cleanupTtl :: string
  py_cleanupLimit :: int
  py_detachMode :: QueueDetachMode
  py_detachMinAge :: string

definition sql_get_queue_policy :: "string \<Rightarrow> (policy_world, (string \<times> storage_mode \<times> queue_policy) list) ts" where
  "sql_get_queue_policy n = (\<lambda>w.
     (Inr (case map_of (w_queues w) n of None \<Rightarrow> [] | Some q \<Rightarrow> [(n, q_mode q, policy_of n w)]), w))"

definition row_policy :: "(interval \<Rightarrow> string) \<Rightarrow> string \<times> storage_mode \<times> queue_policy \<Rightarrow> QueuePolicy" where
  "row_policy interval_out = (\<lambda>(n, mode, p).
     \<lparr>py_queueName = n, py_storageMode = mode, py_partitionLookahead = interval_out (qp_partitionLookahead p),
      py_partitionLookback = interval_out (qp_partitionLookback p), py_cleanupTtl = interval_out (qp_cleanupTtl p),
      py_cleanupLimit = qp_cleanupLimit p, py_detachMode = qp_detachMode p,
      py_detachMinAge = interval_out (qp_detachMinAge p)\<rparr>)"

section \<open>Cleaning up by the policies\<close>

definition int4 :: "int \<Rightarrow> pg_error + int" where
  "int4 n = (if - 2147483648 \<le> n \<and> n < 2147483648 then Inr n else Inl out_of_range)"

definition cleanup_queue :: "string \<Rightarrow> policy_world \<Rightarrow> pg_error + (string \<times> int \<times> int) \<times> policy_world" where
  "cleanup_queue n w =
     (case map_of (w_queues w) n of
        None \<Rightarrow> Inl undefined_table
      | Some q \<Rightarrow>
          bind_result (int4 \<lfloor>interval_epoch (qp_cleanupTtl (policy_of n w))\<rfloor>) (\<lambda>seconds.
          let ttl = max seconds 0; limit = qp_cleanupLimit (policy_of n w)
          in bind_result (cleanup_tasks (w_db_now w) (Some ttl) (Some limit) q) (\<lambda>(tasks_deleted, q1).
             bind_result (cleanup_events (w_db_now w) (Some ttl) (Some limit) q1) (\<lambda>(events_deleted, q2).
               Inr ((n, tasks_deleted, events_deleted), set_queue n q2 w)))))"

primrec cleanup_queues ::
    "string list \<Rightarrow> policy_world \<Rightarrow> pg_error + (string \<times> int \<times> int) list \<times> policy_world" where
  "cleanup_queues [] w = Inr ([], w)"
| "cleanup_queues (n # ns) w =
     bind_result (cleanup_queue n w) (\<lambda>(row, w1).
     bind_result (cleanup_queues ns w1) (\<lambda>(rows, w2). Inr (row # rows, w2)))"

text \<open>One transaction: when a queue raises, no queue is cleaned up.\<close>

definition cleanup_all_queues :: "string option \<Rightarrow> (policy_world, (string \<times> int \<times> int) list) ts" where
  "cleanup_all_queues queue = (\<lambda>w.
     case bind_result
        (case queue of
           None \<Rightarrow> Inr (sort (map fst (w_queues w)))
         | Some n \<Rightarrow> bind_result (validate_queue_name n) (\<lambda>_.
             if map_of (w_queues w) n = None then Inl (raise_exception ''Queue does not exist'') else Inr [n]))
        (\<lambda>ns. cleanup_queues ns w) of
       Inl e \<Rightarrow> (Inl (DbError e), w)
     | Inr (rows, w') \<Rightarrow> (Inr rows, w'))"

end
