(* ===== verification/Policy_Spec.thy ===== *)
theory Policy_Spec
  imports Policy Client_Spec
begin

text \<open>
  What a client sets is what it reads, and what the policies make of a cleanup of all queues.
\<close>

section \<open>Setting and reading\<close>

lemma payload_get:
  fixes options :: "'o QueuePolicyOptions_scheme"
  defines "p \<equiv> JObj (buildQueuePolicyPayload options)"
  shows "json_get ''partition_lookahead'' p = map_option JStr (po_partitionLookahead options)"
    "json_get ''partition_lookback'' p = map_option JStr (po_partitionLookback options)"
    "json_get ''cleanup_ttl'' p = map_option JStr (po_cleanupTtl options)"
    "json_get ''cleanup_limit'' p = map_option json_of_num (po_cleanupLimit options)"
    "json_get ''detach_mode'' p = map_option (\<lambda>m. JStr (detach_text m)) (po_detachMode options)"
    "json_get ''detach_min_age'' p = map_option JStr (po_detachMinAge options)"
    "json_get ''default_partition'' p = None"
  by (auto simp: p_def buildQueuePolicyPayload_def num_field_def map_add_def split: option.splits)

lemma given_interval:
  assumes "given k p (cast_interval interval_in) (Some old) = Inr (Some v)" "json_get k p = map_option JStr t"
  shows "case t of None \<Rightarrow> v = old | Some s \<Rightarrow> interval_in (JStr s) = Inr v"
  using assms by (auto simp: given_def json_has_key_def cast_interval_def bind_result_Inr split: option.splits)

lemma given_limit:
  assumes "given k p cast_int4 (Some old) = Inr (Some v)" "json_get k p = map_option json_of_num t"
  shows "case t of None \<Rightarrow> v = old | Some x \<Rightarrow> x = Fin (of_int v)"
proof (cases t)
  case (Some x)
  then show ?thesis using assms
    by (cases x) (auto simp: given_def json_has_key_def cast_int4_def cast_int_def Let_def split: if_splits)
qed (use assms in \<open>auto simp: given_def json_has_key_def\<close>)

lemma lower_detach: "lower_trim (Some (JStr (detach_text m))) = Inr (detach_text m)"
proof -
  have "lower_trim (Some (JStr ''none'')) = Inr ''none''" "lower_trim (Some (JStr ''empty'')) = Inr ''empty''" by code_simp+
  then show ?thesis by (cases m) simp_all
qed

lemma given_detach:
  assumes "given k p lower_trim (detach_text old) = Inr v" "json_get k p = map_option (\<lambda>m. JStr (detach_text m)) t"
  shows "v = detach_text (case t of None \<Rightarrow> old | Some m \<Rightarrow> m)"
  using assms lower_detach by (cases t) (auto simp: given_def json_has_key_def)

text \<open>A policy that the checks accept.\<close>

definition policy_valid :: "queue_policy \<Rightarrow> bool" where
  "policy_valid p \<longleftrightarrow> \<not> interval_negative (qp_partitionLookahead p) \<and> \<not> interval_negative (qp_partitionLookback p) \<and>
     \<not> interval_negative (qp_cleanupTtl p) \<and> 1 \<le> qp_cleanupLimit p \<and> \<not> interval_negative (qp_detachMinAge p)"

lemma default_policy_valid: "policy_valid default_policy"
  by code_simp

lemma check_policy_Inr:
  assumes "check_policy mode p v = Inr new"
  shows "policy_valid new" "pv_partitionLookahead v = Some (qp_partitionLookahead new)"
    "pv_partitionLookback v = Some (qp_partitionLookback new)" "pv_cleanupTtl v = Some (qp_cleanupTtl new)"
    "pv_cleanupLimit v = Some (qp_cleanupLimit new)" "pv_detachMode v = detach_text (qp_detachMode new)"
    "pv_detachMinAge v = Some (qp_detachMinAge new)" "pv_defaultPartition v = default_text (qp_defaultPartition new)"
  using assms by (auto simp: check_policy_def policy_valid_def is_negative_def split: if_splits option.splits)

lemma read_policy_Inr:
  assumes "read_policy interval_in p old = Inr v"
  shows "given ''partition_lookahead'' p (cast_interval interval_in) (Some (qp_partitionLookahead old)) = Inr (pv_partitionLookahead v)"
    "given ''partition_lookback'' p (cast_interval interval_in) (Some (qp_partitionLookback old)) = Inr (pv_partitionLookback v)"
    "given ''cleanup_ttl'' p (cast_interval interval_in) (Some (qp_cleanupTtl old)) = Inr (pv_cleanupTtl v)"
    "given ''cleanup_limit'' p cast_int4 (Some (qp_cleanupLimit old)) = Inr (pv_cleanupLimit v)"
    "given ''detach_mode'' p lower_trim (detach_text (qp_detachMode old)) = Inr (pv_detachMode v)"
    "given ''detach_min_age'' p (cast_interval interval_in) (Some (qp_detachMinAge old)) = Inr (pv_detachMinAge v)"
    "given ''default_partition'' p lower_trim (default_text (qp_defaultPartition old)) = Inr (pv_defaultPartition v)"
  using assms unfolding read_policy_def bind_result_Inr by auto

lemma default_text_inj: "default_text b = default_text b' \<longleftrightarrow> b = b'"
  by (cases b; cases b') auto

lemma detach_text_inj: "detach_text m = detach_text m' \<longleftrightarrow> m = m'"
  by (cases m; cases m') auto

definition interval_updated ::
    "(json \<Rightarrow> pg_error + interval) \<Rightarrow> string option \<Rightarrow> interval \<Rightarrow> interval \<Rightarrow> bool" where
  "interval_updated interval_in t old new \<longleftrightarrow>
     (case t of None \<Rightarrow> new = old | Some s \<Rightarrow> interval_in (JStr s) = Inr new \<and> \<not> interval_negative new)"

text \<open>
  The new policy is the old one, but for the fields of the options, among which there is none for the default partition.
\<close>

definition policy_updated ::
    "(json \<Rightarrow> pg_error + interval) \<Rightarrow> 'o QueuePolicyOptions_scheme \<Rightarrow> queue_policy \<Rightarrow> queue_policy \<Rightarrow> bool" where
  "policy_updated interval_in options old new \<longleftrightarrow>
     interval_updated interval_in (po_partitionLookahead options) (qp_partitionLookahead old) (qp_partitionLookahead new) \<and>
     interval_updated interval_in (po_partitionLookback options) (qp_partitionLookback old) (qp_partitionLookback new) \<and>
     interval_updated interval_in (po_cleanupTtl options) (qp_cleanupTtl old) (qp_cleanupTtl new) \<and>
     interval_updated interval_in (po_detachMinAge options) (qp_detachMinAge old) (qp_detachMinAge new) \<and>
     (case po_cleanupLimit options of None \<Rightarrow> qp_cleanupLimit new = qp_cleanupLimit old
      | Some x \<Rightarrow> x = Fin (of_int (qp_cleanupLimit new)) \<and> 1 \<le> qp_cleanupLimit new) \<and>
     qp_detachMode new = (case po_detachMode options of None \<Rightarrow> qp_detachMode old | Some m \<Rightarrow> m) \<and>
     qp_defaultPartition new = qp_defaultPartition old"

lemma policy_set:
  fixes options :: "'o QueuePolicyOptions_scheme"
  assumes "read_policy interval_in (JObj (buildQueuePolicyPayload options)) old = Inr v"
    "check_policy mode (JObj (buildQueuePolicyPayload options)) v = Inr new"
  shows "policy_updated interval_in options old new"
proof -
  note r = read_policy_Inr [OF assms(1)] and c = check_policy_Inr [OF assms(2)]
  have i: "interval_updated interval_in t old' new'"
    if "given k (JObj (buildQueuePolicyPayload options)) (cast_interval interval_in) (Some old') = Inr (Some new')"
      "json_get k (JObj (buildQueuePolicyPayload options)) = map_option JStr t" "\<not> interval_negative new'" for k t old' new'
    using given_interval [OF that(1,2)] that(3) by (auto simp: interval_updated_def split: option.splits)
  have valid: "policy_valid new" by (rule c(1))
  have "qp_detachMode new = (case po_detachMode options of None \<Rightarrow> qp_detachMode old | Some m \<Rightarrow> m)"
    using given_detach [OF r(5) payload_get(5)] unfolding c(6) detach_text_inj .
  moreover have "case po_cleanupLimit options of None \<Rightarrow> qp_cleanupLimit new = qp_cleanupLimit old
      | Some x \<Rightarrow> x = Fin (of_int (qp_cleanupLimit new)) \<and> 1 \<le> qp_cleanupLimit new"
    using given_limit [OF r(4) [unfolded c(5)] payload_get(4)] valid by (auto simp: policy_valid_def split: option.splits)
  moreover have "qp_defaultPartition new = qp_defaultPartition old"
    using r(7) payload_get(7) [of options] unfolding c(8)
    by (simp add: given_def json_has_key_def default_text_inj)
  ultimately show ?thesis
    unfolding policy_updated_def
    using i [OF r(1) [unfolded c(2)] payload_get(1)] i [OF r(2) [unfolded c(3)] payload_get(2)]
      i [OF r(3) [unfolded c(4)] payload_get(3)] i [OF r(6) [unfolded c(7)] payload_get(6)] valid
    by (simp add: policy_valid_def)
qed

lemma empty_payload: "buildQueuePolicyPayload options = [] \<Longrightarrow> policy_updated interval_in options p p"
  by (auto simp: buildQueuePolicyPayload_def num_field_def opt_field_def policy_updated_def interval_updated_def
      split: option.splits)

lemma sql_set_policy:
  assumes "sql_set_queue_policy interval_in ddl n (JObj kvs) w = (Inr (), w')" "map_of (w_queues w) n = Some q"
  shows "\<exists>v new. read_policy interval_in (JObj kvs) (policy_of n w) = Inr v \<and> check_policy (q_mode q) (JObj kvs) v = Inr new \<and>
    w' = w\<lparr>w_policies := AList.update n new (w_policies w)\<rparr>"
proof -
  from assms(1) obtain new where new: "w' = w\<lparr>w_policies := AList.update n new (w_policies w)\<rparr>"
    "bind_result (read_policy interval_in (JObj kvs) (policy_of n w)) (\<lambda>v. bind_result (check_policy (q_mode q) (JObj kvs) v) (\<lambda>new.
       if q_mode q = Partitioned \<and> qp_defaultPartition new \<noteq> qp_defaultPartition (policy_of n w)
       then (case ddl n (qp_defaultPartition new) of None \<Rightarrow> Inr new | Some e \<Rightarrow> Inl e)
       else Inr new)) = Inr new"
    by (auto simp: sql_set_queue_policy_def assms(2) bind_result_def [of "validate_queue_name n"] split: sum.splits if_splits)
  from new(2) obtain v p where v: "read_policy interval_in (JObj kvs) (policy_of n w) = Inr v" "check_policy (q_mode q) (JObj kvs) v = Inr p"
    "(if q_mode q = Partitioned \<and> qp_defaultPartition p \<noteq> qp_defaultPartition (policy_of n w)
       then (case ddl n (qp_defaultPartition p) of None \<Rightarrow> Inr p | Some e \<Rightarrow> Inl e) else Inr p) = Inr new"
    unfolding bind_result_Inr by blast
  then have "p = new" by (auto split: if_splits option.splits)
  with v(1,2) new(1) show ?thesis by blast
qed

text \<open>
  Property C34: what a client sets as the policy of a queue is what it reads back. After \<open>setQueuePolicy\<close> returned,
  \<open>getQueuePolicy\<close> gives the policy in which the options given are set, to values that the table may hold, and
  everything else is as it was, the default partition included, for which there is no option; the policy stays a valid
  one, and no queue is touched.
\<close>

theorem policy_roundtrip:
  assumes "setQueuePolicy (sql_set_queue_policy interval_in ddl) this queueName options w = (Inr (), w')"
    and "or_own_queue this queueName = Inr n" "map_of (w_queues w) n = Some q"
  shows "\<exists>new. policy_updated interval_in options (policy_of n w) new \<and> (policy_valid (policy_of n w) \<longrightarrow> policy_valid new) \<and>
    getQueuePolicy sql_get_queue_policy (row_policy interval_out) this queueName w' =
      (Inr (Some (row_policy interval_out (n, q_mode q, new))), w') \<and> w_queues w' = w_queues w"
proof -
  have "\<exists>new. policy_updated interval_in options (policy_of n w) new \<and> (policy_valid (policy_of n w) \<longrightarrow> policy_valid new) \<and>
    policy_of n w' = new \<and> w_queues w' = w_queues w"
  proof (cases "buildQueuePolicyPayload options = []")
    case True
    then have "w' = w" using assms(1,2) by (simp add: setQueuePolicy_def bind_ts_def ret_def)
    then show ?thesis using empty_payload [OF True] by simp
  next
    case False
    then have "sql_set_queue_policy interval_in ddl n (JObj (buildQueuePolicyPayload options)) w = (Inr (), w')"
      using assms(1,2) by (simp add: setQueuePolicy_def bind_ts_def Let_def)
    from sql_set_policy [OF this assms(3)] obtain v new where
      v: "read_policy interval_in (JObj (buildQueuePolicyPayload options)) (policy_of n w) = Inr v"
      "check_policy (q_mode q) (JObj (buildQueuePolicyPayload options)) v = Inr new"
      "w' = w\<lparr>w_policies := AList.update n new (w_policies w)\<rparr>" by blast
    have "policy_of n w' = new" by (simp add: v(3) policy_of_def update_conv)
    then show ?thesis using policy_set [OF v(1,2)] check_policy_Inr(1) [OF v(2)] v(3) by simp
  qed
  then show ?thesis
    using assms(2,3) by (auto simp: getQueuePolicy_def bind_ts_def ret_def sql_get_queue_policy_def)
qed

text \<open>The demonstration: two queues, and a reading of two intervals.\<close>

definition demo_interval :: "json \<Rightarrow> pg_error + interval" where
  "demo_interval j =
     (if j = JStr ''100 years'' then Inr \<lparr>iv_months = 1200, iv_days = 0, iv_micros = 0\<rparr>
      else if j = JStr ''10 days'' then Inr (days_interval 10)
      else Inl invalid_text)"

definition demo_interval_text :: "interval \<Rightarrow> string" where
  "demo_interval_text i = int_dec (iv_months i) @ ''/'' @ int_dec (iv_days i)"

definition demo_queues :: policy_world where
  "demo_queues = \<lparr>w_queues = [(''default'', empty_queue Unpartitioned), (''other'', empty_queue Partitioned)], w_db_now = 3000000 * second, w_js_now = 0,
     w_policies = []\<rparr>"

definition no_policy :: QueuePolicyOptions where
  "no_policy = \<lparr>po_partitionLookahead = None, po_partitionLookback = None, po_cleanupTtl = None, po_cleanupLimit = None,
     po_detachMode = None, po_detachMinAge = None\<rparr>"

definition demo_set :: "string \<Rightarrow> string \<Rightarrow> policy_world" where
  "demo_set n ttl = snd (setQueuePolicy (sql_set_queue_policy demo_interval (\<lambda>_ _. None)) demo_client (Some n)
     (no_policy\<lparr>po_cleanupTtl := Some ttl\<rparr>) demo_queues)"

theorem policy_roundtrip_witness:
  "\<exists>row. getQueuePolicy sql_get_queue_policy (row_policy demo_interval_text) demo_client (Some ''default'')
       (demo_set ''default'' ''10 days'') = (Inr (Some row), demo_set ''default'' ''10 days'') \<and>
     py_cleanupTtl row = ''0/10'' \<and> py_partitionLookahead row = ''0/28''"
proof -
  let ?o = "no_policy\<lparr>po_cleanupTtl := Some ''10 days''\<rparr>"
  let ?m = "setQueuePolicy (sql_set_queue_policy demo_interval (\<lambda>_ _. None)) demo_client (Some ''default'') ?o demo_queues"
  have "fst ?m = Inr ()" by code_simp
  then have m: "?m = (Inr (), demo_set ''default'' ''10 days'')" unfolding demo_set_def by (metis prod.collapse)
  have n: "or_own_queue demo_client (Some ''default'') = Inr ''default''" by code_simp
  have q: "map_of (w_queues demo_queues) ''default'' = Some (empty_queue Unpartitioned)" by (simp add: demo_queues_def)
  from policy_roundtrip [OF m n q, of demo_interval_text] obtain new where
    new: "policy_updated demo_interval ?o (policy_of ''default'' demo_queues) new"
    "getQueuePolicy sql_get_queue_policy (row_policy demo_interval_text) demo_client (Some ''default'') (demo_set ''default'' ''10 days'') =
      (Inr (Some (row_policy demo_interval_text (''default'', q_mode (empty_queue Unpartitioned), new))), demo_set ''default'' ''10 days'')" by blast
  have "demo_interval (JStr ''10 days'') = Inr (days_interval 10)" by code_simp
  then have "qp_cleanupTtl new = days_interval 10" "qp_partitionLookahead new = days_interval 28"
    using new(1) by (simp_all add: policy_updated_def interval_updated_def no_policy_def policy_of_def demo_queues_def default_policy_def)
  moreover have "demo_interval_text (days_interval 10) = ''0/10''" "demo_interval_text (days_interval 28) = ''0/28''" by code_simp+
  ultimately show ?thesis using new(2) by (simp add: row_policy_def)
qed

section \<open>Cleaning up all queues\<close>

text \<open>The retention of a policy in seconds is cast to a 32-bit integer.\<close>

definition ttl_fits :: "queue_policy \<Rightarrow> bool" where
  "ttl_fits p \<longleftrightarrow> - 2147483648 \<le> \<lfloor>interval_epoch (qp_cleanupTtl p)\<rfloor> \<and> \<lfloor>interval_epoch (qp_cleanupTtl p)\<rfloor> < 2147483648"

definition cleaned_by :: "queue_policy \<Rightarrow> int \<Rightarrow> qstate \<Rightarrow> int \<Rightarrow> int \<Rightarrow> qstate \<Rightarrow> bool" where
  "cleaned_by p now q k l q' \<longleftrightarrow>
     (let ttl = Some (max \<lfloor>interval_epoch (qp_cleanupTtl p)\<rfloor> 0); limit = Some (qp_cleanupLimit p)
      in \<exists>q1. cleanup_tasks now ttl limit q = Inr (k, q1) \<and> cleanup_events now ttl limit q1 = Inr (l, q'))"

lemma cleanup_queue_cases:
  assumes "map_of (w_queues w) n = Some q" "policy_valid (policy_of n w)"
  shows "if ttl_fits (policy_of n w)
    then \<exists>k l q'. cleaned_by (policy_of n w) (w_db_now w) q k l q' \<and> cleanup_queue n w = Inr ((n, k, l), set_queue n q' w)
    else cleanup_queue n w = Inl out_of_range"
proof (cases "ttl_fits (policy_of n w)")
  case True
  let ?ttl = "Some (max \<lfloor>interval_epoch (qp_cleanupTtl (policy_of n w))\<rfloor> 0)" and ?limit = "Some (qp_cleanupLimit (policy_of n w))"
  have c: "check_retention ?ttl ?limit = None" using assms(2) by (simp add: check_retention_def policy_valid_def)
  obtain k q1 where 1: "cleanup_tasks (w_db_now w) ?ttl ?limit q = Inr (k, q1)" using c by (simp add: cleanup_tasks_def Let_def)
  obtain l q2 where 2: "cleanup_events (w_db_now w) ?ttl ?limit q1 = Inr (l, q2)" using c by (simp add: cleanup_events_def Let_def)
  have "cleanup_queue n w = Inr ((n, k, l), set_queue n q2 w)"
    using True 1 2 assms(1) by (simp add: cleanup_queue_def Let_def int4_def ttl_fits_def)
  moreover have "cleaned_by (policy_of n w) (w_db_now w) q k l q2" using 1 2 by (auto simp: cleaned_by_def Let_def)
  ultimately show ?thesis using True by auto
next
  case False
  then show ?thesis using assms(1) by (auto simp: cleanup_queue_def int4_def ttl_fits_def)
qed

lemma policy_of_set_queue: "policy_of n (set_queue m q w) = policy_of n w"
  by (simp add: policy_of_def set_queue_def)

lemma cleanup_queues_cases:
  assumes "distinct ns" "\<forall>n \<in> set ns. map_of (w_queues w) n \<noteq> None" "\<forall>n. policy_valid (policy_of n w)"
  shows "if \<forall>n \<in> set ns. ttl_fits (policy_of n w)
    then \<exists>rows w'. cleanup_queues ns w = Inr (rows, w') \<and> map fst rows = ns \<and> w_policies w' = w_policies w \<and>
      (\<forall>n. n \<notin> set ns \<longrightarrow> map_of (w_queues w') n = map_of (w_queues w) n) \<and>
      (\<forall>n \<in> set ns. \<exists>k l q'. (n, k, l) \<in> set rows \<and> map_of (w_queues w') n = Some q' \<and>
         cleaned_by (policy_of n w) (w_db_now w) (the (map_of (w_queues w) n)) k l q')
    else cleanup_queues ns w = Inl out_of_range"
  using assms
proof (induction ns arbitrary: w)
  case (Cons n ns)
  obtain q where q: "map_of (w_queues w) n = Some q" using Cons.prems(2) by auto
  note c = cleanup_queue_cases [OF q Cons.prems(3) [rule_format]]
  show ?case
  proof (cases "ttl_fits (policy_of n w)")
    case False
    then show ?thesis using c by simp
  next
    case True
    then obtain k l q' where k: "cleaned_by (policy_of n w) (w_db_now w) q k l q'" "cleanup_queue n w = Inr ((n, k, l), set_queue n q' w)"
      using c by auto
    let ?w = "set_queue n q' w"
    have "\<forall>m \<in> set ns. map_of (w_queues ?w) m \<noteq> None" "\<forall>m. policy_valid (policy_of m ?w)" "distinct ns" "n \<notin> set ns"
      using Cons.prems by (auto simp: policy_of_set_queue)
    note IH = Cons.IH [OF this(3,1,2), unfolded policy_of_set_queue] and n = this(4)
    show ?thesis
    proof (cases "\<forall>n \<in> set ns. ttl_fits (policy_of n w)")
      case False
      then show ?thesis using IH k(2) by auto
    next
      case fits: True
      then obtain rows w' where r: "cleanup_queues ns ?w = Inr (rows, w')" "map fst rows = ns" "w_policies w' = w_policies ?w"
        "\<forall>m. m \<notin> set ns \<longrightarrow> map_of (w_queues w') m = map_of (w_queues ?w) m"
        "\<forall>m \<in> set ns. \<exists>k l q2. (m, k, l) \<in> set rows \<and> map_of (w_queues w') m = Some q2 \<and>
           cleaned_by (policy_of m w) (w_db_now ?w) (the (map_of (w_queues ?w) m)) k l q2"
        using IH by auto
      have same: "w_policies ?w = w_policies w" "w_db_now ?w = w_db_now w" by (simp_all add: set_queue_def)
      have run: "cleanup_queues (n # ns) w = Inr ((n, k, l) # rows, w')" using k(2) r(1) by simp
      have all: "\<forall>m \<in> set (n # ns). \<exists>i j q2. (m, i, j) \<in> set ((n, k, l) # rows) \<and> map_of (w_queues w') m = Some q2 \<and>
          cleaned_by (policy_of m w) (w_db_now w) (the (map_of (w_queues w) m)) i j q2"
      proof
        fix m assume m: "m \<in> set (n # ns)"
        show "\<exists>i j q2. (m, i, j) \<in> set ((n, k, l) # rows) \<and> map_of (w_queues w') m = Some q2 \<and>
          cleaned_by (policy_of m w) (w_db_now w) (the (map_of (w_queues w) m)) i j q2"
        proof (cases "m = n")
          case True
          then show ?thesis using k(1) q r(4) n by auto
        next
          case False
          then have "map_of (w_queues ?w) m = map_of (w_queues w) m" "m \<in> set ns" using m by simp_all
          with r(5) same(2) show ?thesis by fastforce
        qed
      qed
      have fit: "\<forall>m \<in> set (n # ns). ttl_fits (policy_of m w)" using True fits by simp
      show ?thesis unfolding if_P [OF fit]
      proof (intro exI conjI)
        show "map fst ((n, k, l) # rows) = n # ns" using r(2) by simp
        show "\<forall>m. m \<notin> set (n # ns) \<longrightarrow> map_of (w_queues w') m = map_of (w_queues w) m" using r(4) by simp
      qed (use run r(3) same(1) all in simp_all)
    qed
  qed
qed simp

text \<open>
  Property C35: the cleanup of all queues cleans every queue by its policy, or none. It succeeds when every retention time
  fits into a 32-bit number of seconds; but a single queue with a longer one, such as \<open>'100 years'\<close>, which
  \<open>set_queue_policy\<close> accepts, makes it raise and leaves all queues as they were.
\<close>

theorem cleanup_all_by_policy:
  assumes "distinct (map fst (w_queues w))" "\<forall>n. policy_valid (policy_of n w)"
  shows "if \<forall>n \<in> fst ` set (w_queues w). ttl_fits (policy_of n w)
    then \<exists>rows w'. cleanup_all_queues None w = (Inr rows, w') \<and> map fst rows = sort (map fst (w_queues w)) \<and>
      w_policies w' = w_policies w \<and>
      (\<forall>(n, q) \<in> set (w_queues w). \<exists>k l q'. (n, k, l) \<in> set rows \<and> map_of (w_queues w') n = Some q' \<and>
         cleaned_by (policy_of n w) (w_db_now w) q k l q')
    else cleanup_all_queues None w = (Inl (DbError out_of_range), w)"
proof -
  let ?ns = "sort (map fst (w_queues w))"
  have ns: "distinct ?ns" "set ?ns = fst ` set (w_queues w)" using assms(1) by simp_all
  have "\<forall>n \<in> set ?ns. map_of (w_queues w) n \<noteq> None" by (simp add: map_of_eq_None_iff)
  note c = cleanup_queues_cases [OF ns(1) this assms(2)]
  show ?thesis
  proof (cases "\<forall>n \<in> fst ` set (w_queues w). ttl_fits (policy_of n w)")
    case True
    then obtain rows w' where r: "cleanup_queues ?ns w = Inr (rows, w')" "map fst rows = ?ns" "w_policies w' = w_policies w"
      "\<forall>n \<in> set ?ns. \<exists>k l q'. (n, k, l) \<in> set rows \<and> map_of (w_queues w') n = Some q' \<and>
         cleaned_by (policy_of n w) (w_db_now w) (the (map_of (w_queues w) n)) k l q'"
      using c unfolding ns(2) by auto
    have "\<exists>k l q'. (n, k, l) \<in> set rows \<and> map_of (w_queues w') n = Some q' \<and> cleaned_by (policy_of n w) (w_db_now w) q k l q'"
      if "(n, q) \<in> set (w_queues w)" for n q
    proof -
      have "n \<in> set ?ns" using that by (simp add: image_iff) (metis fst_conv)
      with r(4) have "\<exists>k l q'. (n, k, l) \<in> set rows \<and> map_of (w_queues w') n = Some q' \<and>
         cleaned_by (policy_of n w) (w_db_now w) (the (map_of (w_queues w) n)) k l q'" by blast
      then show ?thesis using map_of_is_SomeI [OF assms(1) that] by simp
    qed
    then have "\<forall>(n, q) \<in> set (w_queues w). \<exists>k l q'. (n, k, l) \<in> set rows \<and> map_of (w_queues w') n = Some q' \<and>
         cleaned_by (policy_of n w) (w_db_now w) q k l q'" by blast
    moreover have "cleanup_all_queues None w = (Inr rows, w')" using r(1) by (simp add: cleanup_all_queues_def)
    ultimately show ?thesis using True r(2,3) by auto
  next
    case False
    then have "cleanup_queues ?ns w = Inl out_of_range" using c unfolding ns(2) by auto
    then show ?thesis using False by (auto simp: cleanup_all_queues_def)
  qed
qed

text \<open>The demonstration: one queue is kept for 100 years, and no queue is cleaned up.\<close>

theorem cleanup_all_by_policy_witness:
  "(\<exists>rows w'. cleanup_all_queues None demo_queues = (Inr rows, w')) \<and>
   cleanup_all_queues None (demo_set ''other'' ''100 years'') = (Inl (DbError out_of_range), demo_set ''other'' ''100 years'')"
proof
  let ?w = "demo_set ''other'' ''100 years''" and ?i = "\<lparr>iv_months = 1200, iv_days = 0, iv_micros = 0\<rparr>"
  have p: "w_policies ?w = [(''other'', default_policy\<lparr>qp_cleanupTtl := ?i\<rparr>)]" by code_simp
  have "policy_valid (default_policy\<lparr>qp_cleanupTtl := ?i\<rparr>)" by code_simp
  then have valid: "\<forall>n. policy_valid (policy_of n ?w)" using default_policy_valid by (simp add: policy_of_def p)
  have names: "map fst (w_queues ?w) = [''default'', ''other'']" by code_simp
  have long: "\<not> ttl_fits (policy_of ''other'' ?w)" by (simp add: policy_of_def p ttl_fits_def interval_epoch_def Let_def)
  have "''other'' \<in> fst ` set (w_queues ?w)" using names by (metis list.set_intros list.set_map)
  then have "\<not> (\<forall>n \<in> fst ` set (w_queues ?w). ttl_fits (policy_of n ?w))" using long by blast
  moreover have "distinct (map fst (w_queues ?w))" by (simp add: names)
  ultimately show "cleanup_all_queues None ?w = (Inl (DbError out_of_range), ?w)"
    using cleanup_all_by_policy [OF _ valid] by (simp del: set_map)
next
  have "ttl_fits default_policy" by code_simp
  then have "\<forall>n \<in> fst ` set (w_queues demo_queues). ttl_fits (policy_of n demo_queues)" by (simp add: policy_of_def demo_queues_def)
  moreover have "\<forall>n. policy_valid (policy_of n demo_queues)" using default_policy_valid by (simp add: policy_of_def demo_queues_def)
  moreover have "distinct (map fst (w_queues demo_queues))" by (simp add: demo_queues_def)
  ultimately show "\<exists>rows w'. cleanup_all_queues None demo_queues = (Inr rows, w')"
    using cleanup_all_by_policy [of demo_queues] by auto
qed

end
