(* ===== verification/Spec2Isabelle.thy ===== *)
theory Spec2Isabelle
  imports Executor_Spec Effect_Spec Settle_Spec Stuck_Spec Clock_Spec Policy_Spec
begin

text \<open>
  A verification development of Absurd, a durable workflow system on PostgreSQL.

  \<^bold>\<open>The program.\<close> The state of all tasks lives in the tables of named queues and is changed by stored functions
  (\<open>sql/absurd.sql\<close>). Two SDKs call them: the TypeScript SDK (\<open>sdks/typescript/src/index.ts\<close>) with its client, task
  context and worker, and the Effect SDK (\<open>sdks/effect/src\<close>) with typed tasks, durable steps, a worker, test doubles
  and a workflow engine. A task has runs, one per attempt; a worker claims a run under a lease, executes the handler of
  the task and reports the outcome. What a handler has achieved is kept in checkpoints, so that a later run of the same
  task replays it; a handler that has to wait suspends its run until a time or an event. A workflow execution of the
  engine is a task whose idempotency key is the execution id; its suspended runs wait on a fresh event, the doorbell,
  that producers of results ring.

  \<^bold>\<open>Theories and sources.\<close>
  \<^item> \<open>Prelude\<close>, \<open>Dates\<close>: JSON, JavaScript numbers, tables as lists, results of calls, decimal text; ISO dates.
  \<^item> \<open>Store\<close>: the tables of one queue as the record \<open>qstate\<close> and the stored functions, each one transaction
    (\<open>spawn_task\<close>, \<open>claim_task\<close>, \<open>complete_run\<close>, \<open>schedule_run\<close>, \<open>fail_run\<close>, \<open>retry_task\<close>, \<open>cancel_task\<close>,
    \<open>set_task_checkpoint_state\<close>, \<open>extend_claim\<close>, \<open>await_event\<close>, \<open>emit_event\<close> and the reads).
  \<^item> \<open>Client_Types\<close>, \<open>Client\<close>: options, normalisation and the class \<open>Absurd\<close> of \<open>index.ts\<close>; the record \<open>world\<close> holds
    the queues of a database and the two clocks. \<open>Task_Context\<close>: the class \<open>TaskContext\<close>. \<open>Executor\<close>: \<open>executeTask\<close>,
    \<open>workBatch\<close> and the loop of \<open>startWorker\<close> as the step relation \<open>worker_step\<close>.
  \<^item> \<open>Effect_Types\<close>, \<open>Effect_Sql\<close> (\<open>internal/AbsurdSql.ts\<close>), \<open>Effect_Task\<close> (\<open>Task.ts\<close>, \<open>internal/TaskStore.ts\<close>),
    \<open>Effect_Store\<close> (\<open>Absurd.ts\<close>), \<open>Durable\<close> (\<open>internal/Checkpoint.ts\<close>), \<open>Effect_Worker\<close> (\<open>Absurd.ts\<close>, \<open>Worker.ts\<close>,
    \<open>Step.ts\<close>, \<open>CurrentTask.ts\<close>), \<open>Effect_Test\<close> (\<open>TestCurrentTask.ts\<close>, \<open>TestTaskStore.ts\<close>).
  \<^item> \<open>Interleave\<close>: programs of atomic statements, and how they run among other processes. \<open>Reserved\<close>
    (\<open>unstable/workflow/Reserved.ts\<close>), \<open>Workflow_Types\<close>, \<open>Workflow\<close> and \<open>Workflow_Engine\<close>
    (\<open>unstable/workflow/AbsurdWorkflowEngine.ts\<close>): registration, doorbells and wake sources, \<open>parkSuspended\<close>,
    activities, deferreds, clocks, \<open>processClaim\<close>, \<open>workerLoop\<close> and the operations on executions. Of the Effect
    library, which is in the repository, \<open>intoResult\<close>, \<open>DurableDeferred.await\<close>, \<open>onExit\<close> and the instance are modelled,
    and in \<open>Workflow_Flow\<close> what handlers call: the execution of an activity, \<open>DurableClock.sleep\<close> and the execution of a
    child; there a handler that is made of such operations is a \<open>flow\<close>.
  \<^item> \<open>Cleanup\<close>: \<open>cleanup_tasks\<close> and \<open>cleanup_events\<close> of \<open>absurd.sql\<close>, which operators call and the SDKs do not.
    \<open>Policy\<close>: the policies of queues, in a world that is extended by them, with \<open>set_queue_policy\<close>,
    \<open>get_queue_policy\<close>, which the operations of the client take as parameters, and \<open>cleanup_all_queues\<close>.

  \<^bold>\<open>What the lemmas show.\<close>
  \<^item> \<open>Store_Inv\<close>: the invariant \<open>queue_inv\<close> of the tables, kept by every stored function; \<open>queue_step\<close> is a call of any
    of them and \<open>reachable\<close> what they make of an empty queue. \<open>Task_Life\<close>, \<open>Run_Life\<close>, \<open>Checkpoint_Life\<close>,
    \<open>Sleep_Life\<close>: what any sequence of calls keeps of a task, a run, a checkpoint and a wait. \<open>Store_Props\<close>,
    \<open>Store_Spec\<close>, \<open>Run_Spec\<close>: claims are exclusive, results final, events written once, retries scheduled,
    checkpoints fenced, cancellations final.
  \<^item> \<open>Durable\<close> states the interface \<open>step_backend\<close> of a checkpoint store and proves replay for every handler made of
    steps; it is interpreted by the task context (\<open>Context_Spec\<close>), by the Effect worker (\<open>Effect_Spec\<close>) and by the test
    doubles (\<open>Effect_Test\<close>), and \<open>test_double\<close> relates two of them. \<open>Polling\<close> states the interface \<open>polling_loop\<close> and
    proves capacity and shutdown for the loops of both SDKs. \<open>Effect_Task\<close> states \<open>task_store\<close>, interpreted by the
    store on PostgreSQL in \<open>Effect_Store\<close>.
  \<^item> \<open>Client_Spec\<close>, \<open>Context_Spec\<close>, \<open>Wait_Spec\<close>, \<open>Executor_Spec\<close>, \<open>Effect_Spec\<close>: the operations of the SDKs on every
    branch, recovery after a crash, round trips of payloads and results, termination of polling and shutdown.
  \<^item> \<open>Workflow_Moves\<close>: programs that are \<open>lawful\<close> move the queues by stored functions only; all programs of the engine
    are, so every theorem about reachable queues holds below it. \<open>Workflow_Wake\<close>, \<open>Workflow_Spec\<close>, \<open>Wake_Spec\<close>: parking
    a run and waking it, with other processes between any two statements. \<open>Interrupt_Spec\<close>, \<open>Settle_Spec\<close>: the marker
    of an interruption wins, and a committed result is final and reaches the parent. \<open>Keeping\<close>: what a program keeps
    while others move, and the checkpoints of a task as cells that are written once. \<open>Activity_Spec\<close>: an activity is
    executed once. \<open>Flow_Spec\<close> states the interface \<open>durable_ops\<close> of operations that record their exit in a cell, proves
    resumption, replay and recovery for every flow of them, and interprets it by the activities and deferreds of the
    engine. \<open>Clock_Spec\<close>: a durable clock keeps its deadline. \<open>Stuck_Spec\<close>: where the engine does not keep what it promises.
    \<open>Workflow_Demo\<close> has the concrete execution on which these properties are tried out.
  \<^item> \<open>Cleanup\<close> also shows that a cleanup takes nothing but old rows, keeps the invariant and loses no wake-up.
    \<open>Policy_Spec\<close>: a client reads the policy it has set, and when a cleanup by the policies goes through.

  \<^bold>\<open>How the code is modelled.\<close> A call is a function of the world or of the session to a result and a new state; errors
  are values of a sum type, with the SQL states and JavaScript errors of the code. The polling loops are step
  relations whose steps are the points at which the loop waits. A program of the workflow engine is a tree with one
  node per query: \<open>run_proc\<close> runs it alone, \<open>ends env\<close> are its ends when other processes move by \<open>env\<close> between the
  nodes, and \<open>ahead env\<close> its prefixes, for a handler that is interrupted; a SQL transaction is one node. Handlers are
  parameters: functions, or programs made of the modelled operations. No recursion needs fuel, except that
  \<open>awaitTaskResult\<close> without a timeout may poll for ever (a \<open>partial_function\<close>; with a timeout it is shown to end).
  Identifiers are the numbers of a counter in place of random UUIDs; the random parts of a doorbell are a parameter.
  Numbers are exact rationals, with the non-finite JavaScript numbers and the range checks of PostgreSQL written out;
  durations of the workflow engine's options are finite. Messages of errors are shortened where no code reads them.
  Schemas are parameters, an encoder and a decoder that may fail, and theorems that decode what was encoded say so in a
  hypothesis. A cause is its list of reasons, without the fibers that interrupted.

  \<^bold>\<open>Not modelled.\<close>
  \<^item> In \<open>absurd.sql\<close>: partitions and their maintenance, cron jobs and the migration table; they are data definition on
    which the SDKs do not rely. What a changed default partition does to tables, and how the text of an interval is
    read and written, are parameters. Row locks have no counterpart, as
    each function is atomic. The cleanup of tasks and events is modelled, but is no step of \<open>queue_step\<close>: what is final
    or written once in the theorems about reachable queues is so until an operator cleans it up.
  \<^item> In the workflow engine: scopes and finalizers of scopes, logging, the delays between polls and renewals, the cache of
    codecs and the wiring of the layers; the cause that a suspension carries; activities of one handler that run
    concurrently, and the latch of Effect that waits for them. In the workers: the connection pool,
    \<open>onError\<close> is taken to return, and process exit is the end of the steps.
  \<^item> The rest of the Effect library, Habitat (a Go server and a web page), the Python SDK, \<open>absurdctl\<close>, the lint plugin,
    examples and tests.
\<close>

end
